(* ===== verification/Sm3t_Prelude.thy ===== *)
theory Sm3t_Prelude
  imports Main
begin

text \<open>
  Shared ground of the development: how a C computation that may go wrong is represented, the
  fixed-width integer arithmetic the sources use, the generic list facts the components share, and
  the contract of a stepwise computation that keeps an invariant.

  A C expression either has a value or has no meaning (a null or out-of-range access, a signed
  overflow, the use of a freed or uninitialised object) or ends the process. A model function
  therefore returns \<open>'a cres\<close>: \<open>Inr\<close> the value, \<open>Inl\<close> the reason there is none. Statements are
  sequenced with \<open>cbind\<close>.
\<close>

section \<open>Outcomes of C computations\<close>

datatype cerror =
    Null_Deref          \<comment> \<open>a null pointer is dereferenced\<close>
  | Out_Of_Bounds       \<comment> \<open>an access outside the object\<close>
  | Uninit_Read         \<comment> \<open>an indeterminate value is used as a pointer\<close>
  | Use_After_Free      \<comment> \<open>an access to a freed object\<close>
  | Signed_Overflow     \<comment> \<open>a signed result does not fit its type\<close>
  | Div_By_Zero         \<comment> \<open>the right operand of a division is zero\<close>
  | Bad_Conversion      \<comment> \<open>a floating value does not fit the integer type\<close>
  | Lua_Panic           \<comment> \<open>a Lua error raised outside a protected call: the process aborts\<close>
  | Exit_Failure        \<comment> \<open>the process exits, as \<open>SM3T__FATAL\<close> does\<close>

type_synonym 'a cres = "cerror + 'a"

definition cbind :: "'a cres \<Rightarrow> ('a \<Rightarrow> 'b cres) \<Rightarrow> 'b cres" where
  "cbind m f = (case m of Inl e \<Rightarrow> Inl e | Inr x \<Rightarrow> f x)"

definition is_ok :: "'a cres \<Rightarrow> bool" where
  "is_ok m = (case m of Inl _ \<Rightarrow> False | Inr _ \<Rightarrow> True)"

text \<open>A computation that may also not return: \<open>None\<close>.\<close>

definition obind :: "'a cres option \<Rightarrow> ('a \<Rightarrow> 'b cres option) \<Rightarrow> 'b cres option" where
  "obind m f = (case m of None \<Rightarrow> None | Some (Inl e) \<Rightarrow> Some (Inl e) | Some (Inr x) \<Rightarrow> f x)"

section \<open>Fixed-width integers\<close>

text \<open>
  \<open>int\<close> is 32 bits wide, \<open>int64_t\<close> and \<open>ssize_t\<close> 64 bits, \<open>size_t\<close> is unsigned with 64 bits and
  wraps. Signed operations are checked: a result outside the type is an error of the model.
\<close>

definition INT_MAX :: int where "INT_MAX = 2147483647"
definition INT64_MAX :: int where "INT64_MAX = 9223372036854775807"
definition UINT16_MAX :: int where "UINT16_MAX = 65535"
definition UINT32_MAX :: nat where "UINT32_MAX = 4294967295"
definition SIZE_MOD :: nat where "SIZE_MOD = 18446744073709551616"

definition in_i32 :: "int \<Rightarrow> bool" where
  "in_i32 x \<longleftrightarrow> - INT_MAX - 1 \<le> x \<and> x \<le> INT_MAX"

definition in_i64 :: "int \<Rightarrow> bool" where
  "in_i64 x \<longleftrightarrow> - INT64_MAX - 1 \<le> x \<and> x \<le> INT64_MAX"

definition i32 :: "int \<Rightarrow> int cres" where
  "i32 x = (if in_i32 x then Inr x else Inl Signed_Overflow)"

definition i64 :: "int \<Rightarrow> int cres" where
  "i64 x = (if in_i64 x then Inr x else Inl Signed_Overflow)"

text \<open>The C remainder truncates towards zero and is undefined for a zero divisor.\<close>

definition c_rem :: "int \<Rightarrow> int \<Rightarrow> int cres" where
  "c_rem a b = (if b = 0 then Inl Div_By_Zero else Inr (sgn a * (\<bar>a\<bar> mod \<bar>b\<bar>)))"

text \<open>Arithmetic of \<open>size_t\<close>.\<close>

definition sz :: "nat \<Rightarrow> nat" where
  "sz n = n mod SIZE_MOD"

section \<open>Arrays of pointers\<close>

text \<open>
  A slot of an allocated pointer array: never written since the allocation, the null pointer, or a
  pointer to an object.
\<close>

datatype 'a slot = Indet | NullP | Ptr 'a

definition slot_put :: "'a slot list \<Rightarrow> int \<Rightarrow> 'a slot \<Rightarrow> 'a slot list cres" where
  "slot_put xs i v =
     (if 0 \<le> i \<and> i < int (length xs) then Inr (xs[nat i := v]) else Inl Out_Of_Bounds)"

definition slot_get :: "'a slot list \<Rightarrow> int \<Rightarrow> 'a option cres" where
  "slot_get xs i =
     (if 0 \<le> i \<and> i < int (length xs)
      then (case xs ! nat i of Indet \<Rightarrow> Inl Uninit_Read | NullP \<Rightarrow> Inr None | Ptr a \<Rightarrow> Inr (Some a))
      else Inl Out_Of_Bounds)"

text \<open>\<open>realloc\<close> to \<open>n\<close> slots keeps the common prefix; new slots are indeterminate.\<close>

definition slots_resize :: "'a slot list \<Rightarrow> nat \<Rightarrow> 'a slot list" where
  "slots_resize xs n = take n xs @ replicate (n - length xs) Indet"

section \<open>Printed numbers\<close>

text \<open>The decimal digits \<open>printf\<close> writes for a number, and the form of a signed one.\<close>

fun decimal :: "nat \<Rightarrow> string" where
  "decimal n = (if n < 10 then [char_of (48 + n)] else decimal (n div 10) @ [char_of (48 + n mod 10)])"

declare decimal.simps [simp del]

definition decimal_int :: "int \<Rightarrow> string" where
  "decimal_int n = (if n < 0 then CHR ''-'' # decimal (nat (- n)) else decimal (nat n))"

section \<open>Proof collections\<close>

named_theorems cres_simps \<open>rewriting of outcomes\<close>
named_theorems int_range \<open>unfolding of the integer ranges\<close>

lemma cbind_Inl [simp, cres_simps]: "cbind (Inl e) f = Inl e"
  by (simp add: cbind_def)

lemma cbind_Inr [simp, cres_simps]: "cbind (Inr x) f = f x"
  by (simp add: cbind_def)

lemma cbind_eq_Inr [cres_simps]:
  "cbind m f = Inr y \<longleftrightarrow> (\<exists>x. m = Inr x \<and> f x = Inr y)"
  by (cases m) auto

lemma cbind_assoc: "cbind (cbind m f) g = cbind m (\<lambda>x. cbind (f x) g)"
  by (cases m) auto

lemma cbind_cong [fundef_cong]:
  "m = m' \<Longrightarrow> (\<And>x. m' = Inr x \<Longrightarrow> f x = g x) \<Longrightarrow> cbind m f = cbind m' g"
  by (cases m') auto

lemma obind_simps [simp, cres_simps]:
  "obind None f = None" "obind (Some (Inl e)) f = Some (Inl e)" "obind (Some (Inr x)) f = f x"
  by (simp_all add: obind_def)

lemma obind_eq_Inr [cres_simps]:
  "obind m f = Some (Inr y) \<longleftrightarrow> (\<exists>x. m = Some (Inr x) \<and> f x = Some (Inr y))"
  by (auto simp: obind_def split: option.splits sum.splits)

lemma is_ok_simps [simp]: "is_ok (Inr x)" "\<not> is_ok (Inl e)"
  by (simp_all add: is_ok_def)

lemma is_ok_iff: "is_ok m \<longleftrightarrow> (\<exists>x. m = Inr x)"
  by (cases m) auto

lemma i32_Inr [simp]: "in_i32 x \<Longrightarrow> i32 x = Inr x"
  by (simp add: i32_def)

lemma i64_Inr [simp]: "in_i64 x \<Longrightarrow> i64 x = Inr x"
  by (simp add: i64_def)

lemma i32_eq_Inr [cres_simps]: "i32 x = Inr y \<longleftrightarrow> y = x \<and> in_i32 x"
  by (auto simp: i32_def)

lemma i64_eq_Inr [cres_simps]: "i64 x = Inr y \<longleftrightarrow> y = x \<and> in_i64 x"
  by (auto simp: i64_def)

lemmas int_range_defs [int_range] =
  in_i32_def in_i64_def INT_MAX_def INT64_MAX_def UINT16_MAX_def UINT32_MAX_def SIZE_MOD_def

lemma c_rem_pos: "0 \<le> a \<Longrightarrow> 0 < b \<Longrightarrow> c_rem a b = Inr (a mod b)"
  by (cases "a = 0") (auto simp: c_rem_def)

lemma sz_small [simp]: "n < SIZE_MOD \<Longrightarrow> sz n = n"
  by (simp add: sz_def)

lemma slot_put_Inr: "0 \<le> i \<Longrightarrow> i < int (length xs) \<Longrightarrow> slot_put xs i v = Inr (xs[nat i := v])"
  by (simp add: slot_put_def)

lemma slot_get_Ptr:
  "\<lbrakk> 0 \<le> i; i < int (length xs); xs ! nat i = Ptr a \<rbrakk> \<Longrightarrow> slot_get xs i = Inr (Some a)"
  by (simp add: slot_get_def)

lemma length_slots_resize [simp]: "length (slots_resize xs n) = n"
  by (simp add: slots_resize_def)

lemma nth_slots_resize:
  "i < n \<Longrightarrow> slots_resize xs n ! i = (if i < length xs then xs ! i else Indet)"
  by (auto simp: slots_resize_def nth_append)

section \<open>Postconditions\<close>

text \<open>
  \<open>post E m Q\<close>: when the computation has a value it satisfies \<open>Q\<close>, and when it goes wrong the
  reason satisfies \<open>E\<close>.
\<close>

definition post :: "(cerror \<Rightarrow> bool) \<Rightarrow> 'a cres \<Rightarrow> ('a \<Rightarrow> bool) \<Rightarrow> bool" where
  "post E m Q = (case m of Inl e \<Rightarrow> E e | Inr x \<Rightarrow> Q x)"

lemma post_simps [simp]: "post E (Inl e) Q = E e" "post E (Inr x) Q = Q x"
  by (simp_all add: post_def)

lemma post_cbind: "post E m R \<Longrightarrow> (\<And>x. R x \<Longrightarrow> post E (f x) Q) \<Longrightarrow> post E (cbind m f) Q"
  by (cases m) auto

lemma post_weaken: "post E m R \<Longrightarrow> (\<And>x. R x \<Longrightarrow> Q x) \<Longrightarrow> post E m Q"
  by (cases m) auto

lemma post_conj: "post E m Q \<Longrightarrow> post (\<lambda>_. True) m R \<Longrightarrow> post E m (\<lambda>x. Q x \<and> R x)"
  by (cases m) auto

lemma post_InrD: "post E m Q \<Longrightarrow> m = Inr x \<Longrightarrow> Q x"
  by simp

text \<open>The same for a computation that may not return.\<close>

definition opost :: "(cerror \<Rightarrow> bool) \<Rightarrow> 'a cres option \<Rightarrow> ('a \<Rightarrow> bool) \<Rightarrow> bool" where
  "opost E m Q = (case m of None \<Rightarrow> True | Some r \<Rightarrow> post E r Q)"

lemma opost_simps [simp]: "opost E None Q" "opost E (Some r) Q = post E r Q"
  by (simp_all add: opost_def)

lemma opost_obind: "opost E m R \<Longrightarrow> (\<And>x. R x \<Longrightarrow> opost E (f x) Q) \<Longrightarrow> opost E (obind m f) Q"
  by (cases m) (auto simp: obind_def split: sum.splits)

lemma opost_obind_eq:
  "opost E m R \<Longrightarrow> (\<And>x. m = Some (Inr x) \<Longrightarrow> R x \<Longrightarrow> opost E (f x) Q) \<Longrightarrow> opost E (obind m f) Q"
  by (cases m) (auto simp: obind_def split: sum.splits)

lemma opost_weaken: "opost E m R \<Longrightarrow> (\<And>x. R x \<Longrightarrow> Q x) \<Longrightarrow> opost E m Q"
  by (cases m) (auto intro: post_weaken)

lemma opost_conj: "opost E m Q \<Longrightarrow> opost (\<lambda>_. True) m R \<Longrightarrow> opost E m (\<lambda>x. Q x \<and> R x)"
  by (cases m) (auto intro: post_conj)

definition not_uaf :: "cerror \<Rightarrow> bool" where
  "not_uaf e \<longleftrightarrow> e \<noteq> Use_After_Free"

lemma not_uaf_simps [simp]:
  "not_uaf Null_Deref" "not_uaf Out_Of_Bounds" "not_uaf Uninit_Read" "not_uaf Signed_Overflow"
  "not_uaf Div_By_Zero" "not_uaf Bad_Conversion" "not_uaf Lua_Panic" "not_uaf Exit_Failure"
  by (simp_all add: not_uaf_def)

lemma post_i32 [simp]: "post not_uaf (i32 x) (\<lambda>y. y = x)"
  by (simp add: i32_def)

lemma post_c_rem: "post not_uaf (c_rem a b) (\<lambda>_. True)"
  by (simp add: c_rem_def)

lemma post_slot_get: "post not_uaf (slot_get xs i) (\<lambda>_. True)"
  by (auto simp: slot_get_def split: slot.splits)

lemma post_slot_put: "post not_uaf (slot_put xs i v) (\<lambda>_. True)"
  by (auto simp: slot_put_def)

section \<open>Lists\<close>

lemma drop_take_window:
  "a + b \<le> n \<Longrightarrow> take b (drop a (take n (drop k xs))) = take b (drop (a + k) xs)"
  by (simp add: drop_take min_def)

section \<open>Runs that keep an invariant\<close>

text \<open>
  Several components are driven by a sequence of inputs: the ring of upstreams by draws, the relay
  by readiness events, the configuration by writes. Each provides a fallible step and an invariant
  every successful step keeps; a whole run then keeps it.
\<close>

primrec run_steps :: "('s \<Rightarrow> 'e \<Rightarrow> 's cres) \<Rightarrow> 's \<Rightarrow> 'e list \<Rightarrow> 's cres" where
  "run_steps step s [] = Inr s"
| "run_steps step s (e # es) = cbind (step s e) (\<lambda>s'. run_steps step s' es)"

primrec all_enabled ::
  "('s \<Rightarrow> 'e \<Rightarrow> 's cres) \<Rightarrow> ('s \<Rightarrow> 'e \<Rightarrow> bool) \<Rightarrow> 's \<Rightarrow> 'e list \<Rightarrow> bool" where
  "all_enabled step enabled s [] = True"
| "all_enabled step enabled s (e # es) =
     (enabled s e \<and>
      (case step s e of Inl _ \<Rightarrow> True | Inr s' \<Rightarrow> all_enabled step enabled s' es))"

locale step_invariant =
  fixes step :: "'s \<Rightarrow> 'e \<Rightarrow> 's cres"
    and inv :: "'s \<Rightarrow> bool"
    and enabled :: "'s \<Rightarrow> 'e \<Rightarrow> bool"
  assumes step_keeps: "\<lbrakk> inv s; enabled s e; step s e = Inr s' \<rbrakk> \<Longrightarrow> inv s'"
begin

lemma run_keeps: "\<lbrakk> inv s; all_enabled step enabled s es; run_steps step s es = Inr t \<rbrakk> \<Longrightarrow> inv t"
proof (induction es arbitrary: s)
  case Nil
  then show ?case by simp
next
  case (Cons e es)
  from Cons.prems(3) obtain s' where s': "step s e = Inr s'" "run_steps step s' es = Inr t"
    by (auto simp: cbind_eq_Inr)
  from Cons.prems s'(1) have "inv s'" "all_enabled step enabled s' es"
    using step_keeps by auto
  then show ?case using s'(2) by (rule Cons.IH)
qed

end

end
