(* ===== verification/Sm3t_Views.thy ===== *)
theory Sm3t_Views
  imports Sm3t_Prelude "HOL-Library.Word" "HOL-Library.Sublist"
begin

text \<open>
  String views (\<open>src/core/sm3t_views.c\<close>, types in \<open>include/sm3t_utils.h\<close>). A view is a pointer into
  a character object and a signed length. A pointer is the object it points into and an offset; a
  read outside the object is an error of the model. Every view operation only reads its argument,
  so the object is carried by value. A parameter of type \<open>sm3t_view_t *\<close> is an option, \<open>None\<close> being
  the null pointer.

  The first part translates the operations; the second relates each of them to the byte string a
  well-formed view denotes (\<open>vbytes\<close>).
\<close>

section \<open>Characters and pointers\<close>

text \<open>The numeric value of a (signed) \<open>char\<close>.\<close>

definition schar :: "char \<Rightarrow> int" where
  "schar c = (let n = of_char c in if n < 128 then n else n - 256)"

definition ascii_tolower :: "char \<Rightarrow> char" where
  "ascii_tolower cc =
     (if schar CHR ''A'' \<le> schar cc \<and> schar cc \<le> schar CHR ''Z''
      then char_of (schar cc + (schar CHR ''a'' - schar CHR ''A'')) else cc)"

definition ascii_isspace :: "char \<Rightarrow> bool" where
  "ascii_isspace cc \<longleftrightarrow> cc = CHR '' '' \<or> cc = CHR 0x09 \<or> cc = CHR 0x0D \<or> cc = CHR 0x0A
     \<or> cc = CHR 0x0B \<or> cc = CHR 0x0C"

datatype cptr = CPtr (blk: "char list") (off: int)

definition ptr_add :: "cptr \<Rightarrow> int \<Rightarrow> cptr" where
  "ptr_add p n = CPtr (blk p) (off p + n)"

definition ptr_at :: "cptr \<Rightarrow> int \<Rightarrow> char cres" where
  "ptr_at p i = (let j = off p + i in
     if 0 \<le> j \<and> j < int (length (blk p)) then Inr (blk p ! nat j) else Inl Out_Of_Bounds)"

text \<open>The \<open>n\<close> bytes from \<open>p\<close>; a negative \<open>n\<close> is a huge \<open>size_t\<close>.\<close>

definition rd_bytes :: "cptr \<Rightarrow> int \<Rightarrow> char list cres" where
  "rd_bytes p n =
     (if 0 \<le> n \<and> 0 \<le> off p \<and> off p + n \<le> int (length (blk p))
      then Inr (take (nat n) (drop (nat (off p)) (blk p))) else Inl Out_Of_Bounds)"

fun memcmp_bytes :: "char list \<Rightarrow> char list \<Rightarrow> int" where
  "memcmp_bytes (x # xs) (y # ys) =
     (if x = y then memcmp_bytes xs ys else of_char x - of_char y)"
| "memcmp_bytes _ _ = 0"

definition memcmp :: "cptr \<Rightarrow> cptr \<Rightarrow> int \<Rightarrow> int cres" where
  "memcmp p q n = cbind (rd_bytes p n) (\<lambda>xs. cbind (rd_bytes q n) (\<lambda>ys. Inr (memcmp_bytes xs ys)))"

definition strlen :: "cptr \<Rightarrow> int cres" where
  "strlen p =
     (if 0 \<le> off p \<and> CHR 0x00 \<in> set (drop (nat (off p)) (blk p))
      then Inr (int (length (takeWhile (\<lambda>c. c \<noteq> CHR 0x00) (drop (nat (off p)) (blk p)))))
      else Inl Out_Of_Bounds)"

section \<open>The operations\<close>

record sm3t_view_t =
  view_data :: "cptr option"
  view_len :: int

definition SM3T_NOT_FOUND :: int where "SM3T_NOT_FOUND = -1"

abbreviation null_view :: sm3t_view_t where
  "null_view \<equiv> \<lparr>view_data = None, view_len = 0\<rparr>"

definition sm3t__view_empty :: "sm3t_view_t option \<Rightarrow> bool" where
  "sm3t__view_empty view =
     (case view of None \<Rightarrow> True | Some v \<Rightarrow> view_data v = None \<or> view_len v = 0)"

definition sm3t__view :: "cptr option \<Rightarrow> int \<Rightarrow> sm3t_view_t" where
  "sm3t__view data len =
     (case data of None \<Rightarrow> null_view | Some p \<Rightarrow> \<lparr>view_data = Some p, view_len = len\<rparr>)"

definition sm3t__view_cstr :: "cptr option \<Rightarrow> sm3t_view_t cres" where
  "sm3t__view_cstr str =
     (case str of None \<Rightarrow> Inr null_view
      | Some p \<Rightarrow> cbind (strlen p) (\<lambda>n. Inr \<lparr>view_data = Some p, view_len = n\<rparr>))"

text \<open>The argument of an operation that first rejects a null view or null data.\<close>

definition view_ptr :: "sm3t_view_t option \<Rightarrow> (cptr \<times> int) option" where
  "view_ptr view =
     (case view of None \<Rightarrow> None
      | Some v \<Rightarrow> (case view_data v of None \<Rightarrow> None | Some p \<Rightarrow> Some (p, view_len v)))"

definition sm3t__view_slice :: "sm3t_view_t option \<Rightarrow> int \<Rightarrow> int \<Rightarrow> sm3t_view_t cres" where
  "sm3t__view_slice view offset len =
     (case view_ptr view of None \<Rightarrow> Inr null_view
      | Some (p, vlen) \<Rightarrow>
          if offset \<ge> vlen then Inr null_view
          else cbind (i64 (vlen - offset)) (\<lambda>rem.
            Inr \<lparr>view_data = Some (ptr_add p offset), view_len = (if len > rem then rem else len)\<rparr>))"

definition sm3t__view_skip :: "sm3t_view_t option \<Rightarrow> int \<Rightarrow> sm3t_view_t cres" where
  "sm3t__view_skip view n =
     (case view_ptr view of None \<Rightarrow> Inr null_view
      | Some (p, vlen) \<Rightarrow>
          if n \<ge> vlen then Inr null_view
          else cbind (i64 (vlen - n)) (\<lambda>rem.
            Inr \<lparr>view_data = Some (ptr_add p n), view_len = rem\<rparr>))"

definition sm3t__view_starts_with :: "sm3t_view_t option \<Rightarrow> sm3t_view_t option \<Rightarrow> bool cres" where
  "sm3t__view_starts_with view pref =
     (case pref of None \<Rightarrow> Inr True
      | Some x \<Rightarrow>
          if view_len x = 0 then Inr True
          else (case view_ptr view of None \<Rightarrow> Inr False
                | Some (p, vlen) \<Rightarrow>
                    if vlen < view_len x then Inr False
                    else (case view_data x of None \<Rightarrow> Inr False
                          | Some q \<Rightarrow> cbind (memcmp p q (view_len x)) (\<lambda>r. Inr (r = 0)))))"

definition sm3t__view_eq :: "sm3t_view_t option \<Rightarrow> sm3t_view_t option \<Rightarrow> bool cres" where
  "sm3t__view_eq viewa viewb =
     (let empty_a = sm3t__view_empty viewa; empty_b = sm3t__view_empty viewb in
      if empty_a \<and> empty_b then Inr True
      else if empty_a \<or> empty_b then Inr False
      else (case (view_ptr viewa, view_ptr viewb) of
              (Some (p, n), Some (q, m)) \<Rightarrow>
                if n \<noteq> m then Inr False else cbind (memcmp p q n) (\<lambda>r. Inr (r = 0))
            | _ \<Rightarrow> Inl Null_Deref))"

definition sm3t__view_ends_with :: "sm3t_view_t option \<Rightarrow> sm3t_view_t option \<Rightarrow> bool cres" where
  "sm3t__view_ends_with view suff =
     (case suff of None \<Rightarrow> Inr True
      | Some x \<Rightarrow>
          if view_len x = 0 then Inr True
          else (case view_ptr view of None \<Rightarrow> Inr False
                | Some (p, vlen) \<Rightarrow>
                    if vlen < view_len x then Inr False
                    else (case view_data x of None \<Rightarrow> Inr False
                          | Some q \<Rightarrow>
                              cbind (i64 (vlen - view_len x)) (\<lambda>offset.
                                cbind (memcmp (ptr_add p offset) q (view_len x)) (\<lambda>r. Inr (r = 0))))))"

function view_find_loop :: "cptr \<Rightarrow> cptr \<Rightarrow> int \<Rightarrow> int \<Rightarrow> int \<Rightarrow> int cres" where
  "view_find_loop p q n search_limit i =
     (if i \<le> search_limit
      then cbind (memcmp (ptr_add p i) q n) (\<lambda>r.
             if r = 0 then Inr i else view_find_loop p q n search_limit (i + 1))
      else Inr SM3T_NOT_FOUND)"
  by pat_completeness auto
termination
  by (relation "measure (\<lambda>(p, q, n, l, i). nat (l + 1 - i))") auto

definition sm3t__view_find :: "sm3t_view_t option \<Rightarrow> sm3t_view_t option \<Rightarrow> int \<Rightarrow> int cres" where
  "sm3t__view_find view dlm start_offset =
     (case (view_ptr view, view_ptr dlm) of
        (Some (p, vlen), Some (q, n)) \<Rightarrow>
          if n = 0 then Inr (if start_offset \<le> vlen then start_offset else SM3T_NOT_FOUND)
          else if start_offset \<ge> vlen then Inr SM3T_NOT_FOUND
          else cbind (i64 (vlen - start_offset)) (\<lambda>room.
            if room < n then Inr SM3T_NOT_FOUND
            else cbind (i64 (vlen - n)) (\<lambda>search_limit.
              view_find_loop p q n search_limit start_offset))
      | _ \<Rightarrow> Inr SM3T_NOT_FOUND)"

function view_find_char_loop :: "cptr \<Rightarrow> int \<Rightarrow> char \<Rightarrow> int \<Rightarrow> int cres" where
  "view_find_char_loop p vlen cc i =
     (if i < vlen
      then cbind (ptr_at p i) (\<lambda>c. if c = cc then Inr i else view_find_char_loop p vlen cc (i + 1))
      else Inr SM3T_NOT_FOUND)"
  by pat_completeness auto
termination
  by (relation "measure (\<lambda>(p, n, cc, i). nat (n - i))") auto

definition sm3t__view_find_char :: "sm3t_view_t option \<Rightarrow> char \<Rightarrow> int \<Rightarrow> int cres" where
  "sm3t__view_find_char view cc start_offset =
     (case view_ptr view of None \<Rightarrow> Inr SM3T_NOT_FOUND
      | Some (p, vlen) \<Rightarrow>
          if start_offset \<ge> vlen then Inr SM3T_NOT_FOUND
          else view_find_char_loop p vlen cc start_offset)"

text \<open>
  The two result parameters are given with their old contents (\<open>None\<close>: a null pointer) and
  returned with the new ones; they are assumed distinct from the split view.
\<close>

definition sm3t__view_split ::
  "sm3t_view_t option \<Rightarrow> char \<Rightarrow> sm3t_view_t option \<Rightarrow> sm3t_view_t option
     \<Rightarrow> (bool \<times> sm3t_view_t option \<times> sm3t_view_t option) cres" where
  "sm3t__view_split view delim left right =
     (case (view, view_ptr view) of
        (Some v, Some (p, vlen)) \<Rightarrow>
          if left = None \<or> right = None then Inr (False, left, right)
          else cbind (sm3t__view_find_char view delim 0) (\<lambda>idx.
            if idx = SM3T_NOT_FOUND then Inr (False, Some v, Some null_view)
            else Inr (True, Some \<lparr>view_data = Some p, view_len = idx\<rparr>,
                   Some (if idx + 1 \<ge> vlen then null_view
                         else \<lparr>view_data = Some (ptr_add p (idx + 1)), view_len = vlen - (idx + 1)\<rparr>)))
      | _ \<Rightarrow> Inr (False, left, right))"

text \<open>
  \<open>while (start < view->len && ascii_isspace(view->data[start++]));\<close>: the increment is done
  whenever the character is read, also for the one that ends the loop.
\<close>

function trim_left_loop :: "cptr \<Rightarrow> int \<Rightarrow> int \<Rightarrow> int cres" where
  "trim_left_loop p vlen start =
     (if start < vlen
      then cbind (ptr_at p start) (\<lambda>c.
             if ascii_isspace c then trim_left_loop p vlen (start + 1) else Inr (start + 1))
      else Inr start)"
  by pat_completeness auto
termination
  by (relation "measure (\<lambda>(p, n, i). nat (n - i))") auto

definition sm3t__view_trim_left :: "sm3t_view_t option \<Rightarrow> sm3t_view_t cres" where
  "sm3t__view_trim_left view =
     (case view_ptr view of None \<Rightarrow> Inr null_view
      | Some (p, vlen) \<Rightarrow> cbind (trim_left_loop p vlen 0) (\<lambda>start.
          Inr (if start \<ge> vlen then null_view
               else \<lparr>view_data = Some (ptr_add p start), view_len = vlen - start\<rparr>)))"

text \<open>\<open>while (end > 0 && ascii_isspace(view->data[--end]));\<close>\<close>

function trim_right_loop :: "cptr \<Rightarrow> int \<Rightarrow> int cres" where
  "trim_right_loop p end' =
     (if end' > 0
      then cbind (ptr_at p (end' - 1)) (\<lambda>c.
             if ascii_isspace c then trim_right_loop p (end' - 1) else Inr (end' - 1))
      else Inr end')"
  by pat_completeness auto
termination
  by (relation "measure (\<lambda>(p, e). nat e)") auto

definition sm3t__view_trim_right :: "sm3t_view_t option \<Rightarrow> sm3t_view_t cres" where
  "sm3t__view_trim_right view =
     (case view_ptr view of None \<Rightarrow> Inr null_view
      | Some (p, vlen) \<Rightarrow>
          if vlen = 0 then Inr null_view
          else cbind (trim_right_loop p vlen) (\<lambda>end'.
            Inr (if end' = 0 then null_view else \<lparr>view_data = Some p, view_len = end'\<rparr>)))"

definition sm3t__view_trim :: "sm3t_view_t option \<Rightarrow> sm3t_view_t cres" where
  "sm3t__view_trim view =
     cbind (sm3t__view_trim_left view) (\<lambda>ltrimmed. sm3t__view_trim_right (Some ltrimmed))"

text \<open>The loop shared by the two case-insensitive comparisons.\<close>

function view_case_loop :: "cptr \<Rightarrow> cptr \<Rightarrow> int \<Rightarrow> int \<Rightarrow> bool cres" where
  "view_case_loop p q n i =
     (if i < n
      then cbind (ptr_at p i) (\<lambda>a. cbind (ptr_at q i) (\<lambda>b.
             if ascii_tolower a \<noteq> ascii_tolower b then Inr False
             else view_case_loop p q n (i + 1)))
      else Inr True)"
  by pat_completeness auto
termination
  by (relation "measure (\<lambda>(p, q, n, i). nat (n - i))") auto

definition sm3t__view_eq_case :: "sm3t_view_t option \<Rightarrow> sm3t_view_t option \<Rightarrow> bool cres" where
  "sm3t__view_eq_case viewa viewb =
     (let empty_a = sm3t__view_empty viewa; empty_b = sm3t__view_empty viewb in
      if empty_a \<and> empty_b then Inr True
      else if empty_a \<or> empty_b then Inr False
      else (case (view_ptr viewa, view_ptr viewb) of
              (Some (p, n), Some (q, m)) \<Rightarrow>
                if n \<noteq> m then Inr False else view_case_loop p q n 0
            | _ \<Rightarrow> Inl Null_Deref))"

definition sm3t__view_starts_with_case ::
  "sm3t_view_t option \<Rightarrow> sm3t_view_t option \<Rightarrow> bool cres" where
  "sm3t__view_starts_with_case view pref =
     (case pref of None \<Rightarrow> Inr True
      | Some x \<Rightarrow>
          if view_len x = 0 then Inr True
          else (case view_ptr view of None \<Rightarrow> Inr False
                | Some (p, vlen) \<Rightarrow>
                    if vlen < view_len x then Inr False
                    else (case view_data x of None \<Rightarrow> Inr False
                          | Some q \<Rightarrow> view_case_loop p q (view_len x) 0)))"

text \<open>
  The accumulator is a \<open>uint64_t\<close>; \<open>None\<close> is the early \<open>return false\<close>. The result parameter is
  given with its old contents (\<open>None\<close>: a null pointer).
\<close>

function to_u32_loop :: "cptr \<Rightarrow> int \<Rightarrow> int \<Rightarrow> 64 word \<Rightarrow> 64 word option cres" where
  "to_u32_loop p n i val =
     (if i < n
      then cbind (ptr_at p i) (\<lambda>cc.
             if schar cc < schar CHR ''0'' \<or> schar cc > schar CHR ''9'' then Inr None
             else let val' = val * 10 + word_of_int (schar cc - schar CHR ''0'') in
               if val' > of_nat UINT32_MAX then Inr None else to_u32_loop p n (i + 1) val')
      else Inr (Some val))"
  by pat_completeness auto
termination
  by (relation "measure (\<lambda>(p, n, i, v). nat (n - i))") auto

definition sm3t__view_to_u32 ::
  "sm3t_view_t option \<Rightarrow> 32 word option \<Rightarrow> (bool \<times> 32 word option) cres" where
  "sm3t__view_to_u32 view out =
     (case view_ptr view of None \<Rightarrow> Inr (False, out)
      | Some (p, n) \<Rightarrow>
          if n = 0 \<or> out = None then Inr (False, out)
          else cbind (to_u32_loop p n 0 0) (\<lambda>r.
            Inr (case r of None \<Rightarrow> (False, out) | Some val \<Rightarrow> (True, Some (ucast val)))))"

text \<open>\<open>alloc\<close>: whether \<open>malloc\<close> succeeds. The result is a pointer to the new object.\<close>

definition sm3t__view_to_cstr :: "bool \<Rightarrow> sm3t_view_t option \<Rightarrow> cptr option cres" where
  "sm3t__view_to_cstr alloc view =
     (case view_ptr view of None \<Rightarrow> Inr None
      | Some (p, n) \<Rightarrow>
          if n = 0 then Inr None
          else cbind (i64 (n + 1)) (\<lambda>_.
            if \<not> alloc then Inl Exit_Failure
            else cbind (rd_bytes p n) (\<lambda>bs. Inr (Some (CPtr (bs @ [CHR 0x00]) 0)))))"

declare view_find_loop.simps [simp del] view_find_char_loop.simps [simp del]
  trim_left_loop.simps [simp del] trim_right_loop.simps [simp del]
  view_case_loop.simps [simp del] to_u32_loop.simps [simp del]

section \<open>What a view denotes\<close>

text \<open>The window of a pointer, the bytes of a view, and when both lie inside their object.\<close>

definition window :: "cptr \<Rightarrow> int \<Rightarrow> char list" where
  "window p n = take (nat n) (drop (nat (off p)) (blk p))"

definition wf_window :: "cptr \<Rightarrow> int \<Rightarrow> bool" where
  "wf_window p n \<longleftrightarrow> 0 \<le> off p \<and> 0 \<le> n \<and> off p + n \<le> int (length (blk p))
     \<and> int (length (blk p)) < INT64_MAX"

definition vbytes :: "sm3t_view_t \<Rightarrow> char list" where
  "vbytes v = (case view_data v of None \<Rightarrow> [] | Some p \<Rightarrow> window p (view_len v))"

definition wf_view :: "sm3t_view_t \<Rightarrow> bool" where
  "wf_view v \<longleftrightarrow> (case view_data v of None \<Rightarrow> view_len v = 0 | Some p \<Rightarrow> wf_window p (view_len v))"

text \<open>Where a needle occurs in a byte string.\<close>

definition occurs_at :: "char list \<Rightarrow> char list \<Rightarrow> nat \<Rightarrow> bool" where
  "occurs_at hay needle i \<longleftrightarrow>
     i + length needle \<le> length hay \<and> take (length needle) (drop i hay) = needle"

text \<open>The decimal value of a digit string.\<close>

definition is_digit :: "char \<Rightarrow> bool" where
  "is_digit c \<longleftrightarrow> schar CHR ''0'' \<le> schar c \<and> schar c \<le> schar CHR ''9''"

definition digit_val :: "char \<Rightarrow> nat" where
  "digit_val c = nat (schar c - schar CHR ''0'')"

definition dec_val :: "char list \<Rightarrow> nat" where
  "dec_val cs = foldl (\<lambda>acc c. acc * 10 + digit_val c) 0 cs"

subsection \<open>Reading a window\<close>

lemma length_window: "wf_window p n \<Longrightarrow> length (window p n) = nat n"
  by (auto simp: window_def wf_window_def)

lemma ptr_at_window:
  "\<lbrakk> wf_window p n; 0 \<le> i; i < n \<rbrakk> \<Longrightarrow> ptr_at p i = Inr (window p n ! nat i)"
  by (auto simp: ptr_at_def window_def wf_window_def nat_add_distrib)

lemma rd_bytes_window: "wf_window p n \<Longrightarrow> rd_bytes p n = Inr (window p n)"
  by (auto simp: rd_bytes_def window_def wf_window_def)

lemma wf_window_sub:
  "\<lbrakk> wf_window p n; 0 \<le> i; 0 \<le> m; i + m \<le> n \<rbrakk> \<Longrightarrow> wf_window (ptr_add p i) m"
  by (auto simp: wf_window_def ptr_add_def)

lemma window_sub:
  assumes "wf_window p n" and "0 \<le> i" and "0 \<le> m" and "i + m \<le> n"
  shows "window (ptr_add p i) m = take (nat m) (drop (nat i) (window p n))"
proof -
  have "nat i + nat m \<le> nat n" using assms by linarith
  moreover have "nat (off p + i) = nat i + nat (off p)"
    using assms by (simp add: wf_window_def nat_add_distrib)
  ultimately show ?thesis
    using assms by (simp add: window_def ptr_add_def drop_take_window)
qed

lemma window_prefix:
  "\<lbrakk> wf_window p n; 0 \<le> m; m \<le> n \<rbrakk> \<Longrightarrow> window p m = take (nat m) (window p n)"
  by (simp add: window_def min_def)

lemma wf_window_prefix: "\<lbrakk> wf_window p n; 0 \<le> m; m \<le> n \<rbrakk> \<Longrightarrow> wf_window p m"
  by (auto simp: wf_window_def)

lemma memcmp_bytes_eq: "length xs = length ys \<Longrightarrow> memcmp_bytes xs ys = 0 \<longleftrightarrow> xs = ys"
  by (induction xs ys rule: list_induct2) auto

lemma memcmp_window:
  assumes "wf_window p n" and "wf_window q n"
  shows "\<exists>r. memcmp p q n = Inr r \<and> (r = 0 \<longleftrightarrow> window p n = window q n)"
  using assms by (auto simp: memcmp_def rd_bytes_window memcmp_bytes_eq length_window)

lemma memcmp_window_test:
  assumes "wf_window p n" and "wf_window q n"
  shows "cbind (memcmp p q n) (\<lambda>r. Inr (r = 0)) = Inr (window p n = window q n)"
  using memcmp_window [OF assms] by auto

lemma i64_in_window:
  "\<lbrakk> wf_window p n; 0 \<le> i; i \<le> n \<rbrakk> \<Longrightarrow> i64 (n - i) = Inr (n - i)"
  by (auto simp: i64_def wf_window_def int_range)

lemma view_ptr_Some [simp]: "view_data v = Some p \<Longrightarrow> view_ptr (Some v) = Some (p, view_len v)"
  by (simp add: view_ptr_def)

lemma view_ptr_None [simp]: "view_data v = None \<Longrightarrow> view_ptr (Some v) = None"
  by (simp add: view_ptr_def)

lemma wf_viewD: "\<lbrakk> wf_view v; view_data v = Some p \<rbrakk> \<Longrightarrow> wf_window p (view_len v)"
  by (simp add: wf_view_def)

lemma vbytes_Some: "view_data v = Some p \<Longrightarrow> vbytes v = window p (view_len v)"
  by (simp add: vbytes_def)

lemma vbytes_None [simp]: "view_data v = None \<Longrightarrow> vbytes v = []"
  by (simp add: vbytes_def)

text \<open>Evaluation of a view given by its bytes.\<close>

lemmas concrete_view = wf_view_def wf_window_def vbytes_def window_def INT64_MAX_def numeral_eq_Suc

lemma vbytes_null [simp]: "vbytes null_view = []" "wf_view null_view"
  by (simp_all add: vbytes_def wf_view_def)

lemma length_vbytes: "wf_view v \<Longrightarrow> int (length (vbytes v)) = view_len v"
  by (auto simp: wf_view_def vbytes_def length_window wf_window_def split: option.splits)

lemma view_empty_iff: "wf_view v \<Longrightarrow> sm3t__view_empty (Some v) \<longleftrightarrow> vbytes v = []"
  using length_vbytes [of v] by (auto simp: sm3t__view_empty_def)

lemma wf_view_window: "wf_window p n \<Longrightarrow> wf_view \<lparr>view_data = Some p, view_len = n\<rparr>"
  by (simp add: wf_view_def)

lemma vbytes_window: "vbytes \<lparr>view_data = Some p, view_len = n\<rparr> = window p n"
  by (simp add: vbytes_def)

subsection \<open>Slices and comparisons\<close>

lemma view_slice_bytes:
  assumes "wf_view v" and "0 \<le> offset" and "0 \<le> len"
  shows "\<exists>w. sm3t__view_slice (Some v) offset len = Inr w \<and> wf_view w
           \<and> vbytes w = take (nat len) (drop (nat offset) (vbytes v))"
proof (cases "view_data v")
  case None
  then show ?thesis by (auto simp: sm3t__view_slice_def)
next
  case (Some p)
  have wf: "wf_window p (view_len v)" using assms(1) Some by (rule wf_viewD)
  show ?thesis
  proof (cases "offset \<ge> view_len v")
    case True
    have "nat (view_len v) \<le> nat offset" using True by simp
    with True Some show ?thesis
      by (auto simp: sm3t__view_slice_def vbytes_Some length_window [OF wf])
  next
    case False
    define m where "m = (if len > view_len v - offset then view_len v - offset else len)"
    have m: "0 \<le> m" "offset + m \<le> view_len v" using False assms by (auto simp: m_def)
    have len: "take (nat m) (drop (nat offset) (window p (view_len v)))
      = take (nat len) (drop (nat offset) (window p (view_len v)))"
      using False assms length_window [OF wf] by (auto simp: m_def)
    have "sm3t__view_slice (Some v) offset len
      = Inr \<lparr>view_data = Some (ptr_add p offset), view_len = m\<rparr>"
      using False Some i64_in_window [OF wf, of offset] assms by (simp add: sm3t__view_slice_def m_def)
    then show ?thesis
      using wf_window_sub [OF wf assms(2) m] window_sub [OF wf assms(2) m] len Some
      by (simp add: wf_view_window vbytes_window vbytes_Some)
  qed
qed

lemma view_skip_is_slice:
  assumes "wf_view v" and "0 \<le> n"
  shows "sm3t__view_skip (Some v) n = sm3t__view_slice (Some v) n (view_len v)"
  using assms
  by (cases "view_data v")
     (auto simp: sm3t__view_skip_def sm3t__view_slice_def i64_in_window dest: wf_viewD)

lemma view_skip_bytes:
  assumes "wf_view v" and "0 \<le> n"
  shows "\<exists>w. sm3t__view_skip (Some v) n = Inr w \<and> wf_view w \<and> vbytes w = drop (nat n) (vbytes v)"
proof -
  have "0 \<le> view_len v" using length_vbytes [OF assms(1)] by linarith
  from view_slice_bytes [OF assms this] obtain w
    where w: "sm3t__view_slice (Some v) n (view_len v) = Inr w" "wf_view w"
      "vbytes w = take (nat (view_len v)) (drop (nat n) (vbytes v))" by blast
  have "length (vbytes v) = nat (view_len v)" using length_vbytes [OF assms(1)] by linarith
  then have "vbytes w = drop (nat n) (vbytes v)" using w(3) by simp
  with w view_skip_is_slice [OF assms] show ?thesis by simp
qed

text \<open>
  Cutting a well-formed view never reads or points outside it: a slice holds the asked-for bytes
  that are there, and skipping leaves the rest.
\<close>

lemma view_cut_bytes:
  assumes "wf_view v" and "0 \<le> offset" and "0 \<le> len"
  shows "(\<exists>w. sm3t__view_slice (Some v) offset len = Inr w \<and> wf_view w
            \<and> vbytes w = take (nat len) (drop (nat offset) (vbytes v)))
       \<and> (\<exists>w. sm3t__view_skip (Some v) offset = Inr w \<and> wf_view w \<and> vbytes w = drop (nat offset) (vbytes v))"
  using view_slice_bytes [OF assms] view_skip_bytes [OF assms(1,2)] by blast

lemma prefix_take: "prefix xs ys \<longleftrightarrow> length xs \<le> length ys \<and> take (length xs) ys = xs"
  by (metis append_eq_conv_conj prefix_def prefix_length_le take_is_prefix)

lemma suffix_iff_drop:
  "suffix xs ys \<longleftrightarrow> length xs \<le> length ys \<and> drop (length ys - length xs) ys = xs"
proof
  assume "suffix xs ys"
  then show "length xs \<le> length ys \<and> drop (length ys - length xs) ys = xs"
    by (auto simp: suffix_def)
next
  assume "length xs \<le> length ys \<and> drop (length ys - length xs) ys = xs"
  then show "suffix xs ys" by (metis suffix_drop)
qed

text \<open>Shared by the prefix and suffix tests: a comparison at an offset inside a view.\<close>

lemma memcmp_at_offset:
  assumes "wf_view v" "view_data v = Some p" "wf_view x" "view_data x = Some q"
    and "0 \<le> i" "i + view_len x \<le> view_len v"
  shows "cbind (memcmp (ptr_add p i) q (view_len x)) (\<lambda>r. Inr (r = 0))
       = Inr (take (length (vbytes x)) (drop (nat i) (vbytes v)) = vbytes x)"
proof -
  have wv: "wf_window p (view_len v)" and wx: "wf_window q (view_len x)"
    using assms by (auto dest: wf_viewD)
  have x: "0 \<le> view_len x" using wx by (simp add: wf_window_def)
  have "length (vbytes x) = nat (view_len x)" using length_vbytes [OF assms(3)] by linarith
  then show ?thesis
    using memcmp_window_test [OF wf_window_sub [OF wv assms(5) x assms(6)] wx]
      window_sub [OF wv assms(5) x assms(6)] assms by (simp add: vbytes_Some)
qed

lemma ptr_add_0 [simp]: "ptr_add p 0 = p"
  by (simp add: ptr_add_def)

text \<open>
  The prefix test on well-formed views never fails and decides whether the bytes of the second view
  are a prefix of the bytes of the first.
\<close>

lemma view_starts_with_bytes:
  assumes "wf_view v" and "wf_view x"
  shows "sm3t__view_starts_with (Some v) (Some x) = Inr (prefix (vbytes x) (vbytes v))"
proof (cases "view_data v = None \<or> view_data x = None \<or> view_len x = 0 \<or> view_len v < view_len x")
  case True
  then show ?thesis
    using length_vbytes [OF assms(1)] length_vbytes [OF assms(2)] prefix_length_le [of "vbytes x" "vbytes v"]
    by (auto simp: sm3t__view_starts_with_def view_ptr_def wf_view_def split: option.splits)
next
  case False
  then obtain p q where pq: "view_data v = Some p" "view_data x = Some q" by auto
  have "length (vbytes x) \<le> length (vbytes v)"
    using length_vbytes [OF assms(1)] length_vbytes [OF assms(2)] False by linarith
  with False pq show ?thesis
    using memcmp_at_offset [OF assms(1) pq(1) assms(2) pq(2), of 0]
    by (simp add: sm3t__view_starts_with_def prefix_take)
qed

text \<open>
  The suffix test on well-formed views never fails and decides whether the bytes of the second view
  are a suffix of the bytes of the first.
\<close>

lemma view_ends_with_bytes:
  assumes "wf_view v" and "wf_view x"
  shows "sm3t__view_ends_with (Some v) (Some x) = Inr (suffix (vbytes x) (vbytes v))"
proof (cases "view_data v = None \<or> view_data x = None \<or> view_len x = 0 \<or> view_len v < view_len x")
  case True
  then show ?thesis
    using length_vbytes [OF assms(1)] length_vbytes [OF assms(2)] suffix_length_le [of "vbytes x" "vbytes v"]
    by (auto simp: sm3t__view_ends_with_def view_ptr_def wf_view_def split: option.splits)
next
  case False
  then obtain p q where pq: "view_data v = Some p" "view_data x = Some q" by auto
  have lens: "length (vbytes x) \<le> length (vbytes v)"
    "nat (view_len v - view_len x) = length (vbytes v) - length (vbytes x)"
    using length_vbytes [OF assms(1)] length_vbytes [OF assms(2)] False by linarith+
  have x: "0 \<le> view_len x" using length_vbytes [OF assms(2)] by linarith
  have all: "take (length (vbytes x)) (drop (length (vbytes v) - length (vbytes x)) (vbytes v))
    = drop (length (vbytes v) - length (vbytes x)) (vbytes v)" using lens by simp
  from False pq x show ?thesis
    using memcmp_at_offset [OF assms(1) pq(1) assms(2) pq(2), of "view_len v - view_len x"]
      i64_in_window [OF wf_viewD [OF assms(1) pq(1)], of "view_len x"] lens
    by (simp add: sm3t__view_ends_with_def suffix_iff_drop all)
qed

text \<open>
  Equality of well-formed views never fails and compares their bytes, wherever they are stored.
\<close>

lemma view_eq_bytes:
  assumes "wf_view v" and "wf_view x"
  shows "sm3t__view_eq (Some v) (Some x) = Inr (vbytes v = vbytes x)"
proof (cases "vbytes v = [] \<or> vbytes x = []")
  case True
  then show ?thesis using assms by (auto simp: sm3t__view_eq_def view_empty_iff Let_def)
next
  case False
  then obtain p q where pq: "view_data v = Some p" "view_data x = Some q"
    by (auto simp: vbytes_def split: option.splits)
  have ne: "view_len v \<noteq> view_len x \<Longrightarrow> vbytes v \<noteq> vbytes x"
    using length_vbytes [OF assms(1)] length_vbytes [OF assms(2)] by auto
  have "wf_window p (view_len v)" and "wf_window q (view_len x)"
    using assms pq by (auto dest: wf_viewD)
  then show ?thesis
    using False assms pq ne memcmp_window_test [of p "view_len v" q]
    by (auto simp: sm3t__view_eq_def view_empty_iff Let_def vbytes_Some)
qed

subsection \<open>Searching\<close>

text \<open>The index loops all look for the first index from \<open>i\<close> on with some property.\<close>

definition first_from :: "(nat \<Rightarrow> bool) \<Rightarrow> int \<Rightarrow> int \<Rightarrow> bool" where
  "first_from P i r \<longleftrightarrow>
     (if \<exists>k. i \<le> int k \<and> P k
      then i \<le> r \<and> P (nat r) \<and> (\<forall>k. i \<le> int k \<and> int k < r \<longrightarrow> \<not> P k)
      else r = SM3T_NOT_FOUND)"

lemma first_from_here: "0 \<le> i \<Longrightarrow> P (nat i) \<Longrightarrow> first_from P i i"
  by (auto simp: first_from_def)

lemma first_from_none: "(\<And>k. i \<le> int k \<Longrightarrow> \<not> P k) \<Longrightarrow> first_from P i SM3T_NOT_FOUND"
  by (auto simp: first_from_def)

lemma first_from_found:
  assumes "first_from P i r" and "i \<le> int k" and "P k"
  shows "i \<le> r" and "P (nat r)" and "\<And>j. i \<le> int j \<Longrightarrow> int j < r \<Longrightarrow> \<not> P j"
proof -
  have ex: "\<exists>k. i \<le> int k \<and> P k" using assms(2,3) by blast
  from assms(1) have *: "i \<le> r \<and> P (nat r) \<and> (\<forall>k. i \<le> int k \<and> int k < r \<longrightarrow> \<not> P k)"
    unfolding first_from_def if_P [OF ex] .
  from * show "i \<le> r" "P (nat r)" by blast+
  from * show "\<And>j. i \<le> int j \<Longrightarrow> int j < r \<Longrightarrow> \<not> P j" by blast
qed

lemma first_from_not_found:
  assumes "first_from P i r" and "\<And>k. i \<le> int k \<Longrightarrow> \<not> P k"
  shows "r = SM3T_NOT_FOUND"
  using assms by (auto simp: first_from_def split: if_splits)

lemma first_from_step:
  assumes "0 \<le> i" and "\<not> P (nat i)" and "first_from P (i + 1) r"
  shows "first_from P i r"
proof -
  have *: "i + 1 \<le> int k" if "i \<le> int k" "P k" for k
    using assms(2) that by (cases "int k = i") auto
  show ?thesis
  proof (cases "\<exists>k. i \<le> int k \<and> P k")
    case True
    then obtain k where k: "i + 1 \<le> int k" "P k" using * by blast
    note f = first_from_found [OF assms(3) k]
    have "\<not> P j" if "i \<le> int j" "int j < r" for j
      using that * [of j] f(3) [of j] by blast
    with f(1,2) True show ?thesis by (simp add: first_from_def)
  next
    case False
    then have "r = SM3T_NOT_FOUND" using first_from_not_found [OF assms(3)] by force
    then show ?thesis unfolding first_from_def if_not_P [OF False] .
  qed
qed

lemma occurs_at_window:
  assumes "wf_window p vlen" and "wf_window q n" and "0 \<le> i"
  shows "occurs_at (window p vlen) (window q n) (nat i) \<longleftrightarrow>
           i + n \<le> vlen \<and> take (nat n) (drop (nat i) (window p vlen)) = window q n"
proof -
  have "nat i + nat n \<le> nat vlen \<longleftrightarrow> i + n \<le> vlen"
    using assms by (auto simp: wf_window_def)
  then show ?thesis by (simp add: occurs_at_def length_window assms)
qed

lemma view_find_loop_first:
  assumes v: "wf_window p vlen" and x: "wf_window q n" and n: "0 < n" and i: "0 \<le> i"
  shows "\<exists>r. view_find_loop p q n (vlen - n) i = Inr r
           \<and> first_from (occurs_at (window p vlen) (window q n)) i r"
  using i
proof (induction "nat (vlen - n + 1 - i)" arbitrary: i rule: less_induct)
  case less
  let ?P = "occurs_at (window p vlen) (window q n)"
  show ?case
  proof (cases "i \<le> vlen - n")
    case False
    have "\<not> ?P k" if "i \<le> int k" for k
      using occurs_at_window [OF v x, of "int k"] that False by auto
    then show ?thesis
      using False by (simp add: view_find_loop.simps [of p q n "vlen - n" i] first_from_none)
  next
    case True
    have sub: "wf_window (ptr_add p i) n" using wf_window_sub [OF v less.prems] True n by simp
    obtain r where r: "memcmp (ptr_add p i) q n = Inr r"
        "r = 0 \<longleftrightarrow> window (ptr_add p i) n = window q n"
      using memcmp_window [OF sub x] by blast
    have P: "?P (nat i) \<longleftrightarrow> r = 0"
      using occurs_at_window [OF v x less.prems] True r(2) window_sub [OF v less.prems] n by simp
    show ?thesis
    proof (cases "r = 0")
      case True
      with \<open>i \<le> vlen - n\<close> r(1) P less.prems show ?thesis
        by (simp add: view_find_loop.simps [of p q n "vlen - n" i] first_from_here)
    next
      case False
      have "\<exists>s. view_find_loop p q n (vlen - n) (i + 1) = Inr s \<and> first_from ?P (i + 1) s"
        using less.hyps [of "i + 1"] less.prems True by simp
      with \<open>i \<le> vlen - n\<close> r(1) P False less.prems show ?thesis
        by (auto simp: view_find_loop.simps [of p q n "vlen - n" i] intro: first_from_step)
    qed
  qed
qed

text \<open>
  C35. A search from a non-negative offset returns the first position at or after it at which the needle
  occurs, and the not-found value exactly when there is none.
\<close>

theorem view_find_first:
  assumes "wf_view v" "view_data v = Some p" "wf_view x" "view_data x = Some q"
    and "0 \<le> start"
  shows "\<exists>r. sm3t__view_find (Some v) (Some x) start = Inr r
           \<and> first_from (occurs_at (vbytes v) (vbytes x)) start r"
proof -
  have wv: "wf_window p (view_len v)" and wx: "wf_window q (view_len x)"
    using assms by (auto dest: wf_viewD)
  let ?P = "occurs_at (window p (view_len v)) (window q (view_len x))"
  have P: "?P (nat k) \<longleftrightarrow> k + view_len x \<le> view_len v \<and>
      take (nat (view_len x)) (drop (nat k) (window p (view_len v))) = window q (view_len x)"
    if "0 \<le> k" for k
    by (rule occurs_at_window [OF wv wx that])
  have P0: "?P k \<longleftrightarrow> int k \<le> view_len v" if "view_len x = 0" for k
    using P [of "int k"] that length_window [OF wx] by auto
  have len: "0 \<le> view_len x" using wx by (simp add: wf_window_def)
  have none: "first_from ?P start SM3T_NOT_FOUND"
    if "view_len v < start + view_len x"
  proof (rule first_from_none)
    fix k assume "start \<le> int k"
    then show "\<not> ?P k" using that P [of "int k"] by auto
  qed
  consider (zero) "view_len x = 0" | (far) "view_len x \<noteq> 0" "view_len v < start + view_len x"
    | (loop) "view_len x \<noteq> 0" "start + view_len x \<le> view_len v" by linarith
  then show ?thesis
  proof cases
    case zero
    have "first_from ?P start (if start \<le> view_len v then start else SM3T_NOT_FOUND)"
      using P0 [OF zero] none zero assms(5) by (auto intro: first_from_here)
    then show ?thesis
      using assms zero by (simp add: sm3t__view_find_def vbytes_Some)
  next
    case far
    then show ?thesis
      using assms none len i64_in_window [OF wv assms(5)]
      by (auto simp: sm3t__view_find_def vbytes_Some)
  next
    case loop
    with len have "0 < view_len x" by simp
    from view_find_loop_first [OF wv wx this assms(5)] loop show ?thesis
      using assms len i64_in_window [OF wv assms(5)] i64_in_window [OF wv len]
      by (auto simp: sm3t__view_find_def vbytes_Some)
  qed
qed

theorem view_find_first_witness:
  "\<exists>r. sm3t__view_find (Some \<lparr>view_data = Some (CPtr ''a, b'' 0), view_len = 4\<rparr>) (Some \<lparr>view_data = Some (CPtr '', '' 0), view_len = 2\<rparr>) 0 = Inr r
     \<and> first_from (occurs_at ''a, b'' '', '') 0 r"
  using view_find_first [of "\<lparr>view_data = Some (CPtr ''a, b'' 0), view_len = 4\<rparr>" "CPtr ''a, b'' 0" "\<lparr>view_data = Some (CPtr '', '' 0), view_len = 2\<rparr>" "CPtr '', '' 0" 0]
  by (simp add: concrete_view)

lemma view_find_char_loop_first:
  assumes v: "wf_window p vlen" and i: "0 \<le> i"
  shows "\<exists>r. view_find_char_loop p vlen cc i = Inr r
           \<and> first_from (\<lambda>k. k < length (window p vlen) \<and> window p vlen ! k = cc) i r"
  using i
proof (induction "nat (vlen - i)" arbitrary: i rule: less_induct)
  case less
  let ?P = "\<lambda>k. k < length (window p vlen) \<and> window p vlen ! k = cc"
  show ?case
  proof (cases "i < vlen")
    case False
    then show ?thesis
      by (auto simp: view_find_char_loop.simps [of p vlen cc i] length_window [OF v]
          intro!: first_from_none)
  next
    case True
    have at: "ptr_at p i = Inr (window p vlen ! nat i)"
      using ptr_at_window [OF v less.prems True] .
    have P: "?P (nat i) \<longleftrightarrow> window p vlen ! nat i = cc"
      using True less.prems by (simp add: length_window [OF v])
    show ?thesis
    proof (cases "window p vlen ! nat i = cc")
      case True
      with \<open>i < vlen\<close> at P less.prems show ?thesis
        by (simp add: view_find_char_loop.simps [of p vlen cc i] first_from_here [where P = ?P])
    next
      case False
      have "\<exists>s. view_find_char_loop p vlen cc (i + 1) = Inr s \<and> first_from ?P (i + 1) s"
        using less.hyps [of "i + 1"] less.prems True by simp
      with True at P False less.prems show ?thesis
        by (auto simp: view_find_char_loop.simps [of p vlen cc i] intro: first_from_step [where P = ?P])
    qed
  qed
qed

lemma view_find_char_first:
  assumes "wf_view v" and "0 \<le> start"
  shows "\<exists>r. sm3t__view_find_char (Some v) cc start = Inr r
           \<and> first_from (\<lambda>k. k < length (vbytes v) \<and> vbytes v ! k = cc) start r"
proof (cases "view_data v")
  case None
  then show ?thesis by (auto simp: sm3t__view_find_char_def intro!: first_from_none)
next
  case (Some p)
  have wv: "wf_window p (view_len v)" using assms(1) Some by (rule wf_viewD)
  show ?thesis
  proof (cases "start \<ge> view_len v")
    case True
    with Some show ?thesis
      by (auto simp: sm3t__view_find_char_def vbytes_Some length_window [OF wv] intro!: first_from_none)
  next
    case False
    with Some view_find_char_loop_first [OF wv assms(2)] show ?thesis
      by (auto simp: sm3t__view_find_char_def vbytes_Some)
  qed
qed

text \<open>The two parts around the first delimiter.\<close>

lemma split_parts:
  assumes wf: "wf_view v" and data: "view_data v = Some p" and i: "0 \<le> idx" "idx < view_len v"
  shows "vbytes \<lparr>view_data = Some p, view_len = idx\<rparr> = take (nat idx) (vbytes v)"
    and "wf_view \<lparr>view_data = Some p, view_len = idx\<rparr>"
    and "vbytes (if idx + 1 \<ge> view_len v then null_view
           else \<lparr>view_data = Some (ptr_add p (idx + 1)), view_len = view_len v - (idx + 1)\<rparr>) = drop (Suc (nat idx)) (vbytes v)"
    and "wf_view (if idx + 1 \<ge> view_len v then null_view
           else \<lparr>view_data = Some (ptr_add p (idx + 1)), view_len = view_len v - (idx + 1)\<rparr>)"
proof -
  have wv: "wf_window p (view_len v)" using wf data by (rule wf_viewD)
  have len: "length (vbytes v) = nat (view_len v)" using length_vbytes [OF wf] by linarith
  show "vbytes \<lparr>view_data = Some p, view_len = idx\<rparr> = take (nat idx) (vbytes v)"
      "wf_view \<lparr>view_data = Some p, view_len = idx\<rparr>"
    using window_prefix [OF wv i(1)] wf_window_prefix [OF wv i(1)] i(2) data
    by (simp_all add: vbytes_Some wf_view_window)
  have "vbytes v = [] \<or> length (vbytes v) \<le> Suc (nat idx)" if "idx + 1 \<ge> view_len v" using that len i(1) by linarith
  moreover have ge: "0 \<le> idx + 1" "0 \<le> view_len v - (idx + 1)" "idx + 1 + (view_len v - (idx + 1)) \<le> view_len v"
    if "\<not> idx + 1 \<ge> view_len v" using that i(1) by simp_all
  moreover have "nat (idx + 1) = Suc (nat idx)" using i(1) by simp
  ultimately show "vbytes (if idx + 1 \<ge> view_len v then null_view
           else \<lparr>view_data = Some (ptr_add p (idx + 1)), view_len = view_len v - (idx + 1)\<rparr>) = drop (Suc (nat idx)) (vbytes v)"
      "wf_view (if idx + 1 \<ge> view_len v then null_view
           else \<lparr>view_data = Some (ptr_add p (idx + 1)), view_len = view_len v - (idx + 1)\<rparr>)"
    using window_sub [OF wv ge] wf_window_sub [OF wv ge] data len i(1)
    by (auto simp: vbytes_Some wf_view_window)
qed

text \<open>
  C36. Splitting a view with data at a delimiter gives two well-formed views; the call reports whether
  the delimiter occurs, the left view has none of it, and the delimiter between the two views gives
  back the bytes of the original.
\<close>

theorem view_split_bytes:
  assumes wf: "wf_view v" and data: "view_data v = Some p" and lr: "l \<noteq> None" "r \<noteq> None"
  shows "\<exists>b l' r'. sm3t__view_split (Some v) delim l r = Inr (b, Some l', Some r')
           \<and> wf_view l' \<and> wf_view r' \<and> delim \<notin> set (vbytes l') \<and> (b \<longleftrightarrow> delim \<in> set (vbytes v))
           \<and> vbytes v = (if b then vbytes l' @ delim # vbytes r' else vbytes l')"
proof -
  let ?P = "\<lambda>k. k < length (vbytes v) \<and> vbytes v ! k = delim"
  have len: "length (vbytes v) = nat (view_len v)" using length_vbytes [OF wf] by linarith
  obtain idx where idx: "sm3t__view_find_char (Some v) delim 0 = Inr idx" "first_from ?P 0 idx"
    using view_find_char_first [OF wf, of 0 delim] by auto
  show ?thesis
  proof (cases "delim \<in> set (vbytes v)")
    case False
    then have "\<not> ?P k" for k using nth_mem by blast
    then have "idx = SM3T_NOT_FOUND" using first_from_not_found [OF idx(2)] by blast
    with False idx data lr wf show ?thesis by (auto simp: sm3t__view_split_def)
  next
    case True
    then obtain k where k: "?P k" by (auto simp: in_set_conv_nth)
    note f = first_from_found [OF idx(2) _ k, simplified]
    have i: "0 \<le> idx" "?P (nat idx)" using f(1,2) by simp_all
    have least: "\<not> ?P k" if "k < nat idx" for k
      using first_from_found(3) [OF idx(2) _ k, of k] that by simp
    have i': "idx < view_len v" using i(1,2) len by linarith
    note parts = split_parts [OF wf data i(1) i']
    have "delim \<notin> set (take (nat idx) (vbytes v))"
      using i(2) least by (auto simp: in_set_conv_nth)
    moreover have "vbytes v = take (nat idx) (vbytes v) @ delim # drop (Suc (nat idx)) (vbytes v)"
      using i(2) by (metis id_take_nth_drop)
    moreover have "sm3t__view_split (Some v) delim l r = Inr (True, Some \<lparr>view_data = Some p, view_len = idx\<rparr>,
        Some (if idx + 1 \<ge> view_len v then null_view
              else \<lparr>view_data = Some (ptr_add p (idx + 1)), view_len = view_len v - (idx + 1)\<rparr>))"
      using idx(1) i(1) data lr by (simp add: sm3t__view_split_def SM3T_NOT_FOUND_def)
    ultimately show ?thesis using parts True by (intro exI conjI) (assumption | simp)+
  qed
qed

theorem view_split_bytes_witness:
  "\<exists>b l' r'. sm3t__view_split (Some \<lparr>view_data = Some (CPtr ''k=v'' 0), view_len = 3\<rparr>) CHR ''='' (Some null_view) (Some null_view) = Inr (b, Some l', Some r')
     \<and> wf_view l' \<and> wf_view r' \<and> CHR ''='' \<notin> set (vbytes l') \<and> (b \<longleftrightarrow> CHR ''='' \<in> set ''k=v'')
     \<and> ''k=v'' = (if b then vbytes l' @ CHR ''='' # vbytes r' else vbytes l')"
  using view_split_bytes [of "\<lparr>view_data = Some (CPtr ''k=v'' 0), view_len = 3\<rparr>" "CPtr ''k=v'' 0" "Some null_view" "Some null_view" "CHR ''=''"]
  by (simp add: concrete_view)

subsection \<open>Trimming\<close>

definition rtrim :: "char list \<Rightarrow> char list" where
  "rtrim cs = rev (dropWhile ascii_isspace (rev cs))"

lemma rtrim_snoc: "rtrim (cs @ [c]) = (if ascii_isspace c then rtrim cs else cs @ [c])"
  by (simp add: rtrim_def)

lemma rtrim_Nil [simp]: "rtrim [] = []"
  by (simp add: rtrim_def)

lemma trim_left_loop_drop:
  assumes v: "wf_window p n" and i: "0 \<le> i" "i \<le> n"
  shows "\<exists>s. trim_left_loop p n i = Inr s \<and> 0 \<le> s \<and> s \<le> n
           \<and> drop (nat s) (window p n) = tl (dropWhile ascii_isspace (drop (nat i) (window p n)))"
  using i
proof (induction "nat (n - i)" arbitrary: i rule: less_induct)
  case less
  show ?case
  proof (cases "i < n")
    case False
    then have "trim_left_loop p n i = Inr i" by (simp add: trim_left_loop.simps [of p n i])
    with False less.prems show ?thesis by (auto simp: length_window [OF v])
  next
    case True
    let ?c = "window p n ! nat i"
    have at: "ptr_at p i = Inr ?c" using ptr_at_window [OF v less.prems(1) True] .
    have "nat (i + 1) = Suc (nat i)" using less.prems(1) by simp
    moreover have "nat i < length (window p n)" using True less.prems by (simp add: length_window [OF v])
    ultimately have split: "drop (nat i) (window p n) = ?c # drop (nat (i + 1)) (window p n)"
      by (simp add: Cons_nth_drop_Suc)
    show ?thesis
    proof (cases "ascii_isspace ?c")
      case True
      have "\<exists>s. trim_left_loop p n (i + 1) = Inr s \<and> 0 \<le> s \<and> s \<le> n \<and> drop (nat s) (window p n)
          = tl (dropWhile ascii_isspace (drop (nat (i + 1)) (window p n)))"
        using less.hyps [of "i + 1"] less.prems \<open>i < n\<close> by simp
      with \<open>i < n\<close> True at split show ?thesis
        by (simp add: trim_left_loop.simps [of p n i])
    next
      case False
      with True at split less.prems show ?thesis
        by (simp add: trim_left_loop.simps [of p n i])
    qed
  qed
qed

lemma view_trim_left_bytes:
  assumes "wf_view v"
  shows "\<exists>w. sm3t__view_trim_left (Some v) = Inr w \<and> wf_view w
           \<and> vbytes w = tl (dropWhile ascii_isspace (vbytes v))"
proof (cases "view_data v")
  case None
  then show ?thesis by (auto simp: sm3t__view_trim_left_def)
next
  case (Some p)
  let ?n = "view_len v"
  have wv: "wf_window p ?n" using assms Some by (rule wf_viewD)
  then have "0 \<le> ?n" by (simp add: wf_window_def)
  then obtain s where s: "trim_left_loop p ?n 0 = Inr s" "0 \<le> s" "s \<le> ?n"
      "drop (nat s) (window p ?n) = tl (dropWhile ascii_isspace (window p ?n))"
    using trim_left_loop_drop [OF wv, of 0] by auto
  show ?thesis
  proof (cases "s \<ge> ?n")
    case True
    then have "drop (nat s) (window p ?n) = []" by (simp add: length_window [OF wv])
    with True s Some show ?thesis by (simp add: sm3t__view_trim_left_def vbytes_Some)
  next
    case False
    have ge: "0 \<le> ?n - s" "s + (?n - s) \<le> ?n" using False by simp_all
    have "take (nat (?n - s)) (drop (nat s) (window p ?n)) = drop (nat s) (window p ?n)"
      using s(2) by (simp add: length_window [OF wv])
    with False s Some show ?thesis
      using window_sub [OF wv s(2) ge] wf_window_sub [OF wv s(2) ge]
      by (simp add: sm3t__view_trim_left_def vbytes_Some wf_view_window)
  qed
qed

lemma trim_right_loop_take:
  assumes v: "wf_window p n" and e: "0 \<le> e" "e \<le> n"
  shows "\<exists>s. trim_right_loop p e = Inr s \<and> 0 \<le> s \<and> s \<le> e
           \<and> take (nat s) (window p n) = butlast (rtrim (take (nat e) (window p n)))"
  using e
proof (induction "nat e" arbitrary: e rule: less_induct)
  case less
  show ?case
  proof (cases "e > 0")
    case False
    then have "trim_right_loop p e = Inr e" by (simp add: trim_right_loop.simps [of p e])
    with False less.prems show ?thesis by auto
  next
    case True
    let ?c = "window p n ! nat (e - 1)"
    have at: "ptr_at p (e - 1) = Inr ?c" using ptr_at_window [OF v] True less.prems by simp
    have "nat e = Suc (nat (e - 1))" "nat (e - 1) < length (window p n)"
      using True less.prems by (simp_all add: length_window [OF v])
    then have split: "take (nat e) (window p n) = take (nat (e - 1)) (window p n) @ [?c]"
      by (simp add: take_Suc_conv_app_nth)
    show ?thesis
    proof (cases "ascii_isspace ?c")
      case True
      have "\<exists>s. trim_right_loop p (e - 1) = Inr s \<and> 0 \<le> s \<and> s \<le> e - 1 \<and> take (nat s) (window p n)
          = butlast (rtrim (take (nat (e - 1)) (window p n)))"
        using less.hyps [of "e - 1"] less.prems \<open>e > 0\<close> by simp
      then obtain s where s: "trim_right_loop p (e - 1) = Inr s" "0 \<le> s" "s \<le> e - 1"
        "take (nat s) (window p n) = butlast (rtrim (take (nat (e - 1)) (window p n)))" by blast
      with \<open>e > 0\<close> True at split show ?thesis
        by (simp add: trim_right_loop.simps [of p e] rtrim_snoc)
    next
      case False
      with True at split less.prems show ?thesis
        by (simp add: trim_right_loop.simps [of p e] rtrim_snoc)
    qed
  qed
qed

lemma view_trim_right_bytes:
  assumes "wf_view v"
  shows "\<exists>w. sm3t__view_trim_right (Some v) = Inr w \<and> wf_view w
           \<and> vbytes w = butlast (rtrim (vbytes v))"
proof (cases "view_data v")
  case None
  then show ?thesis by (auto simp: sm3t__view_trim_right_def)
next
  case (Some p)
  let ?n = "view_len v"
  have wv: "wf_window p ?n" using assms Some by (rule wf_viewD)
  then have n: "0 \<le> ?n" by (simp add: wf_window_def)
  then obtain s where s: "trim_right_loop p ?n = Inr s" "0 \<le> s" "s \<le> ?n"
      "take (nat s) (window p ?n) = butlast (rtrim (take (nat ?n) (window p ?n)))"
    using trim_right_loop_take [OF wv n] by auto
  have all: "take (nat ?n) (window p ?n) = window p ?n" by (simp add: length_window [OF wv])
  show ?thesis
  proof (cases "?n = 0 \<or> s = 0")
    case True
    with s all Some length_window [OF wv] show ?thesis
      by (auto simp: sm3t__view_trim_right_def vbytes_Some)
  next
    case False
    with s all Some show ?thesis
      using window_prefix [OF wv s(2,3)] wf_window_prefix [OF wv s(2,3)]
      by (simp add: sm3t__view_trim_right_def vbytes_Some wf_view_window)
  qed
qed

text \<open>
  C39. Trimming a well-formed view never fails, but takes one byte too many at either end: of the bytes
  between the leading and the trailing white space, the first and the last are lost too.
\<close>

theorem view_trim_loses_ends:
  assumes "wf_view v"
  shows "\<exists>w. sm3t__view_trim (Some v) = Inr w \<and> wf_view w
           \<and> vbytes w = butlast (rtrim (tl (dropWhile ascii_isspace (vbytes v))))"
proof -
  obtain l where l: "sm3t__view_trim_left (Some v) = Inr l" "wf_view l"
      "vbytes l = tl (dropWhile ascii_isspace (vbytes v))"
    using view_trim_left_bytes [OF assms] by blast
  with view_trim_right_bytes [OF l(2)] show ?thesis by (simp add: sm3t__view_trim_def)
qed

theorem view_trim_loses_ends_witness:
  "\<exists>w. sm3t__view_trim (Some \<lparr>view_data = Some (CPtr '' host '' 0), view_len = 6\<rparr>) = Inr w
     \<and> wf_view w \<and> vbytes w = ''os''"
  using view_trim_loses_ends [of "\<lparr>view_data = Some (CPtr '' host '' 0), view_len = 6\<rparr>"]
  by (simp add: concrete_view rtrim_def ascii_isspace_def)

subsection \<open>Case-insensitive comparison\<close>

lemma view_case_loop_eq:
  assumes p: "wf_window p n" and q: "wf_window q n" and i: "0 \<le> i"
  shows "view_case_loop p q n i = Inr (map ascii_tolower (drop (nat i) (window p n))
           = map ascii_tolower (drop (nat i) (window q n)))"
  using i
proof (induction "nat (n - i)" arbitrary: i rule: less_induct)
  case less
  show ?case
  proof (cases "i < n")
    case False
    with less.prems show ?thesis
      by (simp add: view_case_loop.simps [of p q n i] length_window p q)
  next
    case True
    have at: "ptr_at p i = Inr (window p n ! nat i)" "ptr_at q i = Inr (window q n ! nat i)"
      using ptr_at_window p q less.prems True by blast+
    have "nat (i + 1) = Suc (nat i)" using less.prems by simp
    moreover have "nat i < length (window p n)" "nat i < length (window q n)"
      using True less.prems by (simp_all add: length_window p q)
    ultimately have split:
      "drop (nat i) (window p n) = window p n ! nat i # drop (nat (i + 1)) (window p n)"
      "drop (nat i) (window q n) = window q n ! nat i # drop (nat (i + 1)) (window q n)"
      by (simp_all add: Cons_nth_drop_Suc)
    show ?thesis
      using True at split less.hyps [of "i + 1"] less.prems
      by (simp add: view_case_loop.simps [of p q n i])
  qed
qed

text \<open>
  The case-insensitive comparison never fails and compares the bytes with ASCII capitals lowered.
\<close>

lemma view_eq_case_bytes:
  assumes "wf_view v" and "wf_view x"
  shows "sm3t__view_eq_case (Some v) (Some x)
       = Inr (map ascii_tolower (vbytes v) = map ascii_tolower (vbytes x))"
proof (cases "vbytes v = [] \<or> vbytes x = []")
  case True
  then show ?thesis using assms by (auto simp: sm3t__view_eq_case_def view_empty_iff Let_def)
next
  case False
  then obtain p q where pq: "view_data v = Some p" "view_data x = Some q"
    by (auto simp: vbytes_def split: option.splits)
  have w: "wf_window p (view_len v)" "wf_window q (view_len x)" using assms pq by (auto dest: wf_viewD)
  have ne: "view_len v \<noteq> view_len x \<Longrightarrow> map ascii_tolower (vbytes v) \<noteq> map ascii_tolower (vbytes x)"
    using length_vbytes [OF assms(1)] length_vbytes [OF assms(2)] map_eq_imp_length_eq by fastforce
  show ?thesis
  proof (cases "view_len v = view_len x")
    case True
    with False assms pq view_case_loop_eq [of p "view_len v" q 0] w show ?thesis
      by (simp add: sm3t__view_eq_case_def view_empty_iff Let_def vbytes_Some)
  next
    case False
    with \<open>\<not> (vbytes v = [] \<or> vbytes x = [])\<close> assms pq ne show ?thesis
      by (simp add: sm3t__view_eq_case_def view_empty_iff Let_def)
  qed
qed

text \<open>
  The case-insensitive prefix test never fails and decides the prefix relation of the lowered bytes.
\<close>

lemma view_starts_with_case_bytes:
  assumes "wf_view v" and "wf_view x"
  shows "sm3t__view_starts_with_case (Some v) (Some x)
       = Inr (prefix (map ascii_tolower (vbytes x)) (map ascii_tolower (vbytes v)))"
proof (cases "view_data v = None \<or> view_data x = None \<or> view_len x = 0 \<or> view_len v < view_len x")
  case True
  then show ?thesis
    using length_vbytes [OF assms(1)] length_vbytes [OF assms(2)]
      prefix_length_le [of "map ascii_tolower (vbytes x)" "map ascii_tolower (vbytes v)"]
    by (auto simp: sm3t__view_starts_with_case_def view_ptr_def wf_view_def split: option.splits)
next
  case False
  then obtain p q where pq: "view_data v = Some p" "view_data x = Some q" by auto
  have w: "wf_window p (view_len v)" "wf_window q (view_len x)" using assms pq by (auto dest: wf_viewD)
  have x: "0 \<le> view_len x" "view_len x \<le> view_len v" using w False by (auto simp: wf_window_def)
  have lens: "length (vbytes x) = nat (view_len x)" "length (vbytes x) \<le> length (vbytes v)"
    using length_vbytes [OF assms(1)] length_vbytes [OF assms(2)] x by linarith+
  show ?thesis
    using False pq view_case_loop_eq [OF wf_window_prefix [OF w(1) x] w(2), of 0]
      window_prefix [OF w(1) x] lens
    by (simp add: sm3t__view_starts_with_case_def prefix_take vbytes_Some take_map)
qed

subsection \<open>Numbers and C strings\<close>

definition dec_fold :: "nat \<Rightarrow> char list \<Rightarrow> nat" where
  "dec_fold a cs = foldl (\<lambda>acc c. acc * 10 + digit_val c) a cs"

lemma dec_fold_simps [simp]:
  "dec_fold a [] = a" "dec_fold a (c # cs) = dec_fold (a * 10 + digit_val c) cs"
  by (simp_all add: dec_fold_def)

lemma dec_fold_ge: "a \<le> dec_fold a cs"
proof (induction cs arbitrary: a)
  case Nil
  then show ?case by simp
next
  case (Cons c cs)
  have "a \<le> a * 10 + digit_val c" by simp
  also have "\<dots> \<le> dec_fold (a * 10 + digit_val c) cs" by (rule Cons.IH)
  finally show ?case by simp
qed

lemma schar_digits [simp]: "schar CHR ''0'' = 48" "schar CHR ''9'' = 57"
  by (simp_all add: schar_def)

lemma u32_step:
  assumes "a \<le> UINT32_MAX" and "is_digit c"
  shows "of_nat a * 10 + word_of_int (schar c - 48) = (of_nat (a * 10 + digit_val c) :: 64 word)"
    and "(of_nat (a * 10 + digit_val c) :: 64 word) > of_nat UINT32_MAX
         \<longleftrightarrow> a * 10 + digit_val c > UINT32_MAX"
proof -
  have d: "schar c - 48 = int (digit_val c)" using assms(2) by (simp add: digit_val_def is_digit_def)
  show "of_nat a * 10 + word_of_int (schar c - 48) = (of_nat (a * 10 + digit_val c) :: 64 word)"
    by (simp add: d)
  have "digit_val c \<le> 9" using assms(2) by (auto simp: digit_val_def is_digit_def)
  then have "a * 10 + digit_val c < 2 ^ 64" using assms(1) by (simp add: UINT32_MAX_def)
  then show "(of_nat (a * 10 + digit_val c) :: 64 word) > of_nat UINT32_MAX
         \<longleftrightarrow> a * 10 + digit_val c > UINT32_MAX"
    by (simp only: word_less_nat_alt unat_of_nat) (simp add: UINT32_MAX_def)
qed

lemma to_u32_loop_value:
  assumes v: "wf_window p n" and i: "0 \<le> i" and a: "a \<le> UINT32_MAX"
  shows "to_u32_loop p n i (of_nat a) =
    Inr (if (\<forall>c \<in> set (drop (nat i) (window p n)). is_digit c)
            \<and> dec_fold a (drop (nat i) (window p n)) \<le> UINT32_MAX
         then Some (of_nat (dec_fold a (drop (nat i) (window p n)))) else None)"
  using i a
proof (induction "nat (n - i)" arbitrary: i a rule: less_induct)
  case less
  show ?case
  proof (cases "i < n")
    case False
    with less.prems show ?thesis
      by (simp add: to_u32_loop.simps [of p n i] length_window [OF v])
  next
    case True
    let ?c = "window p n ! nat i" and ?r = "drop (nat (i + 1)) (window p n)"
    have at: "ptr_at p i = Inr ?c" using ptr_at_window [OF v less.prems(1) True] .
    have "nat (i + 1) = Suc (nat i)" using less.prems by simp
    moreover have "nat i < length (window p n)" using True less.prems by (simp add: length_window [OF v])
    ultimately have split: "drop (nat i) (window p n) = ?c # ?r" by (simp add: Cons_nth_drop_Suc)
    show ?thesis
    proof (cases "is_digit ?c")
      case False
      then show ?thesis
        using True at split by (auto simp: to_u32_loop.simps [of p n i] is_digit_def)
    next
      case dig: True
      let ?a = "a * 10 + digit_val ?c"
      have eq: "to_u32_loop p n i (of_nat a) =
          (if ?a > UINT32_MAX then Inr None else to_u32_loop p n (i + 1) (of_nat ?a))"
        using True at dig u32_step [OF less.prems(2) dig]
        by (simp add: to_u32_loop.simps [of p n i] is_digit_def del: of_nat_add of_nat_mult)
      show ?thesis
      proof (cases "?a > UINT32_MAX")
        case True
        have "dec_fold ?a ?r > UINT32_MAX" using True dec_fold_ge [of ?a ?r] by linarith
        with True eq split show ?thesis by simp
      next
        case False
        then show ?thesis
          using eq split dig less.hyps [of "i + 1" ?a] less.prems True by simp
      qed
    qed
  qed
qed

text \<open>
  C37. Reading a number succeeds exactly for a non-empty string of decimal digits whose value fits 32
  bits, and then stores that value; otherwise the result parameter is left alone. The 64-bit
  accumulator never wraps.
\<close>

theorem view_to_u32_value:
  assumes "wf_view v"
  shows "sm3t__view_to_u32 (Some v) (Some old) =
    Inr (if vbytes v \<noteq> [] \<and> (\<forall>c \<in> set (vbytes v). is_digit c) \<and> dec_val (vbytes v) \<le> UINT32_MAX
         then (True, Some (of_nat (dec_val (vbytes v)))) else (False, Some old))"
proof (cases "view_data v = None \<or> view_len v = 0")
  case True
  then have "vbytes v = []" using length_vbytes [OF assms] by auto
  with True show ?thesis by (auto simp: sm3t__view_to_u32_def view_ptr_def split: option.splits)
next
  case False
  then obtain p where p: "view_data v = Some p" by auto
  have wv: "wf_window p (view_len v)" using assms p by (rule wf_viewD)
  have ne: "vbytes v \<noteq> []" using False length_vbytes [OF assms] by auto
  have "dec_fold 0 (window p (view_len v)) = dec_val (vbytes v)"
    by (simp add: dec_fold_def dec_val_def vbytes_Some [OF p])
  moreover have "(ucast (of_nat k :: 64 word) :: 32 word) = of_nat k" if "k \<le> UINT32_MAX" for k
    using that by (simp add: unsigned_of_nat take_bit_nat_eq_self UINT32_MAX_def)
  ultimately show ?thesis
    using to_u32_loop_value [OF wv, of 0 0] False p ne
    by (simp add: sm3t__view_to_u32_def vbytes_Some)
qed

theorem view_to_u32_value_witness:
  "sm3t__view_to_u32 (Some \<lparr>view_data = Some (CPtr ''8080'' 0), view_len = 4\<rparr>) (Some 0) = Inr (True, Some 8080)"
proof -
  let ?v = "\<lparr>view_data = Some (CPtr ''8080'' 0), view_len = 4\<rparr>"
  have v: "vbytes ?v = ''8080''" "wf_view ?v" by (simp_all add: concrete_view)
  have d: "dec_val ''8080'' = 8080" "list_all is_digit ''8080''" by code_simp+
  then have "\<forall>c\<in>set ''8080''. is_digit c" by (simp only: list_all_iff)
  with view_to_u32_value [OF v(2), of 0] v(1) d(1) show ?thesis by (simp add: UINT32_MAX_def)
qed

lemma takeWhile_until: "x \<notin> set xs \<Longrightarrow> takeWhile (\<lambda>c. c \<noteq> x) (xs @ x # ys) = xs"
  by (induction xs) auto

lemma view_cstr_bytes:
  assumes "CHR 0x00 \<notin> set cs" and "int (length cs) + 1 < INT64_MAX"
  shows "\<exists>w. sm3t__view_cstr (Some (CPtr (cs @ [CHR 0x00]) 0)) = Inr w \<and> wf_view w \<and> vbytes w = cs"
  using assms
  by (simp add: sm3t__view_cstr_def strlen_def takeWhile_until wf_view_def wf_window_def
      vbytes_def window_def)

lemma view_to_cstr_bytes:
  assumes "wf_view v" and "vbytes v \<noteq> []"
  shows "sm3t__view_to_cstr True (Some v) = Inr (Some (CPtr (vbytes v @ [CHR 0x00]) 0))"
proof -
  from assms(2) obtain p where p: "view_data v = Some p" by (cases "view_data v") auto
  have wv: "wf_window p (view_len v)" using assms(1) p by (rule wf_viewD)
  have "view_len v \<noteq> 0" using assms length_vbytes [OF assms(1)] by auto
  moreover have "in_i64 (view_len v + 1)" using wv by (auto simp: wf_window_def int_range)
  ultimately show ?thesis
    using p wv by (simp add: sm3t__view_to_cstr_def rd_bytes_window vbytes_Some)
qed

text \<open>
  C38. A C string that is not empty survives the way through a view and back: the view denotes the
  bytes before the end mark, and the copy made of it is the same string in an object of its own.
\<close>

theorem view_cstr_round_trip:
  assumes "CHR 0x00 \<notin> set cs" and "int (length cs) + 1 < INT64_MAX" and "cs \<noteq> []"
  shows "\<exists>w. sm3t__view_cstr (Some (CPtr (cs @ [CHR 0x00]) 0)) = Inr w \<and> vbytes w = cs
           \<and> sm3t__view_to_cstr True (Some w) = Inr (Some (CPtr (cs @ [CHR 0x00]) 0))"
proof -
  obtain w where w: "sm3t__view_cstr (Some (CPtr (cs @ [CHR 0x00]) 0)) = Inr w" "wf_view w" "vbytes w = cs"
    using view_cstr_bytes [OF assms(1,2)] by blast
  then show ?thesis using view_to_cstr_bytes [OF w(2)] assms(3) by auto
qed

theorem view_cstr_round_trip_witness:
  "\<exists>w. sm3t__view_cstr (Some (CPtr (''tcp'' @ [CHR 0x00]) 0)) = Inr w \<and> vbytes w = ''tcp''
     \<and> sm3t__view_to_cstr True (Some w) = Inr (Some (CPtr (''tcp'' @ [CHR 0x00]) 0))"
  by (rule view_cstr_round_trip) (simp_all add: INT64_MAX_def)

end
