(* ===== verification/Sm3t_Queue.thy ===== *)
theory Sm3t_Queue
  imports Sm3t_Prelude "HOL-Library.Multiset"
begin

text \<open>
  The pointer ring (\<open>src/core/sm3t_queue.c\<close>, type in \<open>include/sm3t_utils.h\<close>). The server fills it
  with the forward upstreams and draws one for every client it accepts. A draw advances \<open>head\<close> by
  one modulo \<open>size\<close> and never removes an entry, so the ring serves its entries in turn for ever.

  A \<open>sm3t_queue_t *\<close> is an option; \<open>alloc\<close> says whether the allocation a call makes succeeds. The
  second part gives the contract of a round-robin source as a locale, and the ring as its instance.
\<close>

section \<open>The operations\<close>

definition QUEUE_MAX :: int where "QUEUE_MAX = 8"

record 'a sm3t_queue_t =
  q_size :: int
  q_head :: int
  q_tail :: int
  q_capacity :: int
  q_data :: "'a slot list"

definition sm3t__queue_full :: "'a sm3t_queue_t \<Rightarrow> bool" where
  "sm3t__queue_full queue \<longleftrightarrow> q_capacity queue = q_size queue \<and> q_capacity queue \<noteq> 0"

definition sm3t__queue_empty :: "'a sm3t_queue_t option \<Rightarrow> bool" where
  "sm3t__queue_empty queue = (case queue of None \<Rightarrow> True | Some q \<Rightarrow> q_size q = 0)"

definition new_queue :: "'a sm3t_queue_t" where
  "new_queue = \<lparr>q_size = 0, q_head = 0, q_tail = 0, q_capacity = QUEUE_MAX,
                q_data = replicate (nat QUEUE_MAX) Indet\<rparr>"

text \<open>The growth step of an enqueue: \<open>realloc\<close>, then \<open>capacity *= 2\<close>; \<open>tail\<close> is left alone.\<close>

definition queue_grow :: "bool \<Rightarrow> 'a sm3t_queue_t \<Rightarrow> 'a sm3t_queue_t cres" where
  "queue_grow alloc q =
     (if sm3t__queue_full q
      then if \<not> alloc then Inl Exit_Failure
           else cbind (i32 (q_capacity q * 2)) (\<lambda>capacity.
             Inr (q\<lparr>q_capacity := capacity, q_data := slots_resize (q_data q) (nat capacity)\<rparr>))
      else Inr q)"

definition queue_store :: "'a sm3t_queue_t \<Rightarrow> 'a \<Rightarrow> 'a sm3t_queue_t cres" where
  "queue_store q d =
     cbind (slot_put (q_data q) (q_tail q) (Ptr d)) (\<lambda>slots.
     cbind (i32 (q_tail q + 1)) (\<lambda>next.
     cbind (c_rem next (q_capacity q)) (\<lambda>tail.
     cbind (i32 (q_size q + 1)) (\<lambda>size.
       Inr (q\<lparr>q_data := slots, q_tail := tail, q_size := size\<rparr>)))))"

definition sm3t__enqueue ::
  "bool \<Rightarrow> 'a sm3t_queue_t option \<Rightarrow> 'a option \<Rightarrow> (bool \<times> 'a sm3t_queue_t option) cres" where
  "sm3t__enqueue alloc queue data =
     (case data of None \<Rightarrow> Inr (False, queue)
      | Some d \<Rightarrow>
          if sm3t__queue_empty queue \<and> \<not> alloc then Inr (False, None)
          else let q = (case queue of None \<Rightarrow> new_queue
                        | Some q' \<Rightarrow> if q_size q' = 0 then new_queue else q')
            in cbind (queue_grow alloc q) (\<lambda>q.
               cbind (queue_store q d) (\<lambda>q. Inr (True, Some q))))"

definition sm3t__dequeue :: "'a sm3t_queue_t option \<Rightarrow> ('a option \<times> 'a sm3t_queue_t option) cres" where
  "sm3t__dequeue queue =
     (case queue of None \<Rightarrow> Inr (None, queue)
      | Some q \<Rightarrow>
          if q_size q = 0 then Inr (None, queue)
          else cbind (slot_get (q_data q) (q_head q)) (\<lambda>data.
               cbind (i32 (q_head q + 1)) (\<lambda>next.
               cbind (c_rem next (q_size q)) (\<lambda>head.
                 Inr (data, Some (q\<lparr>q_head := head\<rparr>))))))"

definition sm3t__free_queue :: "'a sm3t_queue_t option \<Rightarrow> 'a sm3t_queue_t option" where
  "sm3t__free_queue queue = None"

text \<open>Filling a ring, as the server does before it starts accepting; and drawing repeatedly.\<close>

primrec enqueue_all ::
  "'a sm3t_queue_t option \<Rightarrow> 'a list \<Rightarrow> 'a sm3t_queue_t option cres" where
  "enqueue_all queue [] = Inr queue"
| "enqueue_all queue (x # xs) =
     cbind (sm3t__enqueue True queue (Some x)) (\<lambda>(_, queue'). enqueue_all queue' xs)"

primrec draws :: "('q \<Rightarrow> ('a option \<times> 'q) cres) \<Rightarrow> nat \<Rightarrow> 'q \<Rightarrow> ('a option list \<times> 'q) cres" where
  "draws draw 0 q = Inr ([], q)"
| "draws draw (Suc n) q =
     cbind (draw q) (\<lambda>(x, q'). cbind (draws draw n q') (\<lambda>(xs, q''). Inr (x # xs, q'')))"

section \<open>The contract of a round-robin source\<close>

locale round_robin =
  fixes draw :: "'q \<Rightarrow> ('a option \<times> 'q) cres"
    and elems :: "'q \<Rightarrow> 'a list"
    and pos :: "'q \<Rightarrow> nat"
    and inv :: "'q \<Rightarrow> bool"
  assumes pos_less: "inv q \<Longrightarrow> pos q < length (elems q)"
    and draw_next: "inv q \<Longrightarrow>
      \<exists>q'. draw q = Inr (Some (elems q ! pos q), q') \<and> inv q' \<and> elems q' = elems q
         \<and> pos q' = Suc (pos q) mod length (elems q)"
begin

lemma draws_in_turn:
  assumes "inv q"
  shows "\<exists>q'. draws draw n q
           = Inr (map (\<lambda>i. Some (elems q ! ((pos q + i) mod length (elems q)))) [0..<n], q')
         \<and> inv q' \<and> elems q' = elems q"
  using assms
proof (induction n arbitrary: q)
  case 0
  then show ?case by auto
next
  case (Suc n)
  obtain q1 where q1: "draw q = Inr (Some (elems q ! pos q), q1)" "inv q1" "elems q1 = elems q"
      "pos q1 = Suc (pos q) mod length (elems q)"
    using draw_next [OF Suc.prems] by blast
  obtain q2 where q2: "inv q2" "elems q2 = elems q1" "draws draw n q1
      = Inr (map (\<lambda>i. Some (elems q1 ! ((pos q1 + i) mod length (elems q1)))) [0..<n], q2)"
    using Suc.IH [OF q1(2)] by blast
  have "map (\<lambda>i. Some (elems q ! ((pos q + i) mod length (elems q)))) [0..<Suc n]
    = Some (elems q ! pos q)
      # map (\<lambda>i. Some (elems q1 ! ((pos q1 + i) mod length (elems q1)))) [0..<n]"
    using pos_less [OF Suc.prems] q1(3,4)
    by (simp add: upt_rec [of 0 "Suc n"] map_Suc_upt [symmetric] mod_add_left_eq del: upt_Suc)
  with q1 q2 show ?case by auto
qed

lemma round_serves_all:
  assumes "inv q"
  shows "\<exists>xs q'. draws draw (length (elems q)) q = Inr (map Some xs, q') \<and> mset xs = mset (elems q)"
proof -
  let ?n = "length (elems q)"
  let ?xs = "map (\<lambda>i. elems q ! ((pos q + i) mod ?n)) [0..<?n]"
  have "?xs = rotate (pos q) (elems q)"
    by (rule nth_equalityI) (simp_all add: nth_rotate)
  also have "mset \<dots> = mset (elems q)"
    by (metis append_take_drop_id mset_append rotate_drop_take union_commute)
  finally have "mset ?xs = mset (elems q)" .
  moreover obtain q' where "draws draw ?n q = Inr (map Some ?xs, q')"
    using draws_in_turn [OF assms, of ?n] by (auto simp: comp_def)
  ultimately show ?thesis by blast
qed

end

section \<open>The ring meets the contract while it has not grown\<close>

text \<open>
  The state of a ring that holds at most \<open>QUEUE_MAX\<close> entries: the entries fill the first \<open>size\<close>
  slots in the order of their arrival.
\<close>

fun ring_elems :: "'a sm3t_queue_t option \<Rightarrow> 'a list" where
  "ring_elems None = []"
| "ring_elems (Some q) =
     map (\<lambda>s. case s of Ptr a \<Rightarrow> a) (take (nat (q_size q)) (q_data q))"

fun ring_pos :: "'a sm3t_queue_t option \<Rightarrow> nat" where
  "ring_pos None = 0"
| "ring_pos (Some q) = nat (q_head q)"

definition is_ring :: "'a sm3t_queue_t \<Rightarrow> 'a list \<Rightarrow> bool" where
  "is_ring q xs \<longleftrightarrow> xs \<noteq> [] \<and> length xs \<le> 8 \<and> q_capacity q = 8 \<and> length (q_data q) = 8
     \<and> q_size q = int (length xs) \<and> q_tail q = int (length xs) mod 8
     \<and> 0 \<le> q_head q \<and> q_head q < int (length xs)
     \<and> (\<forall>i < length xs. q_data q ! i = Ptr (xs ! i))"

fun ring_inv :: "'a sm3t_queue_t option \<Rightarrow> bool" where
  "ring_inv None = False"
| "ring_inv (Some q) = (\<exists>xs. is_ring q xs)"

lemma is_ring_elems: "is_ring q xs \<Longrightarrow> ring_elems (Some q) = xs"
  by (rule nth_equalityI) (auto simp: is_ring_def)

declare ring_elems.simps(2) [simp del]

lemma dequeue_ring:
  assumes "is_ring q xs"
  shows "\<exists>q'. sm3t__dequeue (Some q) = Inr (Some (xs ! nat (q_head q)), Some q')
           \<and> is_ring q' xs \<and> q_head q' = (q_head q + 1) mod int (length xs)"
proof -
  have h: "0 \<le> q_head q" "q_head q < int (length xs)" "length xs \<le> 8" "length (q_data q) = 8"
    using assms by (auto simp: is_ring_def)
  have get: "slot_get (q_data q) (q_head q) = Inr (Some (xs ! nat (q_head q)))"
    using assms h by (intro slot_get_Ptr) (auto simp: is_ring_def)
  have "c_rem (q_head q + 1) (int (length xs)) = Inr ((q_head q + 1) mod int (length xs))"
    using h by (intro c_rem_pos) auto
  moreover have "in_i32 (q_head q + 1)" using h by (auto simp: int_range)
  ultimately show ?thesis
    using get assms by (auto simp: sm3t__dequeue_def is_ring_def)
qed

interpretation ring: round_robin sm3t__dequeue ring_elems ring_pos ring_inv
proof unfold_locales
  fix q :: "'a sm3t_queue_t option"
  assume "ring_inv q"
  then obtain r xs where r: "q = Some r" "is_ring r xs" by (cases q) auto
  then have el: "ring_elems q = xs" "0 \<le> q_head r" "q_head r < int (length xs)"
    by (auto simp: is_ring_elems is_ring_def)
  then show "ring_pos q < length (ring_elems q)" using r by auto
  obtain r' where r': "sm3t__dequeue (Some r) = Inr (Some (xs ! nat (q_head r)), Some r')"
      "is_ring r' xs" "q_head r' = (q_head r + 1) mod int (length xs)"
    using dequeue_ring [OF r(2)] by blast
  have "nat ((q_head r + 1) mod int (length xs)) = Suc (nat (q_head r)) mod length xs"
    using el by (simp add: nat_mod_distrib nat_add_distrib)
  then show "\<exists>q'. sm3t__dequeue q = Inr (Some (ring_elems q ! ring_pos q), q') \<and> ring_inv q'
      \<and> ring_elems q' = ring_elems q \<and> ring_pos q' = Suc (ring_pos q) mod length (ring_elems q)"
    using r r' el by (intro exI [of _ "Some r'"]) (auto simp: is_ring_elems)
qed

lemma enqueue_first: "\<exists>q. sm3t__enqueue True None (Some x) = Inr (True, Some q) \<and> is_ring q [x]
    \<and> q_head q = 0"
  by (simp add: sm3t__enqueue_def sm3t__queue_empty_def queue_grow_def sm3t__queue_full_def
      new_queue_def QUEUE_MAX_def queue_store_def slot_put_def c_rem_def i32_def int_range
      is_ring_def numeral_eq_Suc)

lemma enqueue_ring:
  assumes "is_ring q xs" and "length xs < 8"
  shows "\<exists>q'. sm3t__enqueue alloc (Some q) (Some x) = Inr (True, Some q') \<and> is_ring q' (xs @ [x])
           \<and> q_head q' = q_head q"
proof -
  have f: "q_size q = int (length xs)" "q_tail q = int (length xs)" "q_capacity q = 8"
      "length (q_data q) = 8" "xs \<noteq> []"
    using assms by (auto simp: is_ring_def)
  have "queue_grow alloc q = Inr q"
    using f assms(2) by (simp add: queue_grow_def sm3t__queue_full_def)
  moreover have "queue_store q x = Inr (q\<lparr>q_data := (q_data q)[length xs := Ptr x],
      q_tail := (int (length xs) + 1) mod 8, q_size := int (length xs) + 1\<rparr>)"
    using f assms(2) by (simp add: queue_store_def slot_put_Inr c_rem_pos int_range)
  moreover have "is_ring (q\<lparr>q_data := (q_data q)[length xs := Ptr x],
      q_tail := (int (length xs) + 1) mod 8, q_size := int (length xs) + 1\<rparr>) (xs @ [x])"
    using assms by (auto simp: is_ring_def nth_append nth_list_update less_Suc_eq add.commute)
  ultimately show ?thesis
    using f by (auto simp: sm3t__enqueue_def sm3t__queue_empty_def Let_def)
qed

lemma enqueue_all_ring:
  assumes "is_ring q ys" and "length ys + length xs \<le> 8"
  shows "\<exists>q'. enqueue_all (Some q) xs = Inr (Some q') \<and> is_ring q' (ys @ xs) \<and> q_head q' = q_head q"
  using assms
proof (induction xs arbitrary: q ys)
  case Nil
  then show ?case by simp
next
  case (Cons x xs)
  obtain q1 where q1: "sm3t__enqueue True (Some q) (Some x) = Inr (True, Some q1)"
      "is_ring q1 (ys @ [x])" "q_head q1 = q_head q"
    using enqueue_ring [OF Cons.prems(1), of True x] Cons.prems(2) by auto
  then show ?case using Cons.IH [OF q1(2)] Cons.prems(2) by auto
qed

lemma enqueue_all_fresh:
  assumes "xs \<noteq> []" and "length xs \<le> 8"
  shows "\<exists>q. enqueue_all None xs = Inr (Some q) \<and> is_ring q xs \<and> q_head q = 0"
proof -
  obtain x ys where xs: "xs = x # ys" using assms(1) by (cases xs) auto
  obtain q where q: "sm3t__enqueue True None (Some x) = Inr (True, Some q)" "is_ring q [x]" "q_head q = 0"
    using enqueue_first [of x] by (elim exE conjE) (rule that)
  have "length [x] + length ys \<le> 8" using assms(2) xs by simp
  from enqueue_all_ring [OF q(2) this] q(3)
  obtain q' where "enqueue_all (Some q) ys = Inr (Some q')" "is_ring q' (x # ys)" "q_head q' = 0"
    by (metis append_Cons append_Nil)
  with q(1) show ?thesis unfolding xs by simp
qed

section \<open>Filling and drawing\<close>

text \<open>
  C24. Up to eight upstreams are served in turn for ever: the \<open>i\<close>-th draw, counted from zero, gives the
  upstream number \<open>i\<close> modulo their count.
\<close>

theorem upstreams_in_turn:
  assumes "xs \<noteq> []" and "length xs \<le> 8"
  shows "\<exists>q q'. enqueue_all None xs = Inr q
           \<and> draws sm3t__dequeue n q = Inr (map (\<lambda>i. Some (xs ! (i mod length xs))) [0..<n], q')"
proof -
  obtain q where q: "enqueue_all None xs = Inr (Some q)" "is_ring q xs" "q_head q = 0"
    using enqueue_all_fresh [OF assms] by blast
  then have "ring_inv (Some q)" "ring_elems (Some q) = xs" by (auto simp: is_ring_elems)
  with ring.draws_in_turn [of "Some q" n] q show ?thesis by auto
qed

theorem upstreams_in_turn_witness:
  "\<exists>q q'. enqueue_all None [''a'', ''b''] = Inr q
     \<and> draws sm3t__dequeue 3 q = Inr ([Some ''a'', Some ''b'', Some ''a''], q')"
  using upstreams_in_turn [of "[''a'', ''b'']" 3] by (simp add: upt_rec numeral_3_eq_3)



section \<open>Growth\<close>

lemma enqueue_all_append:
  "enqueue_all q (xs @ ys) = cbind (enqueue_all q xs) (\<lambda>q. enqueue_all q ys)"
  by (induction xs arbitrary: q) (simp_all add: cbind_assoc case_prod_unfold)

lemma draws_slots:
  assumes "q_head q = int h" and "int (h + n) < q_size q" and "q_size q \<le> int (length (q_data q))"
    and "q_size q \<le> INT_MAX" and "\<forall>i < h + n. q_data q ! i = Ptr (ys ! i)" and "h + n \<le> length ys"
  shows "draws sm3t__dequeue n (Some q) =
           Inr (map Some (take n (drop h ys)), Some (q\<lparr>q_head := int (h + n)\<rparr>))"
  using assms
proof (induction n arbitrary: q h)
  case 0
  then show ?case by simp
next
  case (Suc n)
  let ?q = "q\<lparr>q_head := int (Suc h)\<rparr>"
  have get: "slot_get (q_data q) (q_head q) = Inr (Some (ys ! h))"
    using Suc.prems by (intro slot_get_Ptr) auto
  have "c_rem (int h + 1) (q_size q) = Inr (int (Suc h))"
    using Suc.prems by (subst c_rem_pos) auto
  moreover have "in_i32 (int h + 1)" using Suc.prems by (auto simp: int_range)
  moreover have "q_size q \<noteq> 0" using Suc.prems(2) by auto
  ultimately have "sm3t__dequeue (Some q) = Inr (Some (ys ! h), Some ?q)"
    using get Suc.prems(1) by (simp add: sm3t__dequeue_def)
  moreover have "draws sm3t__dequeue n (Some ?q)
      = Inr (map Some (take n (drop (Suc h) ys)), Some (?q\<lparr>q_head := int (Suc h + n)\<rparr>))"
    using Suc.prems by (intro Suc.IH) auto
  moreover have "drop h ys = ys ! h # drop (Suc h) ys"
    using Suc.prems(6) by (simp add: Cons_nth_drop_Suc)
  ultimately show ?case by simp
qed

lemma draws_Suc_end:
  assumes "draws draw n q = Inr (xs, q')" and "draw q' = Inl e"
  shows "draws draw (Suc n) q = Inl e"
  using assms
proof (induction n arbitrary: q xs)
  case 0
  then show ?case by simp
next
  case (Suc n)
  from Suc.prems(1) obtain x q1 xs' where q1: "draw q = Inr (x, q1)" "draws draw n q1 = Inr (xs', q')"
    by (auto simp: cbind_eq_Inr)
  have "draws draw (Suc n) q1 = Inl e" using Suc.IH [OF q1(2) Suc.prems(2)] .
  then show ?case using q1(1) by (simp del: draws.simps(2) add: draws.simps(2) [of draw "Suc n"])
qed

lemma enqueue_ninth:
  assumes "is_ring q xs" and "length xs = 8"
  shows "sm3t__enqueue True (Some q) (Some y) = Inr (True, Some (q\<lparr>q_capacity := 16,
           q_data := (slots_resize (q_data q) 16)[0 := Ptr y], q_tail := 1, q_size := 9\<rparr>))"
proof -
  have f: "q_size q = 8" "q_tail q = 0" "q_capacity q = 8" "length (q_data q) = 8"
    using assms by (auto simp: is_ring_def)
  then have "queue_grow True q = Inr (q\<lparr>q_capacity := 16, q_data := slots_resize (q_data q) 16\<rparr>)"
    by (simp add: queue_grow_def sm3t__queue_full_def int_range)
  with f show ?thesis
    by (simp add: sm3t__enqueue_def sm3t__queue_empty_def queue_store_def slot_put_Inr c_rem_pos int_range)
qed

text \<open>
  C29. The ninth upstream breaks the ring: the array grows, but the entry is stored at the old tail,
  which has wrapped to slot 0. A round then starts with the ninth upstream in place of the first, and
  its ninth draw uses a slot that was never written.
\<close>

theorem ninth_upstream_breaks_ring:
  assumes "length xs = 8"
  shows "\<exists>q q'. enqueue_all None (xs @ [y]) = Inr q
           \<and> draws sm3t__dequeue 8 q = Inr (Some y # map Some (tl xs), q')
           \<and> draws sm3t__dequeue 9 q = Inl Uninit_Read"
proof -
  have "xs \<noteq> []" using assms by auto
  then obtain q where q: "enqueue_all None xs = Inr (Some q)" "is_ring q xs" "q_head q = 0"
    using enqueue_all_fresh [of xs] assms by auto
  let ?d = "(slots_resize (q_data q) 16)[0 := Ptr y]"
  let ?q = "q\<lparr>q_capacity := 16, q_data := ?d, q_tail := 1, q_size := 9\<rparr>"
  have d: "length (q_data q) = 8" "\<forall>i < 8. q_data q ! i = Ptr (xs ! i)" using q(2) assms by (auto simp: is_ring_def)
  have r: "?d ! i = Ptr ((y # tl xs) ! i)" if "i < 8" for i
    using that d assms \<open>xs \<noteq> []\<close> by (cases i) (auto simp: nth_slots_resize nth_tl)
  have "draws sm3t__dequeue 8 (Some ?q) = Inr (map Some (take 8 (drop 0 (y # tl xs))), Some (?q\<lparr>q_head := int (0 + 8)\<rparr>))"
    using q(3) d r assms by (intro draws_slots) (auto simp: INT_MAX_def)
  then have 8: "draws sm3t__dequeue 8 (Some ?q) = Inr (Some y # map Some (tl xs), Some (?q\<lparr>q_head := 8\<rparr>))"
    using assms by simp
  have "sm3t__dequeue (Some (?q\<lparr>q_head := 8\<rparr>)) = Inl Uninit_Read"
    using d by (simp add: sm3t__dequeue_def slot_get_def slots_resize_def nth_append)
  from draws_Suc_end [OF 8 this] 8 enqueue_ninth [OF q(2) assms] q(1) show ?thesis
    by (auto simp: enqueue_all_append)
qed

theorem ninth_upstream_breaks_ring_witness:
  "\<exists>q q'. enqueue_all None ([1, 2, 3, 4, 5, 6, 7, 8] @ [9 :: nat]) = Inr q
     \<and> draws sm3t__dequeue 8 q = Inr (map Some [9, 2, 3, 4, 5, 6, 7, 8], q')
     \<and> draws sm3t__dequeue 9 q = Inl Uninit_Read"
  using ninth_upstream_breaks_ring [of "[1, 2, 3, 4, 5, 6, 7, 8 :: nat]" 9] by simp

end
