(* ===== verification/Sm3t_Vec.thy ===== *)
theory Sm3t_Vec
  imports Sm3t_Prelude
begin

text \<open>
  The growable pointer vector (\<open>src/core/sm3t_vec.c\<close>, type in \<open>include/sm3t_utils.h\<close>), in which the
  server collects the contexts to be released at the end of an event batch. Sizes are \<open>size_t\<close>:
  natural numbers reduced modulo \<open>2 ^ 64\<close>. A \<open>sm3t_vec_t *\<close> is an option; \<open>alloc\<close> says whether the
  allocation a call makes succeeds. The cleanup callback works on a state of its own, threaded
  through the loop.

  The second part gives the contract of a list-like collector as a locale, the vector as its
  instance, and what the cleanup does with the collected entries.
\<close>

section \<open>The operations\<close>

definition SM3T_VEC_MAX :: nat where "SM3T_VEC_MAX = 8"

record 'a sm3t_vec_t =
  v_size :: nat
  v_capacity :: nat
  v_data :: "'a slot list"

text \<open>
  \<open>sizeof(sm3t_vec_t) + sizeof(data) * capacity\<close> in \<open>size_t\<close>, and how many pointers of the flexible
  array fit in an object of that size.
\<close>

definition vec_bytes :: "nat \<Rightarrow> nat" where
  "vec_bytes capacity = sz (16 + sz (8 * capacity))"

definition vec_slots :: "nat \<Rightarrow> nat" where
  "vec_slots bytes = (bytes - 16) div 8"

text \<open>The vector into which the entry is stored: a new one, a grown one, or the one there is.\<close>

definition vec_room :: "bool \<Rightarrow> 'a sm3t_vec_t option \<Rightarrow> 'a sm3t_vec_t cres" where
  "vec_room alloc vec =
     (case vec of
        None \<Rightarrow>
          if \<not> alloc then Inl Exit_Failure
          else Inr \<lparr>v_size = 0, v_capacity = SM3T_VEC_MAX,
                    v_data = replicate (vec_slots (vec_bytes SM3T_VEC_MAX)) Indet\<rparr>
      | Some v \<Rightarrow>
          if v_size v = v_capacity v
          then let capacity = sz (v_capacity v * 2) in
            if \<not> alloc then Inl Exit_Failure
            else Inr (v\<lparr>v_capacity := capacity,
                        v_data := slots_resize (v_data v) (vec_slots (vec_bytes capacity))\<rparr>)
          else Inr v)"

definition sm3t__vec_append ::
  "bool \<Rightarrow> 'a sm3t_vec_t option \<Rightarrow> 'a option \<Rightarrow> (bool \<times> 'a sm3t_vec_t option) cres" where
  "sm3t__vec_append alloc vec data =
     (case data of None \<Rightarrow> Inr (False, vec)
      | Some d \<Rightarrow>
          cbind (vec_room alloc vec) (\<lambda>v.
          cbind (slot_put (v_data v) (int (v_size v)) (Ptr d)) (\<lambda>slots.
            Inr (True, Some (v\<lparr>v_data := slots, v_size := sz (v_size v + 1)\<rparr>)))))"

function cleanup_vec_loop ::
  "('s \<Rightarrow> 'a option \<Rightarrow> 's cres) \<Rightarrow> nat \<Rightarrow> nat \<Rightarrow> 's \<Rightarrow> 'a slot list \<Rightarrow> ('s \<times> 'a slot list) cres" where
  "cleanup_vec_loop callback vsize i s slots =
     (if i < vsize
      then cbind (slot_get slots (int i)) (\<lambda>d.
           cbind (callback s d) (\<lambda>s'.
           cbind (slot_put slots (int i) NullP) (\<lambda>slots'.
             cleanup_vec_loop callback vsize (i + 1) s' slots')))
      else Inr (s, slots))"
  by pat_completeness auto
termination
  by (relation "measure (\<lambda>(c, n, i, s, xs). n - i)") auto

declare cleanup_vec_loop.simps [simp del]

definition sm3t__cleanup_vec ::
  "('s \<Rightarrow> 'a option \<Rightarrow> 's cres) \<Rightarrow> 'a sm3t_vec_t option \<Rightarrow> 's \<Rightarrow> ('s \<times> 'a sm3t_vec_t option) cres" where
  "sm3t__cleanup_vec callback vec s =
     (case vec of None \<Rightarrow> Inr (s, None)
      | Some v \<Rightarrow>
          cbind (cleanup_vec_loop callback (v_size v) 0 s (v_data v)) (\<lambda>(s', slots).
            Inr (s', Some (v\<lparr>v_data := slots, v_size := 0\<rparr>))))"

text \<open>\<open>return vec->data[vec->size--];\<close>\<close>

definition sm3t__vec_pop :: "'a sm3t_vec_t option \<Rightarrow> ('a option \<times> 'a sm3t_vec_t option) cres" where
  "sm3t__vec_pop vec =
     (case vec of None \<Rightarrow> Inr (None, None)
      | Some v \<Rightarrow>
          cbind (slot_get (v_data v) (int (v_size v))) (\<lambda>d.
            Inr (d, Some (v\<lparr>v_size := sz (v_size v + (SIZE_MOD - 1))\<rparr>))))"

definition sm3t__destroy_vec :: "'a sm3t_vec_t option \<Rightarrow> 'a sm3t_vec_t option" where
  "sm3t__destroy_vec vec = None"

section \<open>The contract of a collector\<close>

locale collector =
  fixes add :: "'c \<Rightarrow> 'a \<Rightarrow> 'c cres"
    and elems :: "'c \<Rightarrow> 'a list"
    and inv :: "'c \<Rightarrow> bool"
    and room :: "'c \<Rightarrow> nat"
  assumes add_snoc: "\<lbrakk> inv c; 0 < room c \<rbrakk> \<Longrightarrow>
      \<exists>c'. add c x = Inr c' \<and> inv c' \<and> elems c' = elems c @ [x] \<and> room c - 1 \<le> room c'"
begin

lemma add_all:
  "\<lbrakk> inv c; length xs \<le> room c \<rbrakk> \<Longrightarrow>
     \<exists>c'. run_steps add c xs = Inr c' \<and> inv c' \<and> elems c' = elems c @ xs"
proof (induction xs arbitrary: c)
  case Nil
  then show ?case by simp
next
  case (Cons x xs)
  then obtain c1 where c1: "add c x = Inr c1" "inv c1" "elems c1 = elems c @ [x]"
      "room c - 1 \<le> room c1"
    using add_snoc [of c x] by auto
  moreover have "length xs \<le> room c1" using Cons.prems(2) c1(4) by simp
  ultimately show ?case using Cons.IH [of c1] by auto
qed

end

section \<open>The vector meets the contract\<close>

text \<open>
  Entries fill the first \<open>size\<close> slots and are never null. The bound on the capacity keeps the byte
  count of the allocation below the range of \<open>size_t\<close>.
\<close>

definition VEC_LIMIT :: nat where "VEC_LIMIT = 2 ^ 59"

fun vec_elems :: "'a sm3t_vec_t option \<Rightarrow> 'a list" where
  "vec_elems None = []"
| "vec_elems (Some v) = map (\<lambda>s. case s of Ptr a \<Rightarrow> a) (take (v_size v) (v_data v))"

definition is_vec :: "'a sm3t_vec_t \<Rightarrow> 'a list \<Rightarrow> bool" where
  "is_vec v xs \<longleftrightarrow> v_size v = length xs \<and> length xs \<le> v_capacity v \<and> 0 < v_capacity v
     \<and> v_capacity v \<le> 2 * VEC_LIMIT \<and> length (v_data v) = v_capacity v
     \<and> (\<forall>i < length xs. v_data v ! i = Ptr (xs ! i))"

fun vec_inv :: "'a sm3t_vec_t option \<Rightarrow> bool" where
  "vec_inv None = True"
| "vec_inv (Some v) = (\<exists>xs. is_vec v xs)"

definition vec_free :: "'a sm3t_vec_t option \<Rightarrow> nat" where
  "vec_free vec = VEC_LIMIT - length (vec_elems vec)"

definition vec_add :: "'a sm3t_vec_t option \<Rightarrow> 'a \<Rightarrow> 'a sm3t_vec_t option cres" where
  "vec_add vec x = cbind (sm3t__vec_append True vec (Some x)) (\<lambda>(_, vec'). Inr vec')"

lemma is_vec_elems: "is_vec v xs \<Longrightarrow> vec_elems (Some v) = xs"
  by (rule nth_equalityI) (auto simp: is_vec_def)

declare vec_elems.simps(2) [simp del]

lemma vec_slots_bytes: "n \<le> 2 * VEC_LIMIT \<Longrightarrow> vec_slots (vec_bytes n) = n"
  by (simp add: vec_slots_def vec_bytes_def sz_def VEC_LIMIT_def SIZE_MOD_def)

lemma vec_room_ok:
  assumes "vec_inv vec" and "0 < vec_free vec"
  shows "\<exists>v. vec_room True vec = Inr v \<and> is_vec v (vec_elems vec) \<and> v_size v < v_capacity v"
proof (cases vec)
  case None
  have "vec_slots (vec_bytes SM3T_VEC_MAX) = SM3T_VEC_MAX"
    by (rule vec_slots_bytes) (simp add: SM3T_VEC_MAX_def VEC_LIMIT_def)
  with None show ?thesis
    by (simp add: vec_room_def is_vec_def SM3T_VEC_MAX_def VEC_LIMIT_def)
next
  case (Some v)
  obtain xs where xs: "is_vec v xs" using assms(1) Some by auto
  have el: "vec_elems vec = xs" using xs Some by (simp add: is_vec_elems)
  have len: "length xs < VEC_LIMIT" using assms(2) el by (simp add: vec_free_def)
  show ?thesis
  proof (cases "v_size v = v_capacity v")
    case False
    have "v_size v < v_capacity v" using xs False by (simp add: is_vec_def)
    with xs Some False show ?thesis unfolding el by (simp add: vec_room_def)
  next
    case True
    let ?c = "v_capacity v * 2"
    have c: "v_capacity v = length xs" using True xs by (simp add: is_vec_def)
    have "?c < SIZE_MOD" using len c by (simp add: VEC_LIMIT_def SIZE_MOD_def)
    moreover have "vec_slots (vec_bytes ?c) = ?c" using len c by (intro vec_slots_bytes) simp
    ultimately have "vec_room True vec
        = Inr (v\<lparr>v_capacity := ?c, v_data := slots_resize (v_data v) ?c\<rparr>)"
      using True Some by (simp add: vec_room_def Let_def)
    moreover have "is_vec (v\<lparr>v_capacity := ?c, v_data := slots_resize (v_data v) ?c\<rparr>) xs"
      using xs len c by (auto simp: is_vec_def nth_slots_resize)
    moreover have "v_size v < ?c" using True xs by (auto simp: is_vec_def)
    ultimately show ?thesis unfolding el by simp
  qed
qed

lemma vec_append_ok:
  assumes "vec_inv vec" and "0 < vec_free vec"
  shows "\<exists>v. sm3t__vec_append True vec (Some x) = Inr (True, Some v) \<and> is_vec v (vec_elems vec @ [x])"
proof -
  let ?xs = "vec_elems vec"
  obtain v where v: "vec_room True vec = Inr v" "is_vec v ?xs" "v_size v < v_capacity v"
    using vec_room_ok [OF assms] by blast
  have n: "v_size v = length ?xs" "length (v_data v) = v_capacity v" using v(2) by (auto simp: is_vec_def)
  have "slot_put (v_data v) (int (v_size v)) (Ptr x) = Inr ((v_data v)[v_size v := Ptr x])"
    using v(3) n by (simp add: slot_put_def)
  moreover have "sz (v_size v + 1) = length ?xs + 1"
    using assms(2) n by (intro trans [OF sz_small]) (auto simp: vec_free_def VEC_LIMIT_def SIZE_MOD_def)
  ultimately have "sm3t__vec_append True vec (Some x)
      = Inr (True, Some (v\<lparr>v_data := (v_data v)[v_size v := Ptr x], v_size := length ?xs + 1\<rparr>))"
    using v(1) by (simp add: sm3t__vec_append_def)
  moreover have "is_vec (v\<lparr>v_data := (v_data v)[v_size v := Ptr x], v_size := length ?xs + 1\<rparr>) (?xs @ [x])"
    using v(2,3) by (auto simp: is_vec_def nth_append nth_list_update less_Suc_eq)
  ultimately show ?thesis by blast
qed

interpretation vec: collector vec_add vec_elems vec_inv vec_free
proof unfold_locales
  fix c :: "'a sm3t_vec_t option" and x :: 'a
  assume "vec_inv c" "0 < vec_free c"
  then obtain v where "sm3t__vec_append True c (Some x) = Inr (True, Some v)" "is_vec v (vec_elems c @ [x])"
    using vec_append_ok [of c x] by auto
  then show "\<exists>c'. vec_add c x = Inr c' \<and> vec_inv c' \<and> vec_elems c' = vec_elems c @ [x]
      \<and> vec_free c - 1 \<le> vec_free c'"
    by (intro exI [of _ "Some v"]) (auto simp: vec_add_def is_vec_elems vec_free_def)
qed

section \<open>Cleaning up\<close>

text \<open>The callback is run once for each collected entry, in the order they were added.\<close>

lemma cleanup_vec_loop_runs:
  assumes "i + length xs = n" and "n \<le> length slots"
    and "\<And>k. k < length xs \<Longrightarrow> slots ! (i + k) = Ptr (xs ! k)"
  shows "cleanup_vec_loop cb n i s slots =
    cbind (run_steps (\<lambda>s a. cb s (Some a)) s xs) (\<lambda>s'.
      Inr (s', take i slots @ replicate (length xs) NullP @ drop n slots))"
  using assms
proof (induction xs arbitrary: i s slots)
  case Nil
  then have "cleanup_vec_loop cb n i s slots = Inr (s, slots)"
    by (simp add: cleanup_vec_loop.simps [of cb n n])
  with Nil show ?case by simp
next
  case (Cons x xs)
  have i: "i < n" "i < length slots" using Cons.prems by simp_all
  have get: "slot_get slots (int i) = Inr (Some x)"
    using Cons.prems(3) [of 0] i by (intro slot_get_Ptr) auto
  let ?slots = "slots[i := NullP]"
  have IH: "cleanup_vec_loop cb n (i + 1) t ?slots =
      cbind (run_steps (\<lambda>s a. cb s (Some a)) t xs) (\<lambda>s'.
        Inr (s', take (i + 1) ?slots @ replicate (length xs) NullP @ drop n ?slots))" for t
  proof (rule Cons.IH)
    show "i + 1 + length xs = n" using Cons.prems(1) by simp
    show "n \<le> length ?slots" using Cons.prems(2) by simp
    show "?slots ! (i + 1 + k) = Ptr (xs ! k)" if "k < length xs" for k
      using Cons.prems(3) [of "Suc k"] that by simp
  qed
  have "take (i + 1) ?slots = take i slots @ [NullP]"
    using i by (simp add: take_Suc_conv_app_nth)
  moreover have "drop n ?slots = drop n slots" using i by simp
  ultimately show ?case
    using i get IH
    by (simp add: cleanup_vec_loop.simps [of cb n i] slot_put_Inr cbind_assoc cong: cbind_cong)
qed

lemma cleanup_vec_runs:
  assumes "vec_inv vec"
  shows "\<exists>vec'. sm3t__cleanup_vec cb vec s =
           cbind (run_steps (\<lambda>s a. cb s (Some a)) s (vec_elems vec)) (\<lambda>s'. Inr (s', vec'))
         \<and> vec_inv vec' \<and> vec_elems vec' = []"
proof (cases vec)
  case None
  then show ?thesis by (simp add: sm3t__cleanup_vec_def)
next
  case (Some v)
  obtain xs where xs: "is_vec v xs" using assms Some by auto
  let ?slots = "replicate (length xs) NullP @ drop (length xs) (v_data v)"
  let ?v = "v\<lparr>v_data := ?slots, v_size := 0\<rparr>"
  have "cleanup_vec_loop cb (length xs) 0 s (v_data v)
      = cbind (run_steps (\<lambda>s a. cb s (Some a)) s xs) (\<lambda>s'. Inr (s', ?slots))"
    using xs cleanup_vec_loop_runs [of 0 xs "length xs" "v_data v" cb s] by (simp add: is_vec_def)
  then have "sm3t__cleanup_vec cb vec s
      = cbind (run_steps (\<lambda>s a. cb s (Some a)) s xs) (\<lambda>s'. Inr (s', Some ?v))"
    using xs Some by (simp add: sm3t__cleanup_vec_def is_vec_def cbind_assoc)
  moreover have "is_vec ?v []" using xs by (auto simp: is_vec_def)
  ultimately show ?thesis
    using xs Some by (intro exI [of _ "Some ?v"]) (auto simp: is_vec_elems)
qed

text \<open>
  C26. Collecting entries in a fresh vector and cleaning it up runs the callback exactly once for each
  of them, in the order they were collected, stops at the first failure, and leaves an empty vector
  that can be used again; the sizes of the allocations do not wrap.
\<close>

theorem vec_collect_then_cleanup:
  assumes "length xs \<le> VEC_LIMIT"
  shows "\<exists>vec vec'. run_steps vec_add None xs = Inr vec
           \<and> sm3t__cleanup_vec callback vec s =
               cbind (run_steps (\<lambda>s a. callback s (Some a)) s xs) (\<lambda>s'. Inr (s', vec'))
           \<and> vec_inv vec' \<and> vec_elems vec' = []"
proof -
  have "vec_inv None" "length xs \<le> vec_free None" using assms by (simp_all add: vec_free_def)
  from vec.add_all [OF this] obtain vec
    where vec: "run_steps vec_add None xs = Inr vec" "vec_inv vec" "vec_elems vec = xs" by auto
  with cleanup_vec_runs [OF vec(2), of callback s] show ?thesis by auto
qed

theorem vec_collect_then_cleanup_witness:
  "\<exists>vec vec'. run_steps vec_add None [1, 2, 3 :: nat] = Inr vec
     \<and> sm3t__cleanup_vec (\<lambda>s a. case a of None \<Rightarrow> Inl Null_Deref | Some a \<Rightarrow> Inr (s @ [a])) vec []
         = Inr ([1, 2, 3], vec') \<and> vec_inv vec' \<and> vec_elems vec' = []"
  using vec_collect_then_cleanup [of "[1, 2, 3 :: nat]"
      "\<lambda>s a. case a of None \<Rightarrow> Inl Null_Deref | Some a \<Rightarrow> Inr (s @ [a])" "[]"]
  by (simp add: VEC_LIMIT_def)

section \<open>Popping\<close>

text \<open>A vector that has not grown yet.\<close>

definition young_vec :: "'a list \<Rightarrow> 'a sm3t_vec_t" where
  "young_vec xs = \<lparr>v_size = length xs, v_capacity = 8, v_data = map Ptr xs @ replicate (8 - length xs) Indet\<rparr>"

lemma vec_store_young:
  assumes "length xs < 8"
  shows "cbind (slot_put (v_data (young_vec xs)) (int (length xs)) (Ptr x)) (\<lambda>slots.
           Inr (Some ((young_vec xs)\<lparr>v_data := slots, v_size := sz (length xs + 1)\<rparr>)))
       = Inr (Some (young_vec (xs @ [x])))"
proof -
  have "8 - length xs = Suc (8 - Suc (length xs))" using assms by simp
  then have "(map Ptr xs @ replicate (8 - length xs) Indet)[length xs := Ptr x]
      = map Ptr (xs @ [x]) @ replicate (8 - length (xs @ [x])) Indet"
    by (simp add: list_update_append)
  moreover have "sz (length xs + 1) = Suc (length xs)" using assms by (simp add: sz_def SIZE_MOD_def)
  ultimately show ?thesis using assms by (simp add: young_vec_def slot_put_def)
qed

lemma vec_add_young: "length xs < 8 \<Longrightarrow> vec_add (Some (young_vec xs)) x = Inr (Some (young_vec (xs @ [x])))"
  using vec_store_young [of xs x]
  by (simp add: vec_add_def sm3t__vec_append_def vec_room_def young_vec_def cbind_assoc)

lemma vec_add_first: "vec_add None x = Inr (Some (young_vec [x]))"
proof -
  have "vec_slots (vec_bytes SM3T_VEC_MAX) = 8"
    using vec_slots_bytes [of SM3T_VEC_MAX] by (simp add: SM3T_VEC_MAX_def VEC_LIMIT_def)
  then show ?thesis
    using vec_store_young [of "[]" x]
    by (simp add: vec_add_def sm3t__vec_append_def vec_room_def young_vec_def SM3T_VEC_MAX_def cbind_assoc)
qed

lemma vec_add_all_young:
  "length ys + length xs \<le> 8 \<Longrightarrow>
     run_steps vec_add (Some (young_vec ys)) xs = Inr (Some (young_vec (ys @ xs)))"
  by (induction xs arbitrary: ys) (auto simp: vec_add_young)

text \<open>
  C30. Popping never gives back what was appended: with one to seven entries in a fresh vector the slot
  behind the last entry is read, which was never written, and with eight the read is past the end.
\<close>

theorem vec_pop_misses_last:
  assumes "xs \<noteq> []" and "length xs \<le> 8"
  shows "\<exists>vec. run_steps vec_add None xs = Inr vec
           \<and> sm3t__vec_pop vec = Inl (if length xs < 8 then Uninit_Read else Out_Of_Bounds)"
proof -
  obtain x ys where xs: "xs = x # ys" using assms(1) by (cases xs) auto
  have "run_steps vec_add None xs = Inr (Some (young_vec xs))"
    using vec_add_all_young [of "[x]" ys] assms(2) xs by (simp add: vec_add_first)
  moreover have "sm3t__vec_pop (Some (young_vec xs)) = Inl (if length xs < 8 then Uninit_Read else Out_Of_Bounds)"
    using assms(2) by (simp add: sm3t__vec_pop_def young_vec_def slot_get_def nth_append)
  ultimately show ?thesis by blast
qed

theorem vec_pop_misses_last_witness:
  "\<exists>vec. run_steps vec_add None [1, 2 :: nat] = Inr vec \<and> sm3t__vec_pop vec = Inl Uninit_Read"
  using vec_pop_misses_last [of "[1, 2 :: nat]"] by simp

end
