(* ===== verification/Sm3t_Sys.thy ===== *)
theory Sm3t_Sys
  imports Sm3t_Prelude "HOL-Library.Word"
begin

unbundle bit_operations_syntax

text \<open>
  The operating system as the proxy sees it, and the epoll helpers of \<open>src/core/sm3t_event.c\<close>.

  The kernel is not part of the sources: it is the parameter \<open>env\<close> of every definition that makes a
  system call. An \<open>env\<close> answers a call from the history of the calls made so far and their answers,
  so it may behave differently at every call. Performing a call appends it and its answer to the
  trace; the trace is what the model's statements about input and output speak of. What the code
  relies on (how many bytes \<open>send\<close> and \<open>recv\<close> report) is stated as \<open>send_ok\<close> and \<open>recv_ok\<close>.
\<close>

section \<open>System calls and their answers\<close>

type_synonym byte = char
type_synonym addr = "64 word"

datatype errno = EAGAIN | EWOULDBLOCK | EINTR | EOTHER nat

datatype ctl_op = EPOLL_CTL_ADD | EPOLL_CTL_MOD | EPOLL_CTL_DEL

text \<open>
  \<open>struct epoll_event\<close>: the mask and the 64 bits of user data, which the sources use as a pointer
  (\<open>data.ptr\<close>) or, for the listening socket, as a descriptor (\<open>data.fd\<close>, the low 32 bits).
\<close>

record epoll_event =
  ev_events :: "32 word"
  ev_data :: "64 word"

record sockaddr =
  sa_family :: int          \<comment> \<open>\<open>ss_family\<close>\<close>
  sa_host :: "byte list"    \<comment> \<open>the address in network byte order\<close>
  sa_port :: "16 word"      \<comment> \<open>the port in network byte order\<close>

datatype syscall =
    Sys_Send int "byte list"
  | Sys_Recv int nat
  | Sys_Shutdown_Wr int
  | Sys_Close int
  | Sys_Fcntl_Getfl int
  | Sys_Fcntl_Setfl int "32 word"
  | Sys_Epoll_Ctl ctl_op int int "epoll_event option"
  | Sys_Epoll_Create int
  | Sys_Epoll_Wait int int
  | Sys_Socket int
  | Sys_Setsockopt_Transparent int
  | Sys_Setsockopt_Reuseaddr int
  | Sys_Bind int sockaddr
  | Sys_Listen int int
  | Sys_Accept int
  | Sys_Getpeername int
  | Sys_Getsockopt_Origdst int
  | Sys_Connect int sockaddr
  | Sys_Getaddrinfo string

record sysret =
  sr_ret :: int
  sr_errno :: errno
  sr_bytes :: "byte list"            \<comment> \<open>what \<open>recv\<close> stored\<close>
  sr_addr :: sockaddr                \<comment> \<open>what \<open>getpeername\<close> and \<open>getsockopt\<close> stored\<close>
  sr_events :: "epoll_event list"    \<comment> \<open>what \<open>epoll_wait\<close> stored\<close>
  sr_hosts :: "sockaddr list"        \<comment> \<open>the list \<open>getaddrinfo\<close> returned\<close>

type_synonym trace = "(syscall \<times> sysret) list"
type_synonym env = "trace \<Rightarrow> syscall \<Rightarrow> sysret"

definition sys :: "env \<Rightarrow> syscall \<Rightarrow> trace \<Rightarrow> sysret \<times> trace" where
  "sys env c tr = (let r = env tr c in (r, tr @ [(c, r)]))"

definition SM3T__ERR :: int where "SM3T__ERR = -1"

definition EPOLLIN :: "32 word" where "EPOLLIN = 1"
definition EPOLLOUT :: "32 word" where "EPOLLOUT = 4"
definition EPOLLRDHUP :: "32 word" where "EPOLLRDHUP = 8192"
definition O_NONBLOCK :: "32 word" where "O_NONBLOCK = 2048"

definition has_ev :: "32 word \<Rightarrow> 32 word \<Rightarrow> bool" where
  "has_ev evs e \<longleftrightarrow> evs AND e \<noteq> 0"

definition would_block :: "errno \<Rightarrow> bool" where
  "would_block e \<longleftrightarrow> e = EAGAIN \<or> e = EWOULDBLOCK \<or> e = EINTR"

section \<open>The epoll helpers\<close>

definition sm3t__set_nonblocking :: "env \<Rightarrow> int \<Rightarrow> trace \<Rightarrow> bool \<times> trace" where
  "sm3t__set_nonblocking env fd tr =
     (let (flags, tr) = sys env (Sys_Fcntl_Getfl fd) tr in
      if sr_ret flags = SM3T__ERR then (False, tr)
      else let (r, tr) = sys env (Sys_Fcntl_Setfl fd (word_of_int (sr_ret flags) OR O_NONBLOCK)) tr in
        if sr_ret r = SM3T__ERR then (False, tr) else (True, tr))"

definition sm3t__append_poll :: "env \<Rightarrow> int \<Rightarrow> int \<Rightarrow> epoll_event \<Rightarrow> trace \<Rightarrow> bool \<times> trace" where
  "sm3t__append_poll env epoll_fd fd ev tr =
     (let (r, tr) = sys env (Sys_Epoll_Ctl EPOLL_CTL_ADD epoll_fd fd (Some ev)) tr in
      (sr_ret r \<noteq> SM3T__ERR, tr))"

definition sm3t__remove_poll :: "env \<Rightarrow> int \<Rightarrow> int \<Rightarrow> trace \<Rightarrow> bool \<times> trace" where
  "sm3t__remove_poll env epoll_fd fd tr =
     (let (r, tr) = sys env (Sys_Epoll_Ctl EPOLL_CTL_DEL epoll_fd fd None) tr in
      (sr_ret r \<noteq> SM3T__ERR, tr))"

definition sm3t_modify_poll :: "env \<Rightarrow> int \<Rightarrow> int \<Rightarrow> epoll_event \<Rightarrow> trace \<Rightarrow> bool \<times> trace" where
  "sm3t_modify_poll env epoll_fd fd ev tr =
     (let (r, tr) = sys env (Sys_Epoll_Ctl EPOLL_CTL_MOD epoll_fd fd (Some ev)) tr in
      (sr_ret r \<noteq> SM3T__ERR, tr))"

section \<open>What the code relies on\<close>

text \<open>
  \<open>send\<close> reports an error or how many of the given bytes it accepted; \<open>recv\<close> reports an error or how
  many bytes it stored, never more than it was given room for.
\<close>

definition send_ok :: "env \<Rightarrow> bool" where
  "send_ok env \<longleftrightarrow> (\<forall>tr fd bs. let r = sr_ret (env tr (Sys_Send fd bs)) in
     r = SM3T__ERR \<or> (0 \<le> r \<and> r \<le> int (length bs)))"

definition recv_ok :: "env \<Rightarrow> bool" where
  "recv_ok env \<longleftrightarrow> (\<forall>tr fd n. let a = env tr (Sys_Recv fd n) in
     sr_ret a = SM3T__ERR \<or>
     (0 \<le> sr_ret a \<and> sr_ret a \<le> int n \<and> length (sr_bytes a) = nat (sr_ret a)))"

text \<open>The bytes a trace shows as accepted for and received from a descriptor.\<close>

fun sent_by :: "int \<Rightarrow> syscall \<times> sysret \<Rightarrow> byte list" where
  "sent_by fd (Sys_Send fd' bs, r) = (if fd' = fd then take (nat (sr_ret r)) bs else [])"
| "sent_by fd _ = []"

fun recvd_by :: "int \<Rightarrow> syscall \<times> sysret \<Rightarrow> byte list" where
  "recvd_by fd (Sys_Recv fd' n, r) =
     (if fd' = fd \<and> 0 < sr_ret r then sr_bytes r else [])"
| "recvd_by fd _ = []"

definition sent :: "int \<Rightarrow> trace \<Rightarrow> byte list" where
  "sent fd tr = concat (map (sent_by fd) tr)"

definition recvd :: "int \<Rightarrow> trace \<Rightarrow> byte list" where
  "recvd fd tr = concat (map (recvd_by fd) tr)"

lemma sent_snoc [simp]: "sent fd (tr @ [x]) = sent fd tr @ sent_by fd x" "sent fd [] = []"
  by (simp_all add: sent_def)

lemma recvd_snoc [simp]: "recvd fd (tr @ [x]) = recvd fd tr @ recvd_by fd x" "recvd fd [] = []"
  by (simp_all add: recvd_def)

lemma send_okD:
  "send_ok env \<Longrightarrow> sr_ret (env tr (Sys_Send fd bs)) \<noteq> SM3T__ERR \<Longrightarrow>
     0 \<le> sr_ret (env tr (Sys_Send fd bs)) \<and> sr_ret (env tr (Sys_Send fd bs)) \<le> int (length bs)"
  by (auto simp: send_ok_def Let_def)

lemma recv_okD:
  "recv_ok env \<Longrightarrow> sr_ret (env tr (Sys_Recv fd n)) \<noteq> SM3T__ERR \<Longrightarrow>
     0 \<le> sr_ret (env tr (Sys_Recv fd n)) \<and> sr_ret (env tr (Sys_Recv fd n)) \<le> int n
     \<and> length (sr_bytes (env tr (Sys_Recv fd n))) = nat (sr_ret (env tr (Sys_Recv fd n)))"
  by (auto simp: recv_ok_def Let_def)

text \<open>A call that is neither a send nor a receive moves no payload.\<close>

lemma sent_modify_poll [simp]: "sent fd (snd (sm3t_modify_poll env e fd' ev tr)) = sent fd tr"
  by (simp add: sm3t_modify_poll_def sys_def Let_def)

lemma recvd_modify_poll [simp]: "recvd fd (snd (sm3t_modify_poll env e fd' ev tr)) = recvd fd tr"
  by (simp add: sm3t_modify_poll_def sys_def Let_def)

lemma modify_poll_trace:
  "snd (sm3t_modify_poll env e fd ev tr) = tr @ [(Sys_Epoll_Ctl EPOLL_CTL_MOD e fd (Some ev),
     env tr (Sys_Epoll_Ctl EPOLL_CTL_MOD e fd (Some ev)))]"
  by (simp add: sm3t_modify_poll_def sys_def Let_def)

text \<open>
  The descriptor that \<open>sm3t__set_nonblocking\<close> reports as non-blocking has been given all its old
  flags and \<open>O_NONBLOCK\<close>.
\<close>

text \<open>
  A descriptor reported as non-blocking has been given all its old status flags and \<open>O_NONBLOCK\<close>,
  and the kernel accepted them.
\<close>

lemma set_nonblocking_keeps_flags:
  assumes "sm3t__set_nonblocking env fd tr = (True, tr')"
  shows "\<exists>flags r1 r2. tr' = tr @ [(Sys_Fcntl_Getfl fd, r1), (Sys_Fcntl_Setfl fd flags, r2)]
           \<and> sr_ret r2 \<noteq> SM3T__ERR \<and> flags = word_of_int (sr_ret r1) OR O_NONBLOCK"
  using assms by (auto simp: sm3t__set_nonblocking_def sys_def Let_def split: if_splits)

end
