(* ===== verification/Sm3t_Lua.thy ===== *)
theory Sm3t_Lua
  imports Sm3t_Sys Complex_Main
begin

text \<open>
  The Lua interpreter as the proxy uses it. Lua is not part of the sources: its state has an
  arbitrary type \<open>'l\<close>, and the functions of its C interface that the sources call are the fields of
  a record \<open>'l lua_api\<close>, a parameter of every definition that uses Lua. The first three fields
  observe a state (its stack, the contents of its tables, its globals); the others are the calls.
  What the reference manual says of the calls is the predicate \<open>lua_ok\<close>.

  The configuration script runs in a state without the standard libraries (\<open>luaL_newstate\<close> opens
  none), so no table has a metatable and table access is plain.
\<close>

section \<open>Lua values\<close>

text \<open>A C \<open>double\<close>: the exact value of a finite one, or one of the special values.\<close>

datatype cdouble = Fin rat | PInf | MInf | NaN

datatype lval =
    LNil
  | LBool bool
  | LInt int
  | LNum cdouble
  | LStr string
  | LTable nat
  | LFun nat
  | LLight addr

text \<open>
  Conversions between numbers as C does them: an integer becomes the nearest \<open>double\<close>, ties to even
  (53 bits of precision); a \<open>double\<close> becomes an \<open>int64_t\<close> by truncation, and has no meaning when
  the value does not fit.
\<close>

fun dbl_shift :: "nat \<Rightarrow> nat" where
  "dbl_shift m = (if m < 2 ^ 53 then 0 else Suc (dbl_shift (m div 2)))"

declare dbl_shift.simps [simp del]

definition dbl_round :: "nat \<Rightarrow> nat" where
  "dbl_round m = (let u = 2 ^ dbl_shift m; q = m div u; r = m mod u in
     if 2 * r < u \<or> (2 * r = u \<and> even q) then q * u else (q + 1) * u)"

definition double_of_int :: "int \<Rightarrow> cdouble" where
  "double_of_int n = Fin (of_int (sgn n * int (dbl_round (nat \<bar>n\<bar>))))"

definition rat_trunc :: "rat \<Rightarrow> int" where
  "rat_trunc q = (if 0 \<le> q then \<lfloor>q\<rfloor> else \<lceil>q\<rceil>)"

definition int64_of_double :: "cdouble \<Rightarrow> int cres" where
  "int64_of_double x =
     (case x of Fin q \<Rightarrow> if in_i64 (rat_trunc q) then Inr (rat_trunc q) else Inl Bad_Conversion
      | _ \<Rightarrow> Inl Bad_Conversion)"

section \<open>The interface\<close>

record 'l lua_api =
  l_stack :: "'l \<Rightarrow> lval list"                \<comment> \<open>bottom (index 1) first\<close>
  l_field :: "'l \<Rightarrow> nat \<Rightarrow> string \<Rightarrow> lval"      \<comment> \<open>contents of a table\<close>
  l_global :: "'l \<Rightarrow> string \<Rightarrow> lval"
  l_push :: "lval \<Rightarrow> 'l \<Rightarrow> 'l"                 \<comment> \<open>the \<open>lua_push...\<close> family\<close>
  l_pop :: "nat \<Rightarrow> 'l \<Rightarrow> 'l"
  l_remove :: "int \<Rightarrow> 'l \<Rightarrow> 'l"
  l_getfield :: "int \<Rightarrow> string \<Rightarrow> 'l \<Rightarrow> 'l"
  l_setfield :: "int \<Rightarrow> string \<Rightarrow> 'l \<Rightarrow> 'l"
  l_getglobal :: "string \<Rightarrow> 'l \<Rightarrow> 'l"
  l_setglobal :: "string \<Rightarrow> 'l \<Rightarrow> 'l"
  l_pcall :: "nat \<Rightarrow> nat option \<Rightarrow> 'l \<Rightarrow> bool \<times> 'l"  \<comment> \<open>arguments, results (\<open>None\<close>: \<open>LUA_MULTRET\<close>)\<close>
  l_str2num :: "string \<Rightarrow> cdouble option"      \<comment> \<open>conversion of a numeral string\<close>
  l_num2str :: "lval \<Rightarrow> string"                \<comment> \<open>conversion of a number to a string\<close>
  l_newstate :: "'l option"                   \<comment> \<open>\<open>luaL_newstate\<close>\<close>
  l_loadfile :: "string \<Rightarrow> 'l \<Rightarrow> bool \<times> 'l"    \<comment> \<open>\<open>luaL_loadfile\<close>\<close>
  l_newlib :: "string list \<Rightarrow> 'l \<Rightarrow> 'l"        \<comment> \<open>\<open>luaL_newlib\<close>: functions under these names\<close>

text \<open>The value at an index: positive from the bottom, negative from the top.\<close>

definition stack_at :: "lval list \<Rightarrow> int \<Rightarrow> lval option" where
  "stack_at st i =
     (if 0 < i \<and> i \<le> int (length st) then Some (st ! nat (i - 1))
      else if i < 0 \<and> - i \<le> int (length st) then Some (st ! nat (int (length st) + i))
      else None)"

definition lua_value :: "'l lua_api \<Rightarrow> 'l \<Rightarrow> int \<Rightarrow> lval option" where
  "lua_value A L i = stack_at (l_stack A L) i"

definition lua_gettop :: "'l lua_api \<Rightarrow> 'l \<Rightarrow> int" where
  "lua_gettop A L = int (length (l_stack A L))"

definition lua_istable :: "'l lua_api \<Rightarrow> 'l \<Rightarrow> int \<Rightarrow> bool" where
  "lua_istable A L i = (case lua_value A L i of Some (LTable _) \<Rightarrow> True | _ \<Rightarrow> False)"

definition lua_isfunction :: "'l lua_api \<Rightarrow> 'l \<Rightarrow> int \<Rightarrow> bool" where
  "lua_isfunction A L i = (case lua_value A L i of Some (LFun _) \<Rightarrow> True | _ \<Rightarrow> False)"

definition lua_isboolean :: "'l lua_api \<Rightarrow> 'l \<Rightarrow> int \<Rightarrow> bool" where
  "lua_isboolean A L i = (case lua_value A L i of Some (LBool _) \<Rightarrow> True | _ \<Rightarrow> False)"

text \<open>A number is accepted as a string, and a numeral string as a number.\<close>

definition lua_isstring :: "'l lua_api \<Rightarrow> 'l \<Rightarrow> int \<Rightarrow> bool" where
  "lua_isstring A L i =
     (case lua_value A L i of Some (LStr _) \<Rightarrow> True | Some (LInt _) \<Rightarrow> True | Some (LNum _) \<Rightarrow> True
      | _ \<Rightarrow> False)"

definition num_value :: "'l lua_api \<Rightarrow> lval \<Rightarrow> cdouble option" where
  "num_value A v =
     (case v of LInt n \<Rightarrow> Some (double_of_int n) | LNum x \<Rightarrow> Some x
      | LStr s \<Rightarrow> l_str2num A s | _ \<Rightarrow> None)"

definition lua_isnumber :: "'l lua_api \<Rightarrow> 'l \<Rightarrow> int \<Rightarrow> bool" where
  "lua_isnumber A L i = (case lua_value A L i of None \<Rightarrow> False | Some v \<Rightarrow> num_value A v \<noteq> None)"

text \<open>\<open>lua_tonumber\<close> is 0 for a value that is not a number.\<close>

definition lua_tonumber :: "'l lua_api \<Rightarrow> 'l \<Rightarrow> int \<Rightarrow> cdouble" where
  "lua_tonumber A L i =
     (case lua_value A L i of None \<Rightarrow> Fin 0
      | Some v \<Rightarrow> (case num_value A v of None \<Rightarrow> Fin 0 | Some x \<Rightarrow> x))"

definition lua_toboolean :: "'l lua_api \<Rightarrow> 'l \<Rightarrow> int \<Rightarrow> bool" where
  "lua_toboolean A L i =
     (case lua_value A L i of None \<Rightarrow> False | Some LNil \<Rightarrow> False | Some (LBool b) \<Rightarrow> b | _ \<Rightarrow> True)"

text \<open>
  \<open>luaL_len\<close> is the length of a string; for a number (no \<open>__len\<close>) it raises an error, which
  nothing catches where the sources call it.
\<close>

definition luaL_len_string :: "'l lua_api \<Rightarrow> 'l \<Rightarrow> int \<Rightarrow> int cres" where
  "luaL_len_string A L i =
     (case lua_value A L i of Some (LStr s) \<Rightarrow> Inr (int (length s)) | _ \<Rightarrow> Inl Lua_Panic)"

definition lua_tostring :: "'l lua_api \<Rightarrow> 'l \<Rightarrow> int \<Rightarrow> string option" where
  "lua_tostring A L i =
     (case lua_value A L i of Some (LStr s) \<Rightarrow> Some s | Some (LInt n) \<Rightarrow> Some (l_num2str A (LInt n))
      | Some (LNum x) \<Rightarrow> Some (l_num2str A (LNum x)) | _ \<Rightarrow> None)"

text \<open>\<open>lua_pushvalue\<close> copies the element at an index to the top.\<close>

definition lua_pushvalue :: "'l lua_api \<Rightarrow> int \<Rightarrow> 'l \<Rightarrow> 'l" where
  "lua_pushvalue A i L = l_push A (case lua_value A L i of None \<Rightarrow> LNil | Some v \<Rightarrow> v) L"

section \<open>What the manual says of the calls\<close>

definition top_table :: "lval list \<Rightarrow> int \<Rightarrow> nat option" where
  "top_table st i = (case stack_at st i of Some (LTable t) \<Rightarrow> Some t | _ \<Rightarrow> None)"

text \<open>The index of a stack slot, bottom = 0.\<close>

definition stack_pos :: "lval list \<Rightarrow> int \<Rightarrow> nat" where
  "stack_pos st i = (if 0 < i then nat (i - 1) else nat (int (length st) + i))"

definition lua_push_ok :: "'l lua_api \<Rightarrow> bool" where
  "lua_push_ok A \<longleftrightarrow> (\<forall>v L. l_stack A (l_push A v L) = l_stack A L @ [v]
     \<and> l_field A (l_push A v L) = l_field A L \<and> l_global A (l_push A v L) = l_global A L)"

definition lua_pop_ok :: "'l lua_api \<Rightarrow> bool" where
  "lua_pop_ok A \<longleftrightarrow> (\<forall>n L. n \<le> length (l_stack A L) \<longrightarrow>
     l_stack A (l_pop A n L) = take (length (l_stack A L) - n) (l_stack A L)
     \<and> l_field A (l_pop A n L) = l_field A L \<and> l_global A (l_pop A n L) = l_global A L)"

definition lua_remove_ok :: "'l lua_api \<Rightarrow> bool" where
  "lua_remove_ok A \<longleftrightarrow> (\<forall>i L. stack_at (l_stack A L) i \<noteq> None \<longrightarrow>
     (let p = stack_pos (l_stack A L) i in
      l_stack A (l_remove A i L) = take p (l_stack A L) @ drop (Suc p) (l_stack A L)
      \<and> l_field A (l_remove A i L) = l_field A L \<and> l_global A (l_remove A i L) = l_global A L))"

definition lua_getfield_ok :: "'l lua_api \<Rightarrow> bool" where
  "lua_getfield_ok A \<longleftrightarrow> (\<forall>i k L t. top_table (l_stack A L) i = Some t \<longrightarrow>
     l_stack A (l_getfield A i k L) = l_stack A L @ [l_field A L t k]
     \<and> l_field A (l_getfield A i k L) = l_field A L \<and> l_global A (l_getfield A i k L) = l_global A L)"

definition lua_setfield_ok :: "'l lua_api \<Rightarrow> bool" where
  "lua_setfield_ok A \<longleftrightarrow> (\<forall>i k L t st v. top_table (l_stack A L) i = Some t \<longrightarrow> l_stack A L = st @ [v] \<longrightarrow>
     l_stack A (l_setfield A i k L) = st
     \<and> l_field A (l_setfield A i k L) = (l_field A L)(t := (l_field A L t)(k := v))
     \<and> l_global A (l_setfield A i k L) = l_global A L)"

definition lua_global_ok :: "'l lua_api \<Rightarrow> bool" where
  "lua_global_ok A \<longleftrightarrow>
     (\<forall>k L. l_stack A (l_getglobal A k L) = l_stack A L @ [l_global A L k]
        \<and> l_field A (l_getglobal A k L) = l_field A L \<and> l_global A (l_getglobal A k L) = l_global A L)
     \<and> (\<forall>k L st v. l_stack A L = st @ [v] \<longrightarrow>
          l_stack A (l_setglobal A k L) = st \<and> l_field A (l_setglobal A k L) = l_field A L
          \<and> l_global A (l_setglobal A k L) = (l_global A L)(k := v))"

text \<open>
  A protected call removes the function and its arguments and leaves the results, or one error
  value. The called code may change tables and globals in any way.
\<close>

definition lua_pcall_ok :: "'l lua_api \<Rightarrow> bool" where
  "lua_pcall_ok A \<longleftrightarrow> (\<forall>nres L base f args. l_stack A L = base @ f # args \<longrightarrow>
     (case l_pcall A (length args) nres L of (ok, L') \<Rightarrow>
        \<exists>rs. l_stack A L' = base @ rs
           \<and> (ok \<longrightarrow> (\<forall>n. nres = Some n \<longrightarrow> length rs = n)) \<and> (\<not> ok \<longrightarrow> length rs = 1)))"

definition lua_ok :: "'l lua_api \<Rightarrow> bool" where
  "lua_ok A \<longleftrightarrow> lua_push_ok A \<and> lua_pop_ok A \<and> lua_remove_ok A \<and> lua_getfield_ok A
     \<and> lua_setfield_ok A \<and> lua_global_ok A \<and> lua_pcall_ok A"

text \<open>
  A new state has an empty stack; loading a file pushes its chunk as a function; \<open>luaL_newlib\<close> pushes
  a table that holds a function under every name.
\<close>

definition lua_load_ok :: "'l lua_api \<Rightarrow> bool" where
  "lua_load_ok A \<longleftrightarrow>
     (\<forall>L. l_newstate A = Some L \<longrightarrow> l_stack A L = [])
     \<and> (\<forall>path L L'. l_loadfile A path L = (True, L') \<longrightarrow>
          (\<exists>f. l_stack A L' = l_stack A L @ [LFun f] \<and> l_field A L' = l_field A L \<and> l_global A L' = l_global A L))
     \<and> (\<forall>names L. \<exists>t g. l_stack A (l_newlib A names L) = l_stack A L @ [LTable t]
          \<and> l_field A (l_newlib A names L) = (l_field A L)(t := g) \<and> (\<forall>k\<in>set names. \<exists>f. g k = LFun f)
          \<and> l_global A (l_newlib A names L) = l_global A L)"

section \<open>Rewriting under the manual's laws\<close>

named_theorems lua_simps \<open>effects of the Lua calls on the observers\<close>

lemma lua_push_simps [lua_simps]:
  "lua_ok A \<Longrightarrow> l_stack A (l_push A v L) = l_stack A L @ [v]"
  "lua_ok A \<Longrightarrow> l_field A (l_push A v L) = l_field A L"
  "lua_ok A \<Longrightarrow> l_global A (l_push A v L) = l_global A L"
  by (simp_all add: lua_ok_def lua_push_ok_def)

lemma lua_pop_simps [lua_simps]:
  "lua_ok A \<Longrightarrow> n \<le> length (l_stack A L) \<Longrightarrow>
     l_stack A (l_pop A n L) = take (length (l_stack A L) - n) (l_stack A L)"
  "lua_ok A \<Longrightarrow> n \<le> length (l_stack A L) \<Longrightarrow> l_field A (l_pop A n L) = l_field A L"
  "lua_ok A \<Longrightarrow> n \<le> length (l_stack A L) \<Longrightarrow> l_global A (l_pop A n L) = l_global A L"
  by (simp_all add: lua_ok_def lua_pop_ok_def)

lemma lua_getfield_simps [lua_simps]:
  "lua_ok A \<Longrightarrow> top_table (l_stack A L) i = Some t \<Longrightarrow>
     l_stack A (l_getfield A i k L) = l_stack A L @ [l_field A L t k]"
  "lua_ok A \<Longrightarrow> top_table (l_stack A L) i = Some t \<Longrightarrow> l_field A (l_getfield A i k L) = l_field A L"
  "lua_ok A \<Longrightarrow> top_table (l_stack A L) i = Some t \<Longrightarrow> l_global A (l_getfield A i k L) = l_global A L"
  by (simp_all add: lua_ok_def lua_getfield_ok_def)

lemma lua_setfield_simps [lua_simps]:
  "\<lbrakk> lua_ok A; top_table (l_stack A L) i = Some t; l_stack A L = st @ [v] \<rbrakk> \<Longrightarrow>
     l_stack A (l_setfield A i k L) = st"
  "\<lbrakk> lua_ok A; top_table (l_stack A L) i = Some t; l_stack A L = st @ [v] \<rbrakk> \<Longrightarrow>
     l_field A (l_setfield A i k L) = (l_field A L)(t := (l_field A L t)(k := v))"
  "\<lbrakk> lua_ok A; top_table (l_stack A L) i = Some t; l_stack A L = st @ [v] \<rbrakk> \<Longrightarrow>
     l_global A (l_setfield A i k L) = l_global A L"
  unfolding lua_ok_def lua_setfield_ok_def by blast+

lemma lua_getglobal_simps [lua_simps]:
  "lua_ok A \<Longrightarrow> l_stack A (l_getglobal A k L) = l_stack A L @ [l_global A L k]"
  "lua_ok A \<Longrightarrow> l_field A (l_getglobal A k L) = l_field A L"
  "lua_ok A \<Longrightarrow> l_global A (l_getglobal A k L) = l_global A L"
  by (simp_all add: lua_ok_def lua_global_ok_def)

lemma lua_setglobal_simps [lua_simps]:
  "lua_ok A \<Longrightarrow> l_stack A L = st @ [v] \<Longrightarrow> l_stack A (l_setglobal A k L) = st"
  "lua_ok A \<Longrightarrow> l_stack A L = st @ [v] \<Longrightarrow> l_field A (l_setglobal A k L) = l_field A L"
  "lua_ok A \<Longrightarrow> l_stack A L = st @ [v] \<Longrightarrow> l_global A (l_setglobal A k L) = (l_global A L)(k := v)"
  unfolding lua_ok_def lua_global_ok_def by blast+

lemma lua_pcallD:
  assumes "lua_ok A" and "l_stack A L = base @ f # args" and "length args = nargs"
    and "l_pcall A nargs nres L = (ok, L')"
  shows "\<exists>rs. l_stack A L' = base @ rs \<and> (ok \<longrightarrow> (\<forall>n. nres = Some n \<longrightarrow> length rs = n))
           \<and> (\<not> ok \<longrightarrow> length rs = 1)"
proof -
  have "lua_pcall_ok A" using assms(1) by (simp add: lua_ok_def)
  then have "case l_pcall A (length args) nres L of (ok, L') \<Rightarrow> \<exists>rs. l_stack A L' = base @ rs
      \<and> (ok \<longrightarrow> (\<forall>n. nres = Some n \<longrightarrow> length rs = n)) \<and> (\<not> ok \<longrightarrow> length rs = 1)"
    using assms(2) by (simp only: lua_pcall_ok_def)
  then show ?thesis using assms(3,4) by simp
qed

lemma stack_at_top [simp]: "stack_at (st @ [v]) (-1) = Some v"
  by (simp add: stack_at_def)

lemma stack_at_top2 [simp]: "stack_at (st @ [w, v]) (-1) = Some v"
  using stack_at_top [of "st @ [w]" v] by simp

lemma stack_at_second [simp]: "stack_at (st @ [w, v]) (-2) = Some w"
  by (simp add: stack_at_def nth_append)

lemma stack_at_bottom [simp]: "stack_at (v # st) 1 = Some v"
  by (simp add: stack_at_def)

lemma stack_at_append: "stack_at st i = Some v \<Longrightarrow> 0 < i \<Longrightarrow> stack_at (st @ xs) i = Some v"
  by (auto simp: stack_at_def nth_append split: if_splits)

lemma top_table_top [simp]: "top_table (st @ [LTable t]) (-1) = Some t"
  by (simp add: top_table_def)

lemma top_table_second [simp]: "top_table (st @ [LTable t, v]) (-2) = Some t"
  by (simp add: top_table_def)

lemma lua_remove_second [lua_simps]:
  assumes "lua_ok A" and "l_stack A L = st @ [w, v]"
  shows "l_stack A (l_remove A (-2) L) = st @ [v]"
    and "l_field A (l_remove A (-2) L) = l_field A L"
    and "l_global A (l_remove A (-2) L) = l_global A L"
proof -
  have "lua_remove_ok A" using assms(1) by (simp add: lua_ok_def)
  moreover have "stack_at (l_stack A L) (-2) \<noteq> None" using assms(2) by simp
  moreover have "stack_pos (l_stack A L) (-2) = length st" using assms(2) by (simp add: stack_pos_def)
  ultimately show "l_stack A (l_remove A (-2) L) = st @ [v]"
      "l_field A (l_remove A (-2) L) = l_field A L" "l_global A (l_remove A (-2) L) = l_global A L"
    using assms(2) by (auto simp: lua_remove_ok_def Let_def)
qed

lemma lua_istable_top: "l_stack A L = st @ [v] \<Longrightarrow> lua_istable A L (-1) \<longleftrightarrow> (\<exists>t. v = LTable t)"
  by (auto simp: lua_istable_def lua_value_def split: lval.splits)

lemma lua_value_top: "l_stack A L = st @ [v] \<Longrightarrow> lua_value A L (-1) = Some v"
  by (simp add: lua_value_def)

section \<open>Conversions\<close>

lemma dbl_round_small: "m \<le> 2 ^ 53 \<Longrightarrow> dbl_round m = m"
proof (cases "m = 2 ^ 53")
  case True
  have "dbl_shift (2 ^ 53) = 1"
    by (subst dbl_shift.simps) (simp add: dbl_shift.simps [of 4503599627370496])
  then show ?thesis using True by (simp add: dbl_round_def)
next
  case False
  assume "m \<le> 2 ^ 53"
  with False have "dbl_shift m = 0" by (subst dbl_shift.simps) simp
  then show ?thesis by (simp add: dbl_round_def)
qed

lemma int64_double_round_trip:
  assumes "\<bar>n\<bar> \<le> 2 ^ 53"
  shows "int64_of_double (double_of_int n) = Inr n"
proof -
  have "nat \<bar>n\<bar> \<le> 2 ^ 53" using assms by simp
  then have "sgn n * int (dbl_round (nat \<bar>n\<bar>)) = n"
    using dbl_round_small [of "nat \<bar>n\<bar>"] by (simp add: sgn_mult_abs)
  then have "double_of_int n = Fin (of_int n)" by (simp add: double_of_int_def)
  moreover have "in_i64 n" using assms by (auto simp: int_range)
  ultimately show ?thesis by (simp add: int64_of_double_def rat_trunc_def)
qed

end
