(* ===== verification/Sm3t_Hooks.thy ===== *)
theory Sm3t_Hooks
  imports Sm3t_Lua
begin

text \<open>
  The calls into the configuration's hooks (\<open>src/conf/lua/sm3t_lua_hooks.c\<close>). A \<open>lua_State *\<close> is an
  option. A buffer is the list of the bytes of its object from the pointer on; writing past its end
  is an error of the model. Every call works on the Lua stack and must leave it as it found it.
\<close>

section \<open>Buffers\<close>

definition SM3T_BUFFER_SIZE :: nat where "SM3T_BUFFER_SIZE = 1024"

text \<open>\<open>memcpy\<close> of \<open>bs\<close> to the start of the buffer, and a store at an index.\<close>

definition buf_copy :: "byte list \<Rightarrow> byte list \<Rightarrow> byte list cres" where
  "buf_copy buf bs =
     (if length bs \<le> length buf then Inr (bs @ drop (length bs) buf) else Inl Out_Of_Bounds)"

definition buf_store :: "byte list \<Rightarrow> int \<Rightarrow> byte \<Rightarrow> byte list cres" where
  "buf_store buf i b =
     (if 0 \<le> i \<and> i < int (length buf) then Inr (buf[nat i := b]) else Inl Out_Of_Bounds)"

text \<open>The \<open>n\<close> bytes from offset \<open>k\<close>.\<close>

definition buf_read :: "byte list \<Rightarrow> int \<Rightarrow> int \<Rightarrow> byte list cres" where
  "buf_read buf k n =
     (if 0 \<le> k \<and> 0 \<le> n \<and> k + n \<le> int (length buf)
      then Inr (take (nat n) (drop (nat k) buf)) else Inl Out_Of_Bounds)"

section \<open>The hooks\<close>

datatype sm3t_hook_status_t = SM3T_HOOK_PASS | SM3T_HOOK_DROP

datatype sm3t_direction_t = SM3T_CLI_UPS | SM3T_UPT_CLI

fun direction_code :: "sm3t_direction_t \<Rightarrow> int" where
  "direction_code SM3T_CLI_UPS = 0"
| "direction_code SM3T_UPT_CLI = 1"

text \<open>
  The lines all three hooks start with: fetch the table \<open>hooks\<close> of the configuration (index 1) and
  its field \<open>name\<close>; when either has the wrong type, drop what was pushed and give up.
\<close>

definition push_hook :: "'l lua_api \<Rightarrow> string \<Rightarrow> 'l \<Rightarrow> bool \<times> 'l" where
  "push_hook A name L =
     (if \<not> lua_istable A L 1 then (False, L)
      else let L = l_getfield A 1 ''hooks'' L in
        if \<not> lua_istable A L (-1) then (False, l_pop A 1 L)
        else let L = l_getfield A (-1) name L in
          if \<not> lua_isfunction A L (-1) then (False, l_pop A 2 L) else (True, L))"

definition sm3t__hook_on_connect ::
  "'l lua_api \<Rightarrow> 'l option \<Rightarrow> addr \<Rightarrow> sm3t_hook_status_t \<times> 'l option" where
  "sm3t__hook_on_connect A L client_ctx =
     (case L of None \<Rightarrow> (SM3T_HOOK_PASS, None)
      | Some L \<Rightarrow>
          let (found, L) = push_hook A ''on_connect'' L in
          if \<not> found then (SM3T_HOOK_PASS, Some L)
          else let (ok, L) = l_pcall A 1 (Some 1) (l_push A (LLight client_ctx) L) in
            if \<not> ok then (SM3T_HOOK_PASS, Some (l_pop A 2 L))
            else (if lua_toboolean A L (-1) then SM3T_HOOK_PASS else SM3T_HOOK_DROP, Some (l_pop A 2 L)))"

definition sm3t__hook_on_disconnect :: "'l lua_api \<Rightarrow> 'l option \<Rightarrow> addr \<Rightarrow> 'l option" where
  "sm3t__hook_on_disconnect A L ctx =
     (case L of None \<Rightarrow> None
      | Some L \<Rightarrow>
          let (found, L) = push_hook A ''on_disconnect'' L in
          if \<not> found then Some L
          else let (ok, L) = l_pcall A 1 (Some 0) (l_push A (LLight ctx) L) in
            if \<not> ok then Some (l_pop A 2 L) else Some (l_pop A 1 L))"

text \<open>What is done with the value \<open>on_data\<close> returned, the top of the stack.\<close>

definition hook_data_result ::
  "'l lua_api \<Rightarrow> 'l \<Rightarrow> byte list \<Rightarrow> int \<Rightarrow> (sm3t_hook_status_t \<times> 'l \<times> byte list \<times> int) cres" where
  "hook_data_result A L buf len =
     (if lua_isstring A L (-1)
      then cbind (luaL_len_string A L (-1)) (\<lambda>new_len.
        if new_len = 0 then Inr (SM3T_HOOK_PASS, l_pop A 2 L, buf, len)
        else if new_len \<le> int SM3T_BUFFER_SIZE
        then (case lua_tostring A L (-1) of None \<Rightarrow> Inl Null_Deref
              | Some new_data \<Rightarrow>
                  cbind (buf_copy buf new_data) (\<lambda>buf.
                  cbind (buf_store buf new_len CHR 0x00) (\<lambda>buf.
                    Inr (SM3T_HOOK_PASS, l_pop A 2 L, buf, new_len))))
        else Inr (SM3T_HOOK_DROP, l_pop A 2 L, buf, len))
      else Inr (SM3T_HOOK_DROP, l_pop A 2 L, buf, len))"

definition sm3t__hook_on_data ::
  "'l lua_api \<Rightarrow> 'l option \<Rightarrow> addr \<Rightarrow> byte list \<Rightarrow> int \<Rightarrow> sm3t_direction_t
     \<Rightarrow> (sm3t_hook_status_t \<times> 'l option \<times> byte list \<times> int) cres" where
  "sm3t__hook_on_data A L ctx buf len direction =
     (case L of None \<Rightarrow> Inr (SM3T_HOOK_PASS, None, buf, len)
      | Some L \<Rightarrow>
          let (found, L) = push_hook A ''on_data'' L in
          if \<not> found then Inr (SM3T_HOOK_PASS, Some L, buf, len)
          else cbind (buf_read buf 0 len) (\<lambda>data.
            let L = l_push A (LLight ctx) L; L = l_push A (LStr data) L;
                L = l_push A (LInt (direction_code direction)) L;
                (ok, L) = l_pcall A 3 (Some 1) L in
            if \<not> ok then Inr (SM3T_HOOK_PASS, Some (l_pop A 2 L), buf, len)
            else cbind (hook_data_result A L buf len) (\<lambda>(st, L, buf, len). Inr (st, Some L, buf, len))))"

section \<open>Stack discipline\<close>

lemma lua_istable_iff: "lua_istable A L i \<longleftrightarrow> (\<exists>t. top_table (l_stack A L) i = Some t)"
  by (auto simp: lua_istable_def lua_value_def top_table_def split: option.splits lval.splits)

lemma push_hook_False:
  assumes "lua_ok A" and "push_hook A name L = (False, L')"
  shows "l_stack A L' = l_stack A L" and "l_field A L' = l_field A L"
proof -
  let ?L1 = "l_getfield A 1 ''hooks'' L"
  let ?L2 = "l_getfield A (-1) name ?L1"
  have "l_stack A L' = l_stack A L \<and> l_field A L' = l_field A L"
  proof (cases "lua_istable A L 1")
    case False
    with assms(2) show ?thesis by (simp add: push_hook_def)
  next
    case True
    then obtain t where t: "top_table (l_stack A L) 1 = Some t" by (auto simp: lua_istable_iff)
    note 1 = lua_getfield_simps [OF assms(1) t]
    show ?thesis
    proof (cases "lua_istable A ?L1 (-1)")
      case False
      with True assms(2) have "L' = l_pop A 1 ?L1" by (simp add: push_hook_def)
      then show ?thesis using assms(1) by (simp add: lua_pop_simps 1)
    next
      case tab: True
      then obtain u where u: "top_table (l_stack A ?L1) (-1) = Some u" by (auto simp: lua_istable_iff)
      note 2 = lua_getfield_simps [OF assms(1) u]
      from True tab assms(2) have "L' = l_pop A 2 ?L2"
        by (simp add: push_hook_def Let_def split: if_splits)
      then show ?thesis using assms(1) by (simp add: lua_pop_simps 1 2)
    qed
  qed
  then show "l_stack A L' = l_stack A L" and "l_field A L' = l_field A L" by simp_all
qed

lemma push_hook_True:
  assumes "lua_ok A" and "push_hook A name L = (True, L')"
  shows "\<exists>t u f. stack_at (l_stack A L) 1 = Some (LTable t) \<and> l_field A L t ''hooks'' = LTable u
           \<and> l_field A L u name = LFun f
           \<and> l_stack A L' = l_stack A L @ [LTable u, LFun f] \<and> l_field A L' = l_field A L"
proof -
  let ?L1 = "l_getfield A 1 ''hooks'' L"
  let ?L2 = "l_getfield A (-1) name ?L1"
  from assms(2) have f: "lua_istable A L 1" "lua_istable A ?L1 (-1)" "lua_isfunction A ?L2 (-1)" "L' = ?L2"
    by (auto simp: push_hook_def Let_def split: if_splits)
  from f(1) obtain t where t: "top_table (l_stack A L) 1 = Some t" by (auto simp: lua_istable_iff)
  note 1 = lua_getfield_simps [OF assms(1) t]
  from f(2) obtain u where u: "top_table (l_stack A ?L1) (-1) = Some u" by (auto simp: lua_istable_iff)
  note 2 = lua_getfield_simps [OF assms(1) u]
  have "l_field A L t ''hooks'' = LTable u" using u 1 by (auto simp: top_table_def split: lval.splits)
  moreover obtain g where "l_field A L u name = LFun g"
    using f(3) 1 2 by (auto simp: lua_isfunction_def lua_value_def split: lval.splits)
  ultimately show ?thesis
    using t 1 2 f(4) by (auto simp: top_table_def split: option.splits lval.splits)
qed

text \<open>A hook call with its results popped leaves the stack as it was before \<open>push_hook\<close>.\<close>

lemma hook_pcall_stack:
  assumes "lua_ok A" and "push_hook A name L = (True, L1)"
    and "l_stack A L2 = l_stack A L1 @ args" and "length args = nargs"
    and "l_pcall A nargs (Some n) L2 = (ok, L3)"
  shows "\<exists>u rs. l_stack A L3 = l_stack A L @ LTable u # rs \<and> length rs = (if ok then n else 1)"
proof -
  obtain u f where uf: "l_stack A L1 = l_stack A L @ [LTable u, LFun f]"
    using push_hook_True [OF assms(1,2)] by blast
  then have "l_stack A L2 = (l_stack A L @ [LTable u]) @ LFun f # args" using assms(3) by simp
  from lua_pcallD [OF assms(1) this assms(4,5)] show ?thesis by (cases ok) auto
qed

lemma hook_pop_stack:
  assumes "lua_ok A" and "l_stack A L3 = st @ v # rs" and "m = Suc (length rs)"
  shows "l_stack A (l_pop A m L3) = st"
  using assms by (simp add: lua_pop_simps)

text \<open>
  Whatever the connect hook does, fails or returns, the Lua stack is afterwards what it was before.
\<close>

lemma hook_on_connect_balanced:
  assumes "lua_ok A" and "sm3t__hook_on_connect A (Some L) ctx = (s, L')"
  shows "\<exists>M. L' = Some M \<and> l_stack A M = l_stack A L"
proof (cases "push_hook A ''on_connect'' L")
  case (Pair found L1)
  show ?thesis
  proof (cases found)
    case False
    with assms Pair show ?thesis
      using push_hook_False [OF assms(1), of "''on_connect''" L L1]
      by (auto simp: sm3t__hook_on_connect_def)
  next
    case True
    obtain ok L3 where c: "l_pcall A 1 (Some 1) (l_push A (LLight ctx) L1) = (ok, L3)" by fastforce
    have p: "push_hook A ''on_connect'' L = (True, L1)" using Pair True by simp
    from hook_pcall_stack [OF assms(1) p, where args = "[LLight ctx]" and nargs = 1, OF _ _ c]
    obtain u rs where "l_stack A L3 = l_stack A L @ LTable u # rs" "length rs = 1"
      using lua_push_simps(1) [OF assms(1)] by (cases ok) auto
    then have "l_stack A (l_pop A 2 L3) = l_stack A L" by (intro hook_pop_stack [OF assms(1)]) auto
    then show ?thesis
      using assms(2) p c by (auto simp: sm3t__hook_on_connect_def split: if_splits)
  qed
qed

text \<open>
  The disconnect hook always comes back to the caller and leaves the Lua stack as it was.
\<close>

lemma hook_on_disconnect_balanced:
  assumes "lua_ok A"
  shows "\<exists>M. sm3t__hook_on_disconnect A (Some L) ctx = Some M \<and> l_stack A M = l_stack A L"
proof (cases "push_hook A ''on_disconnect'' L")
  case (Pair found L1)
  show ?thesis
  proof (cases found)
    case False
    with assms Pair show ?thesis
      using push_hook_False [OF assms(1), of "''on_disconnect''" L L1]
      by (auto simp: sm3t__hook_on_disconnect_def)
  next
    case True
    obtain ok L3 where c: "l_pcall A 1 (Some 0) (l_push A (LLight ctx) L1) = (ok, L3)" by fastforce
    have p: "push_hook A ''on_disconnect'' L = (True, L1)" using Pair True by simp
    from hook_pcall_stack [OF assms(1) p, where args = "[LLight ctx]" and nargs = 1, OF _ _ c]
    obtain u rs where u: "l_stack A L3 = l_stack A L @ LTable u # rs" "length rs = (if ok then 0 else 1)"
      using lua_push_simps(1) [OF assms(1)] by (cases ok) auto
    then have "l_stack A (l_pop A (if ok then 1 else 2) L3) = l_stack A L"
      by (intro hook_pop_stack [OF assms(1) u(1)]) simp
    then show ?thesis
      using p c by (auto simp: sm3t__hook_on_disconnect_def split: if_splits)
  qed
qed

lemma hook_data_result_stack:
  assumes "lua_ok A" and "l_stack A L = st @ [v, r]" and "hook_data_result A L buf len = Inr (s, L', b, n)"
  shows "l_stack A L' = st"
proof -
  have "L' = l_pop A 2 L"
    using assms(3)
    by (auto simp: hook_data_result_def cbind_eq_Inr split: if_splits option.splits)
  then show ?thesis using hook_pop_stack [OF assms(1), of L st v "[r]" 2] assms(2) by simp
qed

text \<open>
  Whenever the data hook returns a verdict, the Lua stack is what it was before the call.
\<close>

lemma hook_on_data_balanced:
  assumes "lua_ok A" and "sm3t__hook_on_data A (Some L) ctx buf len dir = Inr (s, L', b, n)"
  shows "\<exists>M. L' = Some M \<and> l_stack A M = l_stack A L"
proof (cases "push_hook A ''on_data'' L")
  case (Pair found L1)
  show ?thesis
  proof (cases found)
    case False
    with assms Pair show ?thesis
      using push_hook_False [OF assms(1), of "''on_data''" L L1]
      by (auto simp: sm3t__hook_on_data_def)
  next
    case True
    then obtain data where data: "buf_read buf 0 len = Inr data"
      using assms(2) Pair by (auto simp: sm3t__hook_on_data_def cbind_eq_Inr)
    let ?args = "[LLight ctx, LStr data, LInt (direction_code dir)]"
    let ?L2 = "l_push A (LInt (direction_code dir)) (l_push A (LStr data) (l_push A (LLight ctx) L1))"
    obtain ok L3 where c: "l_pcall A 3 (Some 1) ?L2 = (ok, L3)" by fastforce
    have p: "push_hook A ''on_data'' L = (True, L1)" using Pair True by simp
    have "l_stack A ?L2 = l_stack A L1 @ ?args" using lua_push_simps(1) [OF assms(1)] by simp
    from hook_pcall_stack [OF assms(1) p this _ c]
    obtain u r where u: "l_stack A L3 = l_stack A L @ [LTable u, r]"
      by (cases ok) (auto simp: length_Suc_conv)
    have "l_stack A (l_pop A 2 L3) = l_stack A L"
      using hook_pop_stack [OF assms(1), of L3 "l_stack A L" "LTable u" "[r]" 2] u by simp
    then show ?thesis
      using assms p c data hook_data_result_stack [OF assms(1) u]
      by (auto simp: sm3t__hook_on_data_def Let_def cbind_eq_Inr split: if_splits)
  qed
qed

text \<open>
  C28. The hooks leave the Lua stack as they found it: the connect hook whatever it does, fails or
  returns; the disconnect hook, which always comes back to the caller; and the data hook whenever it
  gives a verdict.
\<close>

theorem hooks_balanced:
  assumes "lua_ok A"
  shows "(\<exists>s M. sm3t__hook_on_connect A (Some L) ctx = (s, Some M) \<and> l_stack A M = l_stack A L)
    \<and> (\<exists>M. sm3t__hook_on_disconnect A (Some L) ctx = Some M \<and> l_stack A M = l_stack A L)
    \<and> (\<forall>s L' b n. sm3t__hook_on_data A (Some L) ctx buf len dir = Inr (s, L', b, n) \<longrightarrow>
         (\<exists>M. L' = Some M \<and> l_stack A M = l_stack A L))"
proof (intro conjI allI impI)
  show "\<exists>s M. sm3t__hook_on_connect A (Some L) ctx = (s, Some M) \<and> l_stack A M = l_stack A L"
    using hook_on_connect_balanced [OF assms, of L ctx] by (cases "sm3t__hook_on_connect A (Some L) ctx") auto
  show "\<exists>M. sm3t__hook_on_disconnect A (Some L) ctx = Some M \<and> l_stack A M = l_stack A L"
    by (rule hook_on_disconnect_balanced [OF assms])
  show "\<exists>M. L' = Some M \<and> l_stack A M = l_stack A L"
    if "sm3t__hook_on_data A (Some L) ctx buf len dir = Inr (s, L', b, n)" for s L' b n
    by (rule hook_on_data_balanced [OF assms that])
qed

section \<open>What becomes of the data\<close>

text \<open>
  The value the hook returned decides: a string of 1 to 1023 bytes replaces the data, an empty one
  lets it pass, a longer one drops the connection; exactly 1024 bytes are stored and the end mark is
  written behind the buffer; a number makes \<open>luaL_len\<close> raise an error; anything else drops.
\<close>

fun on_data_verdict ::
  "lval \<Rightarrow> byte list \<Rightarrow> int \<Rightarrow> (sm3t_hook_status_t \<times> byte list \<times> int) cres" where
  "on_data_verdict (LStr s) buf len =
     (if s = [] then Inr (SM3T_HOOK_PASS, buf, len)
      else if length s < SM3T_BUFFER_SIZE
      then Inr (SM3T_HOOK_PASS, s @ CHR 0x00 # drop (length s + 1) buf, int (length s))
      else if length s = SM3T_BUFFER_SIZE then Inl Out_Of_Bounds
      else Inr (SM3T_HOOK_DROP, buf, len))"
| "on_data_verdict (LInt n) buf len = Inl Lua_Panic"
| "on_data_verdict (LNum x) buf len = Inl Lua_Panic"
| "on_data_verdict _ buf len = Inr (SM3T_HOOK_DROP, buf, len)"

lemma list_update_append_drop:
  "length s < length buf \<Longrightarrow> (s @ drop (length s) buf)[length s := b] = s @ b # drop (length s + 1) buf"
  by (simp add: list_update_append Cons_nth_drop_Suc [symmetric])

lemma hook_data_result_verdict:
  assumes "l_stack A L = st @ [r]" and "length buf = SM3T_BUFFER_SIZE"
  shows "hook_data_result A L buf len =
           cbind (on_data_verdict r buf len) (\<lambda>(st, buf, n). Inr (st, l_pop A 2 L, buf, n))"
proof -
  have v: "lua_value A L (-1) = Some r" using lua_value_top [OF assms(1)] .
  show ?thesis
  proof (cases r)
    case (LStr s)
    consider "s = []" | "s \<noteq> []" "length s < SM3T_BUFFER_SIZE" | "length s = SM3T_BUFFER_SIZE"
      | "length s > SM3T_BUFFER_SIZE" by linarith
    then show ?thesis
      using v LStr assms(2) list_update_append_drop [of s buf "CHR 0x00"]
      by cases (auto simp: hook_data_result_def lua_isstring_def luaL_len_string_def lua_tostring_def
          buf_copy_def buf_store_def SM3T_BUFFER_SIZE_def)
  qed (use v in \<open>simp_all add: hook_data_result_def lua_isstring_def luaL_len_string_def\<close>)
qed

text \<open>
  C21. A data hook that is found and returns decides what is forwarded: a string of 1 to 1023 bytes
  replaces the data, the empty string lets the data pass as it is, a string of more than 1024 bytes
  or a value that is neither string nor number drops the connection. A string of exactly 1024 bytes
  makes the code write behind the buffer, and a number aborts the process.
\<close>

theorem on_data_verdict_followed:
  assumes A: "lua_ok A" and p: "push_hook A ''on_data'' L = (True, L1)"
    and c: "l_pcall A 3 (Some 1) (l_push A (LInt (direction_code dir))
              (l_push A (LStr (take (nat len) buf)) (l_push A (LLight ctx) L1))) = (True, L3)"
    and n: "0 \<le> len" "len \<le> int (length buf)" and buf: "length buf = SM3T_BUFFER_SIZE"
  shows "\<exists>u r. l_stack A L3 = l_stack A L @ [LTable u, r]
           \<and> sm3t__hook_on_data A (Some L) ctx buf len dir =
               cbind (on_data_verdict r buf len) (\<lambda>(st, buf, n). Inr (st, Some (l_pop A 2 L3), buf, n))"
proof -
  let ?L2 = "l_push A (LInt (direction_code dir)) (l_push A (LStr (take (nat len) buf)) (l_push A (LLight ctx) L1))"
  have "l_stack A ?L2 = l_stack A L1 @ [LLight ctx, LStr (take (nat len) buf), LInt (direction_code dir)]"
    using lua_push_simps(1) [OF A] by simp
  from hook_pcall_stack [OF A p this _ c] obtain u r where st: "l_stack A L3 = l_stack A L @ [LTable u, r]"
    by (auto simp: length_Suc_conv)
  then have "l_stack A L3 = (l_stack A L @ [LTable u]) @ [r]" by simp
  from hook_data_result_verdict [OF this buf, of len] st p c n show ?thesis
    by (auto simp: sm3t__hook_on_data_def buf_read_def cbind_assoc case_prod_unfold)
qed

end
