(* ===== verification/Sm3t_Ctx.thy ===== *)
theory Sm3t_Ctx
  imports Sm3t_Hooks
begin

unbundle bit_operations_syntax

text \<open>
  Connection contexts and the relay between the two ends of a proxied connection
  (\<open>src/proxy/sm3t_ctx.c\<close>, types in \<open>include/sm3t_proxy.h\<close>).

  Contexts live in an explicit heap, a map from addresses, because the handler of one context
  writes through \<open>ctx->peer\<close>; a freed context is absent, and reaching it is \<open>Use_After_Free\<close>. The
  field \<open>L\<close> of a context always holds the process's one Lua state, which the machine state carries.
  Log calls have no effect on the state and are left out.
\<close>

section \<open>Contexts and the machine state\<close>

record sm3t_metadata_t =
  md_port :: int
  md_addr :: string

record sm3t_context_t =
  c_fd :: int
  c_events :: "32 word"
  c_peer :: "addr option"
  c_meta :: sm3t_metadata_t
  c_read_eof :: bool
  c_write_eof :: bool
  c_wlen :: int
  c_wstart :: int
  c_wpartial :: bool
  c_buffer :: "byte list"

record 'l mach =
  m_heap :: "addr \<Rightarrow> sm3t_context_t option"
  m_trace :: trace
  m_lua :: 'l

definition ctx_at :: "'l mach \<Rightarrow> addr \<Rightarrow> sm3t_context_t cres" where
  "ctx_at m a = (case m_heap m a of None \<Rightarrow> Inl Use_After_Free | Some c \<Rightarrow> Inr c)"

definition upd_ctx :: "addr \<Rightarrow> (sm3t_context_t \<Rightarrow> sm3t_context_t) \<Rightarrow> 'l mach \<Rightarrow> 'l mach" where
  "upd_ctx a f m = m\<lparr>m_heap := (m_heap m)(a := map_option f (m_heap m a))\<rparr>"

definition msys :: "env \<Rightarrow> syscall \<Rightarrow> 'l mach \<Rightarrow> sysret \<times> 'l mach" where
  "msys env c m = (let (r, tr) = sys env c (m_trace m) in (r, m\<lparr>m_trace := tr\<rparr>))"

section \<open>Creation and release\<close>

text \<open>
  \<open>malloc\<close> returns the null pointer (\<open>None\<close>) or the address of an object with whatever contents it
  happens to have; nothing but \<open>L\<close> is initialised.
\<close>

definition sm3t__new_ctx :: "(addr \<times> sm3t_context_t) option \<Rightarrow> 'l mach \<Rightarrow> (addr \<times> 'l mach) cres" where
  "sm3t__new_ctx malloc m =
     (case malloc of None \<Rightarrow> Inl Exit_Failure
      | Some (a, junk) \<Rightarrow> Inr (a, m\<lparr>m_heap := (m_heap m)(a \<mapsto> junk)\<rparr>))"

definition sm3t__cleanup_ctx :: "'l lua_api \<Rightarrow> env \<Rightarrow> 'l mach \<Rightarrow> addr option \<Rightarrow> 'l mach cres" where
  "sm3t__cleanup_ctx A env m context =
     (case context of None \<Rightarrow> Inl Null_Deref
      | Some a \<Rightarrow>
          cbind (ctx_at m a) (\<lambda>ctx.
            let m = (case sm3t__hook_on_disconnect A (Some (m_lua m)) a of
                       None \<Rightarrow> m | Some L \<Rightarrow> m\<lparr>m_lua := L\<rparr>);
                m = (if c_fd ctx > 0 then snd (msys env (Sys_Close (c_fd ctx)) m) else m)
            in Inr (m\<lparr>m_heap := (m_heap m)(a := None)\<rparr>)))"

section \<open>The relay handler\<close>

text \<open>\<open>peer->peer = NULL; ctx->peer = NULL;\<close>\<close>

definition detach :: "addr \<Rightarrow> addr \<Rightarrow> 'l mach \<Rightarrow> 'l mach" where
  "detach a b m = upd_ctx a (\<lambda>c. c\<lparr>c_peer := None\<rparr>) (upd_ctx b (\<lambda>c. c\<lparr>c_peer := None\<rparr>) m)"

definition arm :: "env \<Rightarrow> int \<Rightarrow> int \<Rightarrow> addr \<Rightarrow> 32 word \<Rightarrow> 'l mach \<Rightarrow> 'l mach" where
  "arm env epoll_fd fd a evs m = m\<lparr>m_trace :=
     snd (sm3t_modify_poll env epoll_fd fd \<lparr>ev_events = evs, ev_data = a\<rparr> (m_trace m))\<rparr>"

text \<open>The context is writable and has queued bytes: send them.\<close>

definition flush_queued ::
  "env \<Rightarrow> int \<Rightarrow> addr \<Rightarrow> sm3t_context_t \<Rightarrow> addr \<Rightarrow> sm3t_context_t \<Rightarrow> 'l mach \<Rightarrow> (bool \<times> 'l mach) cres" where
  "flush_queued env epoll_fd a ctx b peer m =
     cbind (buf_read (c_buffer ctx) (c_wstart ctx) (c_wlen ctx)) (\<lambda>bs.
       let (r, m) = msys env (Sys_Send (c_fd ctx) bs) m; n_sent = sr_ret r in
       if n_sent = SM3T__ERR then
         if would_block (sr_errno r) then Inr (True, m) else Inr (False, detach a b m)
       else if n_sent = 0 then
         Inr (False, detach a b (upd_ctx a (\<lambda>c. c\<lparr>c_write_eof := True\<rparr>) m))
       else
         cbind (i32 (c_wstart ctx + n_sent)) (\<lambda>wstart.
         cbind (i32 (c_wlen ctx - n_sent)) (\<lambda>wlen.
           let m = upd_ctx a (\<lambda>c. c\<lparr>c_wstart := wstart, c_wlen := wlen\<rparr>) m in
           if wlen = 0 then
             let m = upd_ctx a (\<lambda>c. c\<lparr>c_wstart := 0, c_wpartial := False\<rparr>) m;
                 m = arm env epoll_fd (c_fd ctx) a (EPOLLIN OR EPOLLRDHUP) m;
                 m = arm env epoll_fd (c_fd peer) b (EPOLLIN OR EPOLLRDHUP) m
             in Inr (True, m)
           else Inr (True, m))))"

text \<open>
  Bytes the peer did not accept are copied to the peer's buffer; reading from this context is
  suspended and the peer waits to become writable.
\<close>

definition queue_rest ::
  "env \<Rightarrow> int \<Rightarrow> addr \<Rightarrow> int \<Rightarrow> addr \<Rightarrow> byte list \<Rightarrow> 'l mach \<Rightarrow> (bool \<times> 'l mach) cres" where
  "queue_rest env epoll_fd a fd b bs m =
     cbind (ctx_at m b) (\<lambda>peer.
     cbind (buf_copy (c_buffer peer) bs) (\<lambda>buf.
       let m = upd_ctx b (\<lambda>c. c\<lparr>c_buffer := buf, c_wpartial := True, c_wstart := 0,
                                c_wlen := int (length bs)\<rparr>) m;
           m = arm env epoll_fd fd a EPOLLRDHUP m;
           m = arm env epoll_fd (c_fd peer) b (EPOLLIN OR EPOLLOUT OR EPOLLRDHUP) m
       in Inr (True, m)))"

text \<open>Send \<open>n_recv\<close> bytes of this context's buffer to the peer.\<close>

definition send_on ::
  "env \<Rightarrow> int \<Rightarrow> addr \<Rightarrow> int \<Rightarrow> addr \<Rightarrow> int \<Rightarrow> byte list \<Rightarrow> int \<Rightarrow> 'l mach \<Rightarrow> (bool \<times> 'l mach) cres" where
  "send_on env epoll_fd a fd b fd_out buff n_recv m =
     cbind (buf_read buff 0 n_recv) (\<lambda>bs.
       let (r, m) = msys env (Sys_Send fd_out bs) m; n_sent = sr_ret r in
       if n_sent = SM3T__ERR then
         if would_block (sr_errno r) then queue_rest env epoll_fd a fd b bs m
         else Inr (False, detach a b m)
       else if n_sent = 0 then
         let m = upd_ctx b (\<lambda>c. c\<lparr>c_write_eof := True\<rparr>) m;
             m = snd (msys env (Sys_Shutdown_Wr fd_out) m)
         in Inr (False, detach a b m)
       else if n_sent < n_recv then
         queue_rest env epoll_fd a fd b (drop (nat n_sent) bs) m
       else Inr (True, m))"

text \<open>\<open>CHECK_HUP\<close>, and the same steps when the context reports end of file.\<close>

definition half_close :: "env \<Rightarrow> addr \<Rightarrow> addr \<Rightarrow> sm3t_context_t \<Rightarrow> 'l mach \<Rightarrow> 'l mach" where
  "half_close env a b peer m =
     (let m = upd_ctx a (\<lambda>c. c\<lparr>c_read_eof := True\<rparr>) m;
          m = upd_ctx b (\<lambda>c. c\<lparr>c_write_eof := True\<rparr>) m;
          m = (if \<not> c_wpartial peer then snd (msys env (Sys_Shutdown_Wr (c_fd peer)) m) else m)
      in detach a b m)"

definition check_hup ::
  "env \<Rightarrow> addr \<Rightarrow> sm3t_context_t \<Rightarrow> addr \<Rightarrow> sm3t_context_t \<Rightarrow> 'l mach \<Rightarrow> (bool \<times> 'l mach) cres" where
  "check_hup env a ctx b peer m =
     (if has_ev (c_events ctx) EPOLLRDHUP then Inr (False, half_close env a b peer m)
      else Inr (True, m))"

text \<open>The context is readable and the peer has nothing queued: read, call the hook, send on.\<close>

definition read_and_forward ::
  "'l lua_api \<Rightarrow> env \<Rightarrow> int \<Rightarrow> addr \<Rightarrow> sm3t_context_t \<Rightarrow> addr \<Rightarrow> sm3t_context_t \<Rightarrow> 'l mach
     \<Rightarrow> (bool \<times> 'l mach) cres" where
  "read_and_forward A env epoll_fd a ctx b peer m =
     (let fd_out = c_fd peer;
          (r, m) = msys env (Sys_Recv (c_fd ctx) (SM3T_BUFFER_SIZE - 1)) m; n_recv = sr_ret r in
      if n_recv = SM3T__ERR then
        if would_block (sr_errno r) then check_hup env a ctx b peer m
        else Inr (False, detach a b m)
      else if n_recv = 0 then Inr (False, half_close env a b peer m)
      else
        cbind (buf_copy (c_buffer ctx) (sr_bytes r)) (\<lambda>buff.
          let m = upd_ctx a (\<lambda>c. c\<lparr>c_buffer := buff\<rparr>) m;
              direction = (if c_fd peer = fd_out then SM3T_CLI_UPS else SM3T_UPT_CLI) in
          cbind (sm3t__hook_on_data A (Some (m_lua m)) a buff n_recv direction) (\<lambda>(st, L, buff, n_recv).
            let m = upd_ctx a (\<lambda>c. c\<lparr>c_buffer := buff\<rparr>)
                      (case L of None \<Rightarrow> m | Some L \<Rightarrow> m\<lparr>m_lua := L\<rparr>) in
            if st = SM3T_HOOK_DROP then Inr (False, detach a b m)
            else send_on env epoll_fd a (c_fd ctx) b fd_out buff n_recv m)))"

definition sm3t__tcp_ctx_handler ::
  "'l lua_api \<Rightarrow> env \<Rightarrow> addr option \<Rightarrow> int \<Rightarrow> 'l mach \<Rightarrow> (bool \<times> 'l mach) cres" where
  "sm3t__tcp_ctx_handler A env context epoll_fd m =
     (case context of None \<Rightarrow> Inr (True, m)
      | Some a \<Rightarrow>
          cbind (ctx_at m a) (\<lambda>ctx.
            if c_peer ctx = None \<and> \<not> c_wpartial ctx then
              Inr (False, upd_ctx a (\<lambda>c. c\<lparr>c_write_eof := True, c_read_eof := True\<rparr>) m)
            else (case c_peer ctx of None \<Rightarrow> Inl Null_Deref
              | Some b \<Rightarrow>
                  cbind (ctx_at m b) (\<lambda>peer.
                    if has_ev (c_events ctx) EPOLLOUT \<and> c_wpartial ctx then
                      flush_queued env epoll_fd a ctx b peer m
                    else if has_ev (c_events ctx) EPOLLIN \<and> \<not> c_wpartial peer then
                      read_and_forward A env epoll_fd a ctx b peer m
                    else check_hup env a ctx b peer m))))"

section \<open>The other handlers\<close>

text \<open>
  The echo handler sends the received bytes again until one \<open>send\<close> takes them all, so it may run for
  ever: \<open>None\<close> is not returning. \<open>ctx->events && EPOLLIN\<close> is a logical conjunction.
\<close>

partial_function (option) echo_loop ::
  "env \<Rightarrow> int \<Rightarrow> byte list \<Rightarrow> int \<Rightarrow> trace \<Rightarrow> trace option" where
  "echo_loop env fd bs n_rcv tr =
     (let (r, tr) = sys env (Sys_Send fd bs) tr in
      if sr_ret r \<noteq> n_rcv then echo_loop env fd bs n_rcv tr else Some tr)"

definition sm3t__tcp_echo :: "env \<Rightarrow> addr \<Rightarrow> 'l mach \<Rightarrow> (bool \<times> 'l mach) cres option" where
  "sm3t__tcp_echo env a m =
     obind (Some (ctx_at m a)) (\<lambda>ctx.
       if has_ev (c_events ctx) EPOLLRDHUP then Some (Inr (False, m))
       else if c_events ctx \<noteq> 0 then
         let (r, m) = msys env (Sys_Recv (c_fd ctx) (SM3T_BUFFER_SIZE - 1)) m; n_rcv = sr_ret r in
         if n_rcv > 0 then
           obind (Some (buf_copy (c_buffer ctx) (sr_bytes r))) (\<lambda>buf.
           obind (Some (buf_read buf 0 n_rcv)) (\<lambda>bs.
             let m = upd_ctx a (\<lambda>c. c\<lparr>c_buffer := buf\<rparr>) m;
                 m = snd (msys env (Sys_Send (c_fd ctx) (''ECHO: '' @ [CHR 0x00])) m)
             in (case echo_loop env (c_fd ctx) bs n_rcv (m_trace m) of
                   None \<Rightarrow> None | Some tr \<Rightarrow> Some (Inr (True, m\<lparr>m_trace := tr\<rparr>)))))
         else Some (Inr (False, m))
       else Some (Inr (True, m)))"

definition sm3t__socks5__ctx_handler :: "'l mach \<Rightarrow> bool \<times> 'l mach" where
  "sm3t__socks5__ctx_handler m = (False, m)"

end
