(* ===== verification/Sm3t_Relay.thy ===== *)
theory Sm3t_Relay
  imports Sm3t_Ctx "HOL-Library.Sublist"
begin

unbundle bit_operations_syntax

text \<open>
  What the relay does to the byte streams of a connection. Two contexts are \<open>linked\<close> when they
  point at each other and, counted from position \<open>t\<close> of the trace (the moment the connection was
  set up), what was received from either end is what was accepted by the other end followed by what
  is still queued for it. The handler keeps two contexts linked as long as no context with queued
  bytes is handed a readiness event without \<open>EPOLLOUT\<close>.
\<close>

section \<open>Linked contexts\<close>

definition pending :: "sm3t_context_t \<Rightarrow> byte list" where
  "pending c = (if c_wpartial c then take (nat (c_wlen c)) (drop (nat (c_wstart c)) (c_buffer c)) else [])"

definition ctx_ok :: "sm3t_context_t \<Rightarrow> bool" where
  "ctx_ok c \<longleftrightarrow> length (c_buffer c) = SM3T_BUFFER_SIZE
     \<and> (c_wpartial c \<longrightarrow> 0 \<le> c_wstart c \<and> 0 < c_wlen c \<and> c_wstart c + c_wlen c \<le> int SM3T_BUFFER_SIZE)"

definition peered :: "addr \<Rightarrow> addr \<Rightarrow> sm3t_context_t \<Rightarrow> sm3t_context_t \<Rightarrow> bool" where
  "peered a b ca cb \<longleftrightarrow> a \<noteq> b \<and> c_peer ca = Some b \<and> c_peer cb = Some a \<and> c_fd ca \<noteq> c_fd cb
     \<and> ctx_ok ca \<and> ctx_ok cb \<and> \<not> (c_wpartial ca \<and> c_wpartial cb)"

text \<open>Everything received from \<open>ca\<close> has reached \<open>cb\<close>, in order, up to what is queued for \<open>cb\<close>.\<close>

definition relayed :: "trace \<Rightarrow> sm3t_context_t \<Rightarrow> sm3t_context_t \<Rightarrow> bool" where
  "relayed tr ca cb \<longleftrightarrow> recvd (c_fd ca) tr = sent (c_fd cb) tr @ pending cb"

definition linked :: "('l \<Rightarrow> bool) \<Rightarrow> nat \<Rightarrow> addr \<Rightarrow> addr \<Rightarrow> 'l mach \<Rightarrow> bool" where
  "linked Q t a b m \<longleftrightarrow> t \<le> length (m_trace m) \<and> Q (m_lua m) \<and>
     (\<exists>ca cb. m_heap m a = Some ca \<and> m_heap m b = Some cb \<and> peered a b ca cb
        \<and> relayed (drop t (m_trace m)) ca cb \<and> relayed (drop t (m_trace m)) cb ca)"

text \<open>
  When the handler gives up the connection it takes the two contexts apart. What either end accepted
  is then still a prefix of what was received from the other one.
\<close>

definition prefixed :: "trace \<Rightarrow> sm3t_context_t \<Rightarrow> sm3t_context_t \<Rightarrow> bool" where
  "prefixed tr ca cb \<longleftrightarrow> prefix (sent (c_fd cb) tr) (recvd (c_fd ca) tr)"

definition ends :: "('l \<Rightarrow> bool) \<Rightarrow> nat \<Rightarrow> addr \<Rightarrow> addr \<Rightarrow> (sm3t_context_t \<Rightarrow> bool) \<Rightarrow> 'l mach \<Rightarrow> bool" where
  "ends Q t a b P m \<longleftrightarrow> t \<le> length (m_trace m) \<and> Q (m_lua m) \<and> a \<noteq> b \<and>
     (\<exists>ca cb. m_heap m a = Some ca \<and> m_heap m b = Some cb \<and> P ca \<and> P cb
        \<and> prefixed (drop t (m_trace m)) ca cb \<and> prefixed (drop t (m_trace m)) cb ca)"

abbreviation severed :: "('l \<Rightarrow> bool) \<Rightarrow> nat \<Rightarrow> addr \<Rightarrow> addr \<Rightarrow> 'l mach \<Rightarrow> bool" where
  "severed Q t a b \<equiv> ends Q t a b (\<lambda>c. c_peer c = None)"

definition settled :: "('l \<Rightarrow> bool) \<Rightarrow> nat \<Rightarrow> addr \<Rightarrow> addr \<Rightarrow> bool \<Rightarrow> 'l mach \<Rightarrow> bool" where
  "settled Q t a b k m \<longleftrightarrow> (if k then linked Q t a b m else severed Q t a b m)"

text \<open>
  A hook that lets data pass unchanged, in every Lua state of a class \<open>Q\<close> that it does not leave.
\<close>

definition hook_transparent :: "'l lua_api \<Rightarrow> ('l \<Rightarrow> bool) \<Rightarrow> bool" where
  "hook_transparent A Q \<longleftrightarrow> (\<forall>L a buf n dir. Q L \<longrightarrow> length buf = SM3T_BUFFER_SIZE \<longrightarrow> 0 < n \<longrightarrow>
     n < int SM3T_BUFFER_SIZE \<longrightarrow>
     (\<exists>L' buf'. sm3t__hook_on_data A (Some L) a buf n dir = Inr (SM3T_HOOK_PASS, Some L', buf', n)
        \<and> Q L' \<and> length buf' = SM3T_BUFFER_SIZE \<and> take (nat n) buf' = take (nat n) buf))"

section \<open>The machine under the relay's updates\<close>

named_theorems mach_simps \<open>heap and trace after an update\<close>

lemma upd_ctx_simps [mach_simps]:
  "m_heap (upd_ctx a f m) x = (if x = a then map_option f (m_heap m a) else m_heap m x)"
  "m_trace (upd_ctx a f m) = m_trace m"
  "m_lua (upd_ctx a f m) = m_lua m"
  by (simp_all add: upd_ctx_def)

lemma arm_simps [mach_simps]:
  "m_heap (arm env e fd a evs m) = m_heap m"
  "m_lua (arm env e fd a evs m) = m_lua m"
  "\<exists>r. m_trace (arm env e fd a evs m) = m_trace m @
     [(Sys_Epoll_Ctl EPOLL_CTL_MOD e fd (Some \<lparr>ev_events = evs, ev_data = a\<rparr>), r)]"
  by (simp_all add: arm_def modify_poll_trace)

lemma arm_moves_no_bytes [mach_simps]:
  assumes "t \<le> length (m_trace m)"
  shows "sent f (drop t (m_trace (arm env e fd a evs m))) = sent f (drop t (m_trace m))"
    and "recvd f (drop t (m_trace (arm env e fd a evs m))) = recvd f (drop t (m_trace m))"
    and "t \<le> length (m_trace (arm env e fd a evs m))"
  using assms by (simp_all add: arm_def modify_poll_trace)

lemma msys_simps [mach_simps]:
  "fst (msys env c m) = env (m_trace m) c"
  "m_heap (snd (msys env c m)) = m_heap m"
  "m_lua (snd (msys env c m)) = m_lua m"
  "m_trace (snd (msys env c m)) = m_trace m @ [(c, env (m_trace m) c)]"
  by (simp_all add: msys_def sys_def Let_def)

lemma msys_pair: "msys env c m = (env (m_trace m) c, m\<lparr>m_trace := m_trace m @ [(c, env (m_trace m) c)]\<rparr>)"
  by (simp add: msys_def sys_def Let_def)

lemma linkedI:
  assumes "t \<le> length (m_trace m)" "Q (m_lua m)" "m_heap m a = Some ca" "m_heap m b = Some cb" "peered a b ca cb"
    and "relayed (drop t (m_trace m)) ca cb" "relayed (drop t (m_trace m)) cb ca"
  shows "linked Q t a b m"
  using assms by (auto simp: linked_def)

lemma peered_sym: "peered a b ca cb \<longleftrightarrow> peered b a cb ca"
  by (auto simp: peered_def)

lemma linked_sym: "linked Q t a b m \<longleftrightarrow> linked Q t b a m"
  using peered_sym by (fastforce simp: linked_def)

lemma SM3T_ERR_neg [simp]: "SM3T__ERR = -1"
  by (simp add: SM3T__ERR_def)

lemma settled_sym: "settled Q t a b k m \<longleftrightarrow> settled Q t b a k m"
  using linked_sym [of Q t a b m] by (auto simp: settled_def ends_def)

section \<open>Taking a connection apart\<close>

lemma linked_ends: "linked Q t a b m \<Longrightarrow> ends Q t a b (\<lambda>_. True) m"
  by (auto simp: linked_def ends_def prefixed_def relayed_def peered_def)

lemma ends_upd:
  assumes "ends Q t a b P m" and "\<And>c. c_fd (f c) = c_fd c" and "\<And>c. P c \<Longrightarrow> P' c" and "\<And>c. P c \<Longrightarrow> P' (f c)"
  shows "ends Q t a b P' (upd_ctx x f m)"
  using assms by (fastforce simp: ends_def prefixed_def mach_simps)

lemma ends_shutdown: "ends Q t a b P m \<Longrightarrow> ends Q t a b P (snd (msys env (Sys_Shutdown_Wr fd) m))"
  by (auto simp: ends_def prefixed_def mach_simps)

lemma ends_detach: "ends Q t a b P m \<Longrightarrow> severed Q t a b (detach a b m)"
  by (fastforce simp: ends_def prefixed_def detach_def mach_simps)

lemma ends_any: "ends Q t a b P m \<Longrightarrow> ends Q t a b (\<lambda>_. True) m"
  by (auto simp: ends_def)

lemma ends_half_close:
  assumes "ends Q t a b P m"
  shows "severed Q t a b (half_close env a b peer m)"
proof -
  let ?m = "upd_ctx b (\<lambda>c. c\<lparr>c_write_eof := True\<rparr>) (upd_ctx a (\<lambda>c. c\<lparr>c_read_eof := True\<rparr>) m)"
  have "ends Q t a b (\<lambda>_. True) ?m"
    by (rule ends_upd [where P = "\<lambda>_. True"], rule ends_upd [where P = "\<lambda>_. True"])
       (simp_all add: ends_any [OF assms])
  then show ?thesis by (auto simp: half_close_def Let_def intro: ends_detach ends_shutdown)
qed

section \<open>Flushing\<close>

lemma pending_length: "ctx_ok c \<Longrightarrow> c_wpartial c \<Longrightarrow> int (length (pending c)) = c_wlen c"
  by (auto simp: pending_def ctx_ok_def SM3T_BUFFER_SIZE_def)

lemma buf_read_pending:
  "ctx_ok c \<Longrightarrow> c_wpartial c \<Longrightarrow> buf_read (c_buffer c) (c_wstart c) (c_wlen c) = Inr (pending c)"
  by (simp add: buf_read_def pending_def ctx_ok_def)

lemma pending_advance:
  assumes "ctx_ok c" "c_wpartial c" "0 < n" "n < c_wlen c"
  shows "pending (c\<lparr>c_wstart := c_wstart c + n, c_wlen := c_wlen c - n\<rparr>) = drop (nat n) (pending c)"
    and "ctx_ok (c\<lparr>c_wstart := c_wstart c + n, c_wlen := c_wlen c - n\<rparr>)"
proof -
  have "nat (c_wstart c + n) = nat n + nat (c_wstart c)" "nat (c_wlen c - n) = nat (c_wlen c) - nat n"
    using assms by (auto simp: ctx_ok_def)
  then show "pending (c\<lparr>c_wstart := c_wstart c + n, c_wlen := c_wlen c - n\<rparr>) = drop (nat n) (pending c)"
    using assms(2) by (simp add: pending_def drop_take)
  show "ctx_ok (c\<lparr>c_wstart := c_wstart c + n, c_wlen := c_wlen c - n\<rparr>)"
    using assms by (auto simp: ctx_ok_def)
qed

lemma peered_flags:
  "peered a b ca cb \<Longrightarrow> ctx_ok ca' \<Longrightarrow> c_peer ca' = c_peer ca \<Longrightarrow> c_fd ca' = c_fd ca \<Longrightarrow>
     (c_wpartial ca' \<Longrightarrow> c_wpartial ca) \<Longrightarrow> peered a b ca' cb"
  by (auto simp: peered_def)

text \<open>Some or all of the queued bytes have been sent.\<close>

lemma flushed_part_linked:
  assumes t: "t \<le> length (m_trace m)" "Q (m_lua m)" and h: "m_heap m a = Some ca" "m_heap m b = Some cb"
    and p: "peered a b ca cb" and s: "relayed (drop t (m_trace m)) ca cb" "relayed (drop t (m_trace m)) cb ca"
    and w: "c_wpartial ca" and n: "0 < sr_ret r" "sr_ret r < c_wlen ca"
  shows "linked Q t a b (upd_ctx a (\<lambda>c. c\<lparr>c_wstart := c_wstart ca + sr_ret r, c_wlen := c_wlen ca - sr_ret r\<rparr>)
           (m\<lparr>m_trace := m_trace m @ [(Sys_Send (c_fd ca) (pending ca), r)]\<rparr>))"
proof -
  let ?ca = "ca\<lparr>c_wstart := c_wstart ca + sr_ret r, c_wlen := c_wlen ca - sr_ret r\<rparr>"
  have ca: "ctx_ok ca" and ab: "a \<noteq> b" "c_fd ca \<noteq> c_fd cb" using p by (auto simp: peered_def)
  have "peered a b ?ca cb" using p pending_advance(2) [OF ca w n] by (rule peered_flags) auto
  then show ?thesis
    using s t ab h pending_advance(1) [OF ca w n]
    by (intro linkedI [of _ _ _ _ ?ca _ cb]) (simp_all add: relayed_def mach_simps)
qed

lemma flushed_all_linked:
  assumes t: "t \<le> length (m_trace m)" "Q (m_lua m)" and h: "m_heap m a = Some ca" "m_heap m b = Some cb"
    and p: "peered a b ca cb" and s: "relayed (drop t (m_trace m)) ca cb" "relayed (drop t (m_trace m)) cb ca"
    and w: "c_wpartial ca" and n: "sr_ret r = c_wlen ca"
  shows "linked Q t a b (upd_ctx a (\<lambda>c. c\<lparr>c_wstart := 0, c_wpartial := False\<rparr>)
           (upd_ctx a (\<lambda>c. c\<lparr>c_wstart := k, c_wlen := 0\<rparr>)
             (m\<lparr>m_trace := m_trace m @ [(Sys_Send (c_fd ca) (pending ca), r)]\<rparr>)))"
proof -
  let ?ca = "ca\<lparr>c_wstart := 0, c_wlen := 0, c_wpartial := False\<rparr>"
  have ca: "ctx_ok ca" and ab: "a \<noteq> b" "c_fd ca \<noteq> c_fd cb" using p by (auto simp: peered_def)
  have "peered a b ?ca cb" using p ca by (auto simp: peered_def ctx_ok_def)
  moreover have "take (nat (sr_ret r)) (pending ca) = pending ca" using n pending_length [OF ca w] by simp
  ultimately show ?thesis
    using s t ab h
    by (intro linkedI [of _ _ _ _ ?ca _ cb]) (simp_all add: relayed_def mach_simps pending_def [of ?ca])
qed

text \<open>A call that transfers nothing.\<close>

lemma linked_idle:
  assumes "linked Q t a b m" and "\<And>fd. sent_by fd u = [] \<and> recvd_by fd u = []"
  shows "linked Q t a b (m\<lparr>m_trace := m_trace m @ [u]\<rparr>)"
  using assms by (auto simp: linked_def relayed_def)

lemma arm_linked: "linked Q t a b m \<Longrightarrow> linked Q t a b (arm env e fd x evs m)"
  by (auto simp: linked_def relayed_def mach_simps)

text \<open>The socket takes nothing, for now or for good.\<close>

lemma flush_refused:
  assumes l: "linked Q t a b m" and c: "ctx_ok ca" "c_wpartial ca"
    and n: "sr_ret (env (m_trace m) (Sys_Send (c_fd ca) (pending ca))) \<in> {-1, 0}"
  shows "\<exists>k m'. flush_queued env e a ca b cb m = Inr (k, m') \<and> settled Q t a b k m'"
proof -
  let ?c = "Sys_Send (c_fd ca) (pending ca)"
  let ?m1 = "m\<lparr>m_trace := m_trace m @ [(?c, env (m_trace m) ?c)]\<rparr>"
  let ?m2 = "upd_ctx a (\<lambda>c. c\<lparr>c_write_eof := True\<rparr>) ?m1"
  have l1: "linked Q t a b ?m1" using n by (intro linked_idle [OF l]) auto
  then have e2: "ends Q t a b (\<lambda>_. True) ?m2" using linked_ends by (intro ends_upd) auto
  have d: "severed Q t a b (detach a b ?m1)" "severed Q t a b (detach a b ?m2)"
    by (rule ends_detach [OF linked_ends [OF l1]], rule ends_detach [OF e2])
  from n consider "sr_ret (env (m_trace m) ?c) = -1" | "sr_ret (env (m_trace m) ?c) = 0" by auto
  then show ?thesis
    by cases (use l1 d in \<open>simp_all add: settled_def flush_queued_def buf_read_pending [OF c] msys_pair ex_bool_eq\<close>)
qed

lemma flush_queued_linked:
  assumes ok: "send_ok env" and t: "t \<le> length (m_trace m)" "Q (m_lua m)"
    and h: "m_heap m a = Some ca" "m_heap m b = Some cb" and p: "peered a b ca cb"
    and s: "relayed (drop t (m_trace m)) ca cb" "relayed (drop t (m_trace m)) cb ca"
    and w: "c_wpartial ca"
  shows "\<exists>k m'. flush_queued env e a ca b cb m = Inr (k, m') \<and> settled Q t a b k m'"
proof -
  have ca: "ctx_ok ca" using p by (simp add: peered_def)
  let ?c = "Sys_Send (c_fd ca) (pending ca)"
  let ?r = "env (m_trace m) ?c"
  let ?n = "sr_ret ?r"
  let ?m1 = "m\<lparr>m_trace := m_trace m @ [(?c, ?r)]\<rparr>"
  have wb: "0 \<le> c_wstart ca" "0 < c_wlen ca" "c_wstart ca + c_wlen ca \<le> 1024"
    using ca w by (auto simp: ctx_ok_def SM3T_BUFFER_SIZE_def)
  have n: "?n = -1 \<or> (0 \<le> ?n \<and> ?n \<le> c_wlen ca)"
    using send_okD [OF ok, of "m_trace m" "c_fd ca" "pending ca"] pending_length [OF ca w] by auto
  consider (none) "?n \<in> {-1, 0}" | (part) "0 < ?n" "?n < c_wlen ca" | (all) "?n = c_wlen ca" "0 < ?n"
    using n wb by fastforce
  then show ?thesis
  proof cases
    case none
    from flush_refused [where env = env and Q = Q and t = t and m = m and ca = ca, OF linkedI [where Q = Q, OF t h p s] ca w none] show ?thesis .
  next
    case part
    have "flush_queued env e a ca b cb m
        = Inr (True, upd_ctx a (\<lambda>c. c\<lparr>c_wstart := c_wstart ca + ?n, c_wlen := c_wlen ca - ?n\<rparr>) ?m1)"
      using part wb by (simp add: flush_queued_def buf_read_pending [OF ca w] msys_pair int_range Let_def)
    then show ?thesis using flushed_part_linked [where Q = Q, OF t h p s w part] by (auto simp: settled_def)
  next
    case all
    let ?m2 = "upd_ctx a (\<lambda>c. c\<lparr>c_wstart := 0, c_wpartial := False\<rparr>)
      (upd_ctx a (\<lambda>c. c\<lparr>c_wstart := c_wstart ca + ?n, c_wlen := 0\<rparr>) ?m1)"
    have "flush_queued env e a ca b cb m = Inr (True, arm env e (c_fd cb) b (EPOLLIN OR EPOLLRDHUP)
        (arm env e (c_fd ca) a (EPOLLIN OR EPOLLRDHUP) ?m2))"
      using all wb by (simp add: flush_queued_def buf_read_pending [OF ca w] msys_pair int_range)
    then show ?thesis
      using arm_linked [OF arm_linked [OF flushed_all_linked [where Q = Q, OF t h p s w all(1)]]] by (auto simp: settled_def)
  qed
qed

section \<open>Reading and sending on\<close>

text \<open>
  The state between the \<open>recv\<close> and the \<open>send\<close>: the bytes \<open>bs\<close> have been received from \<open>a\<close> and
  are on their way to \<open>b\<close>.
\<close>

definition in_transit :: "('l \<Rightarrow> bool) \<Rightarrow> nat \<Rightarrow> addr \<Rightarrow> addr \<Rightarrow> byte list \<Rightarrow> 'l mach \<Rightarrow> bool" where
  "in_transit Q t a b bs m \<longleftrightarrow> t \<le> length (m_trace m) \<and> Q (m_lua m) \<and>
     (\<exists>ca cb. m_heap m a = Some ca \<and> m_heap m b = Some cb \<and> peered a b ca cb
        \<and> \<not> c_wpartial ca \<and> \<not> c_wpartial cb
        \<and> recvd (c_fd ca) (drop t (m_trace m)) = sent (c_fd cb) (drop t (m_trace m)) @ bs
        \<and> recvd (c_fd cb) (drop t (m_trace m)) = sent (c_fd ca) (drop t (m_trace m)))"

lemma queue_rest_linked:
  assumes "in_transit Q t a b bs m" and "bs \<noteq> []" and "length bs \<le> SM3T_BUFFER_SIZE"
  shows "\<exists>m'. queue_rest env e a fd b bs m = Inr (True, m') \<and> linked Q t a b m'"
proof -
  from assms(1) obtain ca cb where h: "m_heap m a = Some ca" "m_heap m b = Some cb"
    and p: "peered a b ca cb" and w: "\<not> c_wpartial ca" "\<not> c_wpartial cb" and t: "t \<le> length (m_trace m)" "Q (m_lua m)"
    and s: "recvd (c_fd ca) (drop t (m_trace m)) = sent (c_fd cb) (drop t (m_trace m)) @ bs"
      "recvd (c_fd cb) (drop t (m_trace m)) = sent (c_fd ca) (drop t (m_trace m))"
    by (auto simp: in_transit_def)
  have ab: "a \<noteq> b" and lb: "length (c_buffer cb) = SM3T_BUFFER_SIZE" using p by (auto simp: peered_def ctx_ok_def)
  let ?buf = "bs @ drop (length bs) (c_buffer cb)"
  let ?f = "\<lambda>c. c\<lparr>c_buffer := ?buf, c_wpartial := True, c_wstart := 0, c_wlen := int (length bs)\<rparr>"
  let ?m1 = "upd_ctx b ?f m"
  let ?m2 = "arm env e fd a EPOLLRDHUP ?m1"
  let ?m3 = "arm env e (c_fd cb) b (EPOLLIN OR EPOLLOUT OR EPOLLRDHUP) ?m2"
  have "queue_rest env e a fd b bs m = Inr (True, ?m3)"
    using h assms(3) lb by (simp add: queue_rest_def ctx_at_def buf_copy_def)
  moreover have "linked Q t a b ?m3"
  proof (rule linkedI)
    show "m_heap ?m3 a = Some ca" "m_heap ?m3 b = Some (?f cb)" using h ab by (simp_all add: mach_simps)
    show "peered a b ca (?f cb)" using p w assms(2,3) lb by (auto simp: peered_def ctx_ok_def)
    have "pending (?f cb) = bs" by (simp add: pending_def)
    then show "relayed (drop t (m_trace ?m3)) ca (?f cb)" using s(1) t by (simp add: relayed_def mach_simps)
    show "relayed (drop t (m_trace ?m3)) (?f cb) ca"
      using s(2) t w by (simp add: relayed_def mach_simps pending_def)
  qed (use t in \<open>simp_all add: mach_simps\<close>)
  ultimately show ?thesis by blast
qed

lemma in_transit_send:
  assumes "in_transit Q t a b bs m" and "m_heap m b = Some cb" and "0 \<le> n" and "n \<le> int (length bs)"
    and "m' = m\<lparr>m_trace := m_trace m @ [(Sys_Send (c_fd cb) bs, r)]\<rparr>" and "nat (sr_ret r) = nat n"
  shows "in_transit Q t a b (drop (nat n) bs) m'"
proof -
  from assms(1,2) obtain ca where "m_heap m a = Some ca" "peered a b ca cb" by (auto simp: in_transit_def)
  then have "c_fd ca \<noteq> c_fd cb" by (simp add: peered_def)
  with assms show ?thesis by (auto simp: in_transit_def)
qed

lemma in_transit_done: "in_transit Q t a b [] m \<Longrightarrow> linked Q t a b m"
  by (auto simp: in_transit_def linked_def relayed_def pending_def)

lemma in_transit_ends: "in_transit Q t a b bs m \<Longrightarrow> ends Q t a b (\<lambda>_. True) m"
  by (auto simp: in_transit_def ends_def prefixed_def peered_def)

text \<open>A send that moved nothing, and a peer that accepts nothing any more.\<close>

lemma in_transit_refused:
  assumes "in_transit Q t a b bs m"
  shows "severed Q t a b (detach a b (snd (msys env (Sys_Shutdown_Wr fd) (upd_ctx b (\<lambda>c. c\<lparr>c_write_eof := True\<rparr>) m))))"
proof -
  have "ends Q t a b (\<lambda>_. True) (upd_ctx b (\<lambda>c. c\<lparr>c_write_eof := True\<rparr>) m)"
    using in_transit_ends [OF assms] by (rule ends_upd) auto
  then show ?thesis by (intro ends_detach ends_shutdown)
qed

lemma send_refused:
  assumes tr: "in_transit Q t a b bs m" and cb: "m_heap m b = Some cb" and rd: "buf_read buff 0 n = Inr bs"
    and bs: "bs \<noteq> []" "length bs \<le> SM3T_BUFFER_SIZE" and n: "sr_ret (env (m_trace m) (Sys_Send (c_fd cb) bs)) \<in> {-1, 0}"
  shows "\<exists>k m'. send_on env e a fd b (c_fd cb) buff n m = Inr (k, m') \<and> settled Q t a b k m'"
proof -
  let ?c = "Sys_Send (c_fd cb) bs"
  let ?r = "env (m_trace m) ?c"
  let ?m1 = "m\<lparr>m_trace := m_trace m @ [(?c, ?r)]\<rparr>"
  have stay: "in_transit Q t a b bs ?m1" using in_transit_send [OF tr cb, of 0 ?m1 ?r] n by auto
  obtain m' where q: "queue_rest env e a fd b bs ?m1 = Inr (True, m')" "linked Q t a b m'"
    using queue_rest_linked [OF stay bs, of env e fd] by auto
  have "severed Q t a b (detach a b ?m1)" by (rule ends_detach [OF in_transit_ends [OF stay]])
  then show ?thesis
    using n q rd in_transit_refused [OF stay, of env "c_fd cb"]
    by (auto simp: settled_def send_on_def msys_pair [of env "Sys_Send (c_fd cb) bs"] Let_def)
qed

lemma send_on_linked:
  assumes ok: "send_ok env" and tr: "in_transit Q t a b bs m" and cb: "m_heap m b = Some cb"
    and n: "0 < n" "n < int SM3T_BUFFER_SIZE" "length buff = SM3T_BUFFER_SIZE" and bs: "bs = take (nat n) buff"
  shows "\<exists>k m'. send_on env e a fd b (c_fd cb) buff n m = Inr (k, m') \<and> settled Q t a b k m'"
proof -
  let ?c = "Sys_Send (c_fd cb) bs"
  let ?r = "env (m_trace m) ?c"
  let ?n = "sr_ret ?r"
  let ?m1 = "m\<lparr>m_trace := m_trace m @ [(?c, ?r)]\<rparr>"
  have rd: "buf_read buff 0 n = Inr bs" using n bs by (simp add: buf_read_def)
  have len: "int (length bs) = n" "bs \<noteq> []" "length bs \<le> SM3T_BUFFER_SIZE" using n bs by auto
  have r: "?n = -1 \<or> (0 \<le> ?n \<and> ?n \<le> n)" using send_okD [OF ok, of "m_trace m" "c_fd cb" bs] len by auto
  consider (none) "?n \<in> {-1, 0}" | (part) "0 < ?n" "?n < n" | (all) "?n = n" using r by fastforce
  then show ?thesis
  proof cases
    case none
    from send_refused [where env = env and m = m and cb = cb and bs = bs, OF tr cb rd len(2,3) none] show ?thesis .
  next
    case part
    have "in_transit Q t a b (drop (nat ?n) bs) ?m1"
      using in_transit_send [OF tr cb, of ?n ?m1 ?r] part len by simp
    moreover have "drop (nat ?n) bs \<noteq> []" "length (drop (nat ?n) bs) \<le> SM3T_BUFFER_SIZE"
      using part len by auto
    ultimately obtain m' where "queue_rest env e a fd b (drop (nat ?n) bs) ?m1 = Inr (True, m')" "linked Q t a b m'"
      using queue_rest_linked [of Q t a b "drop (nat ?n) bs" ?m1 env e fd] by auto
    then show ?thesis using rd part by (auto simp: settled_def send_on_def msys_pair)
  next
    case all
    have "in_transit Q t a b [] ?m1"
      using in_transit_send [OF tr cb, of ?n ?m1 ?r] all len(1) n(1) by simp
    then have "linked Q t a b ?m1" by (rule in_transit_done)
    moreover have "send_on env e a fd b (c_fd cb) buff n m = Inr (True, ?m1)"
      using all n(1) rd by (simp add: send_on_def msys_pair Let_def)
    ultimately show ?thesis by (intro exI conjI) (auto simp: settled_def)
  qed
qed

text \<open>The state after the received bytes went through the hook.\<close>

lemma received_in_transit:
  assumes t: "t \<le> length (m_trace m)" and h: "m_heap m a = Some ca" "m_heap m b = Some cb" and p: "peered a b ca cb"
    and s: "recvd (c_fd ca) (drop t (m_trace m)) = sent (c_fd cb) (drop t (m_trace m))"
      "recvd (c_fd cb) (drop t (m_trace m)) = sent (c_fd ca) (drop t (m_trace m))"
    and w: "\<not> c_wpartial ca" "\<not> c_wpartial cb" and Q: "Q L'" and buf: "length buf = SM3T_BUFFER_SIZE"
    and n: "0 < sr_ret r" "length (sr_bytes r) = nat (sr_ret r)"
  shows "in_transit Q t a b (sr_bytes r) (upd_ctx a (\<lambda>c. c\<lparr>c_buffer := buf\<rparr>) ((upd_ctx a (\<lambda>c. c\<lparr>c_buffer := buf0\<rparr>)
           (m\<lparr>m_trace := m_trace m @ [(Sys_Recv (c_fd ca) k, r)]\<rparr>))\<lparr>m_lua := L'\<rparr>))"
proof -
  have ab: "a \<noteq> b" "c_fd ca \<noteq> c_fd cb" using p by (auto simp: peered_def)
  have "peered a b (ca\<lparr>c_buffer := buf\<rparr>) cb" using p w buf by (auto simp: peered_def ctx_ok_def)
  then show ?thesis
    using h t Q w s ab n unfolding in_transit_def
    by (intro conjI exI [of _ "ca\<lparr>c_buffer := buf\<rparr>"] exI [of _ cb]) (auto simp: mach_simps)
qed

lemma nothing_read:
  assumes l: "linked Q t a b m" and n: "sr_ret (env (m_trace m) (Sys_Recv (c_fd ca) (SM3T_BUFFER_SIZE - 1))) \<in> {-1, 0}"
  shows "\<exists>k m'. read_and_forward A env e a ca b cb m = Inr (k, m') \<and> settled Q t a b k m'"
proof -
  let ?c = "Sys_Recv (c_fd ca) (SM3T_BUFFER_SIZE - 1)"
  let ?m1 = "m\<lparr>m_trace := m_trace m @ [(?c, env (m_trace m) ?c)]\<rparr>"
  have l1: "linked Q t a b ?m1" using n by (intro linked_idle [OF l]) auto
  note d = ends_detach [OF linked_ends [OF l1]] ends_half_close [OF linked_ends [OF l1], of env cb]
  from n consider "sr_ret (env (m_trace m) ?c) = -1" | "sr_ret (env (m_trace m) ?c) = 0" by auto
  then show ?thesis
    by cases (use l1 d in \<open>simp_all add: settled_def read_and_forward_def msys_pair check_hup_def ex_bool_eq\<close>)
qed

lemma read_and_forward_linked:
  assumes ok: "send_ok env" "recv_ok env" and hook: "hook_transparent A Q" and t: "t \<le> length (m_trace m)" "Q (m_lua m)"
    and h: "m_heap m a = Some ca" "m_heap m b = Some cb" and p: "peered a b ca cb"
    and s: "relayed (drop t (m_trace m)) ca cb" "relayed (drop t (m_trace m)) cb ca"
    and w: "\<not> c_wpartial ca" "\<not> c_wpartial cb"
  shows "\<exists>k m'. read_and_forward A env e a ca b cb m = Inr (k, m') \<and> settled Q t a b k m'"
proof -
  let ?c = "Sys_Recv (c_fd ca) (SM3T_BUFFER_SIZE - 1)"
  let ?r = "env (m_trace m) ?c"
  let ?n = "sr_ret ?r"
  have "?n = -1 \<or> (0 \<le> ?n \<and> ?n < int SM3T_BUFFER_SIZE \<and> length (sr_bytes ?r) = nat ?n)"
    using recv_okD [OF ok(2), of "m_trace m" "c_fd ca" "SM3T_BUFFER_SIZE - 1"]
    by (auto simp: SM3T_BUFFER_SIZE_def)
  then consider (none) "?n \<in> {-1, 0}"
    | (data) "0 < ?n" "?n < int SM3T_BUFFER_SIZE" "length (sr_bytes ?r) = nat ?n" by fastforce
  then show ?thesis
  proof cases
    case none
    from nothing_read [where env = env and m = m and ca = ca, OF linkedI [where Q = Q, OF t h p s] none] show ?thesis .
  next
    case data
    let ?bs = "sr_bytes ?r"
    let ?buff = "?bs @ drop (length ?bs) (c_buffer ca)"
    let ?m1 = "m\<lparr>m_trace := m_trace m @ [(?c, ?r)]\<rparr>"
    have ab: "a \<noteq> b" and la: "length (c_buffer ca) = SM3T_BUFFER_SIZE" using p by (auto simp: peered_def ctx_ok_def)
    have cp: "buf_copy (c_buffer ca) ?bs = Inr ?buff" using data la by (simp add: buf_copy_def)
    have "length ?buff = SM3T_BUFFER_SIZE" using data la by simp
    then obtain L' buff' where hk: "sm3t__hook_on_data A (Some (m_lua m)) a ?buff ?n SM3T_CLI_UPS
          = Inr (SM3T_HOOK_PASS, Some L', buff', ?n)"
        "length buff' = SM3T_BUFFER_SIZE" "take (nat ?n) buff' = take (nat ?n) ?buff" "Q L'"
      using hook data t(2) unfolding hook_transparent_def by blast
    let ?m2 = "upd_ctx a (\<lambda>c. c\<lparr>c_buffer := buff'\<rparr>) ((upd_ctx a (\<lambda>c. c\<lparr>c_buffer := ?buff\<rparr>) ?m1)\<lparr>m_lua := L'\<rparr>)"
    have go: "read_and_forward A env e a ca b cb m = send_on env e a (c_fd ca) b (c_fd cb) buff' ?n ?m2"
      using data cp hk by (simp add: read_and_forward_def msys_pair mach_simps Let_def)
    have bs: "?bs = take (nat ?n) buff'" using hk(3) data by simp
    have hb: "m_heap ?m2 b = Some cb" using h ab by (simp add: mach_simps)
    have "in_transit Q t a b ?bs ?m2"
      using s w by (intro received_in_transit [where Q = Q, OF t(1) h p _ _ w hk(4,2) data(1,3)]) (simp_all add: relayed_def pending_def)
    from send_on_linked [OF ok(1) this hb data(1,2) hk(2) bs] show ?thesis unfolding go .
  qed
qed

section \<open>The handler\<close>

lemma tcp_ctx_handler_linked:
  assumes "send_ok env" "recv_ok env" "hook_transparent A Q" and l: "linked Q t a b m"
    and ev: "m_heap m a = Some ca" "c_wpartial ca \<Longrightarrow> has_ev (c_events ca) EPOLLOUT"
  shows "\<exists>k m'. sm3t__tcp_ctx_handler A env (Some a) e m = Inr (k, m') \<and> settled Q t a b k m'"
proof -
  from l ev(1) obtain cb where t: "t \<le> length (m_trace m)" "Q (m_lua m)" and h: "m_heap m b = Some cb"
    and p: "peered a b ca cb"
    and s: "relayed (drop t (m_trace m)) ca cb" "relayed (drop t (m_trace m)) cb ca"
    by (auto simp: linked_def)
  have peer: "c_peer ca = Some b" using p by (simp add: peered_def)
  consider (flush) "has_ev (c_events ca) EPOLLOUT \<and> c_wpartial ca"
    | (read) "\<not> (has_ev (c_events ca) EPOLLOUT \<and> c_wpartial ca)" "has_ev (c_events ca) EPOLLIN \<and> \<not> c_wpartial cb"
    | (hup) "\<not> (has_ev (c_events ca) EPOLLOUT \<and> c_wpartial ca)" "\<not> (has_ev (c_events ca) EPOLLIN \<and> \<not> c_wpartial cb)"
    by blast
  then show ?thesis
  proof cases
    case flush
    then have w: "c_wpartial ca" by simp
    have "sm3t__tcp_ctx_handler A env (Some a) e m = flush_queued env e a ca b cb m"
      using flush ev(1) h peer by (simp add: sm3t__tcp_ctx_handler_def ctx_at_def)
    with flush_queued_linked [where Q = Q, OF assms(1) t ev(1) h p s w] show ?thesis by simp
  next
    case read
    then have "\<not> c_wpartial ca" using ev(2) by blast
    moreover have "sm3t__tcp_ctx_handler A env (Some a) e m = read_and_forward A env e a ca b cb m"
      using read ev(1) h peer by (auto simp: sm3t__tcp_ctx_handler_def ctx_at_def)
    ultimately show ?thesis using read_and_forward_linked [OF assms(1-3) t ev(1) h p s] read by simp
  next
    case hup
    then show ?thesis
      using ev(1) h peer l ends_half_close [OF linked_ends [OF l]]
      by (auto simp: settled_def sm3t__tcp_ctx_handler_def ctx_at_def check_hup_def)
  qed
qed

section \<open>Whole connections\<close>

text \<open>
  One readiness event of a connection, as the server loop handles it: store the reported mask in the
  context and call the handler. The flag says whether the handler wants to go on.
\<close>

definition relay_step ::
  "'l lua_api \<Rightarrow> env \<Rightarrow> int \<Rightarrow> 'l mach \<times> bool \<Rightarrow> addr \<times> 32 word \<Rightarrow> ('l mach \<times> bool) cres" where
  "relay_step A env e s ev =
     (let (m, going) = s; (x, evs) = ev in
      if \<not> going then Inr s
      else cbind (ctx_at m x) (\<lambda>_.
           cbind (sm3t__tcp_ctx_handler A env (Some x) e (upd_ctx x (\<lambda>c. c\<lparr>c_events := evs\<rparr>) m))
             (\<lambda>(going', m'). Inr (m', going'))))"

definition relay_inv :: "('l \<Rightarrow> bool) \<Rightarrow> 'l lua_api \<Rightarrow> env \<Rightarrow> nat \<Rightarrow> addr \<Rightarrow> addr \<Rightarrow> 'l mach \<times> bool \<Rightarrow> bool" where
  "relay_inv Q A env t a b s \<longleftrightarrow> send_ok env \<and> recv_ok env \<and> hook_transparent A Q
     \<and> settled Q t a b (snd s) (fst s)"

text \<open>Readiness reports for \<open>a\<close> or \<open>b\<close> that include \<open>EPOLLOUT\<close> while bytes are queued.\<close>

definition relay_enabled :: "addr \<Rightarrow> addr \<Rightarrow> 'l mach \<times> bool \<Rightarrow> addr \<times> 32 word \<Rightarrow> bool" where
  "relay_enabled a b s ev \<longleftrightarrow> fst ev \<in> {a, b} \<and>
     (case m_heap (fst s) (fst ev) of None \<Rightarrow> True
      | Some c \<Rightarrow> c_wpartial c \<longrightarrow> has_ev (snd ev) EPOLLOUT)"

lemma linked_set_events:
  assumes "linked Q t a b m"
  shows "linked Q t a b (upd_ctx x (\<lambda>c. c\<lparr>c_events := evs\<rparr>) m)"
proof -
  from assms obtain ca cb where h: "m_heap m a = Some ca" "m_heap m b = Some cb" and p: "peered a b ca cb"
    and t: "t \<le> length (m_trace m)" "Q (m_lua m)"
    and s: "relayed (drop t (m_trace m)) ca cb" "relayed (drop t (m_trace m)) cb ca"
    by (auto simp: linked_def)
  let ?f = "\<lambda>c. c\<lparr>c_events := evs\<rparr>"
  have ok: "ctx_ok (?f c) = ctx_ok c" "pending (?f c) = pending c" for c
    by (simp_all add: ctx_ok_def pending_def)
  show ?thesis
    by (rule linkedI [of _ _ _ _ "if x = a then ?f ca else ca" _ "if x = b then ?f cb else cb"])
       (use h p t s in \<open>auto simp: mach_simps peered_def relayed_def ok\<close>)
qed

lemma relay_step_keeps:
  assumes inv: "relay_inv Q A env t a b s" and en: "relay_enabled a b s ev"
  shows "\<exists>s'. relay_step A env e s ev = Inr s' \<and> relay_inv Q A env t a b s'"
proof -
  obtain m going x evs where s: "s = (m, going)" and ev: "ev = (x, evs)" by (cases s, cases ev) auto
  show ?thesis
  proof (cases going)
    case False
    with inv s ev show ?thesis by (auto simp: relay_step_def relay_inv_def)
  next
    case True
    obtain y where y: "linked Q t x y m" "{x, y} = {a, b}"
      using inv en True s ev linked_sym [of Q t a b m] by (auto simp: relay_inv_def relay_enabled_def settled_def)
    obtain c where c: "m_heap m x = Some c" using y(1) by (auto simp: linked_def)
    let ?m = "upd_ctx x (\<lambda>c. c\<lparr>c_events := evs\<rparr>) m"
    have env: "send_ok env" "recv_ok env" "hook_transparent A Q" using inv by (auto simp: relay_inv_def)
    have w: "c_wpartial (c\<lparr>c_events := evs\<rparr>) \<Longrightarrow> has_ev (c_events (c\<lparr>c_events := evs\<rparr>)) EPOLLOUT"
      using en s ev c by (simp add: relay_enabled_def)
    have "m_heap ?m x = Some (c\<lparr>c_events := evs\<rparr>)" using c by (simp add: mach_simps)
    from tcp_ctx_handler_linked [OF env linked_set_events [OF y(1)] this w, of e]
    obtain k m' where k: "sm3t__tcp_ctx_handler A env (Some x) e ?m = Inr (k, m')" "settled Q t x y k m'"
      by auto
    have "settled Q t a b k m'"
      using k(2) y(2) settled_sym [of Q t a b k m'] by (auto simp: doubleton_eq_iff)
    with k(1) c True s ev env show ?thesis
      by (auto simp: relay_step_def relay_inv_def ctx_at_def)
  qed
qed

interpretation relay: step_invariant "relay_step A env e" "relay_inv Q A env t a b" "relay_enabled a b"
  for Q :: "'l \<Rightarrow> bool" and A env e t a b
proof unfold_locales
  fix s :: "'l mach \<times> bool" and ev s'
  assume "relay_inv Q A env t a b s" "relay_enabled a b s ev" "relay_step A env e s ev = Inr s'"
  then show "relay_inv Q A env t a b s'" using relay_step_keeps [of Q A env t a b s ev e] by auto
qed

lemma relay_run_ok:
  assumes "relay_inv Q A env t a b s" and "all_enabled (relay_step A env e) (relay_enabled a b) s evs"
  shows "\<exists>s'. run_steps (relay_step A env e) s evs = Inr s'"
  using assms
proof (induction evs arbitrary: s)
  case Nil
  then show ?case by simp
next
  case (Cons ev evs)
  obtain s' where s': "relay_step A env e s ev = Inr s'" "relay_inv Q A env t a b s'"
    using relay_step_keeps [OF Cons.prems(1), of ev e] Cons.prems(2) by auto
  then show ?case using Cons.IH [OF s'(2)] Cons.prems(2) by auto
qed

section \<open>Descriptors\<close>

text \<open>The handler never changes the descriptor of a context.\<close>

definition fdmap :: "'l mach \<Rightarrow> addr \<Rightarrow> int option" where
  "fdmap m x = map_option c_fd (m_heap m x)"

lemma fdmap_upd: "(\<And>c. c_fd (f c) = c_fd c) \<Longrightarrow> fdmap (upd_ctx a f m) = fdmap m"
  by (rule ext) (simp add: fdmap_def mach_simps option.map_comp comp_def)

lemma fdmap_updates:
  "fdmap (m\<lparr>m_trace := tr\<rparr>) = fdmap m" "fdmap (m\<lparr>m_lua := L\<rparr>) = fdmap m"
  "fdmap (arm env e fd a evs m) = fdmap m" "fdmap (snd (msys env c m)) = fdmap m"
  by (simp_all add: fdmap_def fun_eq_iff mach_simps)

lemma fdmap_close: "fdmap (detach a b m) = fdmap m" "fdmap (half_close env a b peer m) = fdmap m"
  by (simp_all add: detach_def half_close_def Let_def fdmap_upd fdmap_updates)

lemmas fdmap_simps = fdmap_upd fdmap_updates fdmap_close

lemma send_on_fds: "post (\<lambda>_. True) (send_on env e a fd b fd_out buff n m) (\<lambda>(_, m'). fdmap m' = fdmap m)"
  by (auto simp: send_on_def queue_rest_def msys_pair Let_def fdmap_simps
      intro!: post_cbind [where R = "\<lambda>_. True"]) (auto simp: post_def split: sum.splits)

lemma flush_queued_fds: "post (\<lambda>_. True) (flush_queued env e a ca b cb m) (\<lambda>(_, m'). fdmap m' = fdmap m)"
  by (auto simp: flush_queued_def msys_pair Let_def fdmap_simps i32_def
      intro!: post_cbind [where R = "\<lambda>_. True"]) (auto simp: post_def split: sum.splits)

lemma post_any: "post (\<lambda>_. True) m (\<lambda>_. True)"
  by (simp add: post_def split: sum.splits)

lemma read_and_forward_fds:
  "post (\<lambda>_. True) (read_and_forward A env e a ca b cb m) (\<lambda>(_, m'). fdmap m' = fdmap m)"
proof -
  have fwd: "post (\<lambda>_. True) (send_on env e a fd b fd_out buff n m1) (\<lambda>(_, m'). fdmap m' = fdmap m)"
    if "fdmap m1 = fdmap m" for fd fd_out buff n m1
    using send_on_fds [of env e a fd b fd_out buff n m1] that by simp
  show ?thesis
    unfolding read_and_forward_def
    by (auto simp: msys_pair Let_def check_hup_def fdmap_simps split: option.splits
        intro!: post_cbind [OF post_any] fwd)
qed

lemma tcp_ctx_handler_fds:
  "post (\<lambda>_. True) (sm3t__tcp_ctx_handler A env (Some a) e m) (\<lambda>(_, m'). fdmap m' = fdmap m)"
  unfolding sm3t__tcp_ctx_handler_def
  by (auto simp: check_hup_def fdmap_simps split: option.splits
      intro!: post_cbind [OF post_any] flush_queued_fds read_and_forward_fds)

lemma relay_step_fds:
  assumes "relay_step A env e s ev = Inr s'"
  shows "fdmap (fst s') = fdmap (fst s)"
proof -
  obtain m going x evs where s: "s = (m, going)" and ev: "ev = (x, evs)" by (cases s, cases ev) auto
  show ?thesis
  proof (cases going)
    case True
    then obtain k m' where "sm3t__tcp_ctx_handler A env (Some x) e (upd_ctx x (\<lambda>c. c\<lparr>c_events := evs\<rparr>) m) = Inr (k, m')"
        "s' = (m', k)"
      using assms s ev by (auto simp: relay_step_def cbind_eq_Inr)
    then show ?thesis
      using post_InrD [OF tcp_ctx_handler_fds] s by (fastforce simp: fdmap_simps)
  qed (use assms s in \<open>auto simp: relay_step_def\<close>)
qed

interpretation relay_fds: step_invariant "relay_step A env e" "\<lambda>s. fdmap (fst s) = f" "\<lambda>_ _. True"
  for A :: "'l lua_api" and env e f
  by unfold_locales (simp add: relay_step_fds)

lemma all_enabled_True: "all_enabled step (\<lambda>_ _. True) s es"
  by (induction es arbitrary: s) (auto split: sum.splits)

section \<open>Configurations without a data hook\<close>

text \<open>The configuration (stack index 1) has no function \<open>hooks.on_data\<close>.\<close>

definition hook_absent :: "'l lua_api \<Rightarrow> string \<Rightarrow> 'l \<Rightarrow> bool" where
  "hook_absent A name L =
     (case stack_at (l_stack A L) 1 of
        Some (LTable t) \<Rightarrow> (case l_field A L t ''hooks'' of
          LTable u \<Rightarrow> (case l_field A L u name of LFun _ \<Rightarrow> False | _ \<Rightarrow> True) | _ \<Rightarrow> True)
      | _ \<Rightarrow> True)"

lemma hook_absent_cong:
  assumes "l_stack A L' = l_stack A L" and "l_field A L' = l_field A L"
  shows "hook_absent A name L' = hook_absent A name L"
  unfolding hook_absent_def assms by (rule refl)

lemma push_hook_absent:
  assumes "lua_ok A" and "hook_absent A name L"
  shows "\<exists>L'. push_hook A name L = (False, L') \<and> l_stack A L' = l_stack A L \<and> l_field A L' = l_field A L"
proof (cases "push_hook A name L")
  case (Pair found L')
  have "\<not> found"
    using push_hook_True [OF assms(1), of name L L'] assms(2) Pair by (auto simp: hook_absent_def)
  with Pair push_hook_False [OF assms(1), of name L L'] show ?thesis by simp
qed

lemma on_data_absent:
  assumes "lua_ok A" and "hook_absent A ''on_data'' L"
  shows "\<exists>L'. sm3t__hook_on_data A (Some L) a buf n dir = Inr (SM3T_HOOK_PASS, Some L', buf, n)
      \<and> l_stack A L' = l_stack A L \<and> l_field A L' = l_field A L"
  using push_hook_absent [OF assms] by (auto simp: sm3t__hook_on_data_def)

lemma hook_absent_transparent:
  assumes "lua_ok A" and "\<And>L. Q L \<Longrightarrow> hook_absent A ''on_data'' L"
    and "\<And>L L'. Q L \<Longrightarrow> l_stack A L' = l_stack A L \<Longrightarrow> l_field A L' = l_field A L \<Longrightarrow> Q L'"
  shows "hook_transparent A Q"
  using on_data_absent [OF assms(1,2)] assms(3) unfolding hook_transparent_def by metis

lemma no_data_hook_transparent:
  assumes "lua_ok A"
  shows "hook_transparent A (hook_absent A ''on_data'')"
proof (rule hook_absent_transparent [OF assms])
  show "hook_absent A ''on_data'' L'"
    if "hook_absent A ''on_data'' L" "l_stack A L' = l_stack A L" "l_field A L' = l_field A L" for L L'
    using hook_absent_cong [OF that(2,3)] that(1) by simp
qed

section \<open>Where the relay fails\<close>

text \<open>
  When one end hangs up while bytes are queued for the other, the pair is taken apart; the next event
  for the other end then dereferences its null \<open>peer\<close>.
\<close>

text \<open>
  C7. When one end hangs up while bytes are queued for the other end, the handler takes the pair apart
  and gives up; whatever event the other end reports next, its handler dereferences the null pointer
  it finds in \<open>ctx->peer\<close>.
\<close>

theorem hangup_with_queued_bytes_crashes:
  assumes h: "m_heap m a = Some ca" "m_heap m b = Some cb" and ab: "a \<noteq> b" "c_peer ca = Some b"
    and w: "\<not> c_wpartial ca" "c_wpartial cb" and ev: "has_ev (c_events ca) EPOLLRDHUP"
  shows "\<exists>m'. sm3t__tcp_ctx_handler A env (Some a) e m = Inr (False, m')
           \<and> (\<forall>evs. sm3t__tcp_ctx_handler A env (Some b) e (upd_ctx b (\<lambda>c. c\<lparr>c_events := evs\<rparr>) m') = Inl Null_Deref)"
proof -
  let ?m' = "half_close env a b cb m"
  have "sm3t__tcp_ctx_handler A env (Some a) e m = Inr (False, ?m')"
    using h ab w ev by (simp add: sm3t__tcp_ctx_handler_def ctx_at_def check_hup_def)
  moreover have "sm3t__tcp_ctx_handler A env (Some b) e (upd_ctx b (\<lambda>c. c\<lparr>c_events := evs\<rparr>) ?m') = Inl Null_Deref" for evs
  proof -
    obtain c where "m_heap (upd_ctx b (\<lambda>c. c\<lparr>c_events := evs\<rparr>) ?m') b = Some c" "c_peer c = None" "c_wpartial c"
      using h ab w by (auto simp: half_close_def Let_def detach_def mach_simps)
    then show ?thesis by (simp add: sm3t__tcp_ctx_handler_def ctx_at_def)
  qed
  ultimately show ?thesis by blast
qed

text \<open>
  C8. A context with queued bytes that is reported readable and not writable receives new bytes into
  the buffer that holds the queued ones: what it will send afterwards is the beginning of what was
  just received from the same end, and the bytes that were queued are lost.
\<close>

theorem receive_destroys_queued_bytes:
  assumes A: "lua_ok A" "hook_absent A ''on_data'' (m_lua m)" and env: "recv_ok env"
    and h: "m_heap m a = Some ca" "m_heap m b = Some cb" and p: "peered a b ca cb"
    and w: "c_wpartial ca" "c_wstart ca = 0"
    and ev: "has_ev (c_events ca) EPOLLIN" "\<not> has_ev (c_events ca) EPOLLOUT"
    and r: "env (m_trace m) (Sys_Recv (c_fd ca) (SM3T_BUFFER_SIZE - 1)) = r" "0 < sr_ret r"
    and long: "c_wlen ca \<le> sr_ret r"
    and s: "sr_ret (env (m_trace m @ [(Sys_Recv (c_fd ca) (SM3T_BUFFER_SIZE - 1), r)])
              (Sys_Send (c_fd cb) (sr_bytes r))) = sr_ret r"
  shows "\<exists>m' ca'. sm3t__tcp_ctx_handler A env (Some a) e m = Inr (True, m') \<and> m_heap m' a = Some ca'
           \<and> c_wpartial ca' \<and> pending ca' = take (length (pending ca)) (sr_bytes r)"
proof -
  have ok: "ctx_ok ca" "a \<noteq> b" "\<not> c_wpartial cb" "c_peer ca = Some b" using p w by (auto simp: peered_def)
  have n: "length (sr_bytes r) = nat (sr_ret r)" "sr_ret r < 1024"
    using recv_okD [OF env, of "m_trace m" "c_fd ca" "SM3T_BUFFER_SIZE - 1"] r by (auto simp: SM3T_BUFFER_SIZE_def)
  let ?buf = "sr_bytes r @ drop (length (sr_bytes r)) (c_buffer ca)"
  have lb: "length (c_buffer ca) = 1024" using ok(1) by (simp add: ctx_ok_def SM3T_BUFFER_SIZE_def)
  obtain L' where L': "push_hook A ''on_data'' (m_lua m) = (False, L')" using push_hook_absent [OF A] by auto
  have cp: "buf_copy (c_buffer ca) (sr_bytes r) = Inr ?buf" using n lb by (simp add: buf_copy_def)
  have rd: "buf_read ?buf 0 (sr_ret r) = Inr (sr_bytes r)" using n r(2) lb by (simp add: buf_read_def)
  let ?m1 = "m\<lparr>m_trace := m_trace m @ [(Sys_Recv (c_fd ca) (SM3T_BUFFER_SIZE - 1), r)]\<rparr>"
  let ?m2 = "upd_ctx a (\<lambda>c. c\<lparr>c_buffer := ?buf\<rparr>) ((upd_ctx a (\<lambda>c. c\<lparr>c_buffer := ?buf\<rparr>) ?m1)\<lparr>m_lua := L'\<rparr>)"
  have "sm3t__tcp_ctx_handler A env (Some a) e m = read_and_forward A env e a ca b cb m"
    using h ok ev by (simp add: sm3t__tcp_ctx_handler_def ctx_at_def)
  also have "\<dots> = send_on env e a (c_fd ca) b (c_fd cb) ?buf (sr_ret r) ?m2"
    using r cp L' by (simp add: read_and_forward_def msys_pair sm3t__hook_on_data_def mach_simps Let_def)
  also have "\<dots> = Inr (True, snd (msys env (Sys_Send (c_fd cb) (sr_bytes r)) ?m2))"
    using rd s r(2) by (simp add: send_on_def msys_pair mach_simps Let_def)
  finally have run: "sm3t__tcp_ctx_handler A env (Some a) e m =
      Inr (True, snd (msys env (Sys_Send (c_fd cb) (sr_bytes r)) ?m2))" .
  have "length (pending ca) = nat (c_wlen ca)" using pending_length [OF ok(1) w(1)] by simp
  moreover have "pending (ca\<lparr>c_buffer := bs\<rparr>) = take (nat (c_wlen ca)) bs" for bs
    using w by (simp add: pending_def)
  ultimately have "pending (ca\<lparr>c_buffer := ?buf\<rparr>) = take (length (pending ca)) (sr_bytes r)"
    using long n by simp
  then show ?thesis
    using run h w(1) by (intro exI [of _ "ca\<lparr>c_buffer := ?buf\<rparr>"] exI conjI) (auto simp: mach_simps)
qed

section \<open>Queued bytes are delivered\<close>

text \<open>A socket that is reported writable accepts at least one byte.\<close>

definition send_progress :: "env \<Rightarrow> bool" where
  "send_progress env \<longleftrightarrow> (\<forall>tr fd bs. bs \<noteq> [] \<longrightarrow> 0 < sr_ret (env tr (Sys_Send fd bs)))"

lemma EPOLLOUT_only [simp]: "has_ev EPOLLOUT EPOLLOUT" "\<not> has_ev EPOLLOUT EPOLLIN" "\<not> has_ev EPOLLOUT EPOLLRDHUP"
  by (simp_all add: has_ev_def EPOLLOUT_def EPOLLIN_def EPOLLRDHUP_def)

lemma flush_progress:
  assumes "send_ok env" and "send_progress env" and c: "ctx_ok ca" "c_wpartial ca" "m_heap m a = Some ca"
  shows "\<exists>m' ca'. flush_queued env e a ca b cb m = Inr (True, m') \<and> m_heap m' a = Some ca'
           \<and> (c_wpartial ca' \<longrightarrow> c_wlen ca' < c_wlen ca)"
proof -
  let ?n = "sr_ret (env (m_trace m) (Sys_Send (c_fd ca) (pending ca)))"
  have w: "0 \<le> c_wstart ca" "0 < c_wlen ca" "c_wstart ca + c_wlen ca \<le> 1024"
    using c by (auto simp: ctx_ok_def SM3T_BUFFER_SIZE_def)
  then have "pending ca \<noteq> []" using pending_length [OF c(1,2)] by auto
  then have n: "0 < ?n" using assms(2) by (simp add: send_progress_def)
  then have "?n \<le> c_wlen ca"
    using send_okD [OF assms(1), of "m_trace m" "c_fd ca" "pending ca"] pending_length [OF c(1,2)] by auto
  with n show ?thesis
    using w c(3) by (simp add: flush_queued_def buf_read_pending [OF c(1,2)] msys_pair int_range Let_def mach_simps)
qed

lemma writable_step:
  assumes env: "send_ok env" "recv_ok env" "send_progress env" and hook: "hook_transparent A Q"
    and l: "linked Q t a b m" and ca: "m_heap m a = Some ca"
  shows "\<exists>m' ca'. relay_step A env e (m, True) (a, EPOLLOUT) = Inr (m', True) \<and> linked Q t a b m'
           \<and> m_heap m' a = Some ca' \<and> (c_wpartial ca' \<longrightarrow> c_wpartial ca \<and> c_wlen ca' < c_wlen ca)"
proof -
  let ?f = "\<lambda>c. c\<lparr>c_events := EPOLLOUT\<rparr>"
  let ?m = "upd_ctx a ?f m"
  have l': "linked Q t a b ?m" by (rule linked_set_events [OF l])
  have ca': "m_heap ?m a = Some (?f ca)" using ca by (simp add: mach_simps)
  obtain cb where cb: "m_heap ?m b = Some cb" "c_peer ca = Some b" "ctx_ok (?f ca)"
    using l' ca' by (auto simp: linked_def peered_def)
  obtain k m' where h: "sm3t__tcp_ctx_handler A env (Some a) e ?m = Inr (k, m')" "settled Q t a b k m'"
    using tcp_ctx_handler_linked [OF env(1,2) hook l' ca', of e] by auto
  have "k \<and> (\<exists>ca'. m_heap m' a = Some ca' \<and> (c_wpartial ca' \<longrightarrow> c_wpartial ca \<and> c_wlen ca' < c_wlen ca))"
  proof (cases "c_wpartial ca")
    case True
    then have "sm3t__tcp_ctx_handler A env (Some a) e ?m = flush_queued env e a (?f ca) b cb ?m"
      using ca' cb by (simp add: sm3t__tcp_ctx_handler_def ctx_at_def)
    then show ?thesis
      using flush_progress [OF env(1,3) cb(3) _ ca', of e b cb] True h(1) by auto
  next
    case False
    then have "sm3t__tcp_ctx_handler A env (Some a) e ?m = Inr (True, ?m)"
      using ca' cb by (simp add: sm3t__tcp_ctx_handler_def ctx_at_def check_hup_def)
    then show ?thesis using h(1) ca' False by auto
  qed
  then show ?thesis using h ca by (auto simp: relay_step_def ctx_at_def settled_def)
qed


end
