(* ===== verification/Sm3t_Conf_Rw.thy ===== *)
theory Sm3t_Conf_Rw
  imports Sm3t_Lua
begin

text \<open>
  Reading and writing configuration values by path (\<open>src/conf/lua/sm3t_lua_conf_rw.c\<close>, and
  \<open>sm3t__lua_ctype\<close> of \<open>src/conf/lua/sm3t_parser.c\<close>). A path names a field of nested Lua tables,
  ''tcp.listen.port'' for example; the configuration table is the value at stack index 1.

  The specification is a walk through the tables of the Lua state; a write is an update of one field
  of one table. Every operation leaves the Lua stack as it found it.
\<close>

section \<open>Types and values\<close>

datatype sm3t_type_t = SM3T_CINT | SM3T_CBOOL | SM3T_CFLOAT | SM3T_CSTRING | SM3T_CTABLE | SM3T_CFUNCTION

text \<open>The union \<open>sm3t_value_t\<close>, with the member that was written last; \<open>None\<close> is the null pointer.\<close>

datatype sm3t_value_t = As_int int | As_float cdouble | As_bool bool | As_string "string option"

section \<open>Strings\<close>

text \<open>
  \<open>mem n\<close> tells whether an allocation of \<open>n\<close> bytes succeeds. One call of \<open>strtok (s, ".")\<close>: skip
  dots, then take the bytes before the next dot; the rest is where the next call goes on.
\<close>

definition c_strdup :: "(nat \<Rightarrow> bool) \<Rightarrow> string \<Rightarrow> string option" where
  "c_strdup mem s = (if mem (length s + 1) then Some s else None)"

definition strtok_dot :: "string \<Rightarrow> (string \<times> string) option" where
  "strtok_dot s =
     (let s = dropWhile (\<lambda>c. c = CHR ''.'') s in
      if s = [] then None
      else Some (takeWhile (\<lambda>c. c \<noteq> CHR ''.'') s, tl (dropWhile (\<lambda>c. c \<noteq> CHR ''.'') s)))"

text \<open>\<open>strrchr (s, '.')\<close>: the bytes before and after the last dot.\<close>

fun strrchr_dot :: "string \<Rightarrow> (string \<times> string) option" where
  "strrchr_dot [] = None"
| "strrchr_dot (c # s) =
     (case strrchr_dot s of
        Some (p, k) \<Rightarrow> Some (c # p, k)
      | None \<Rightarrow> if c = CHR ''.'' then Some ([], s) else None)"

lemma strtok_dot_shorter: "strtok_dot s = Some (t, r) \<Longrightarrow> length r < length s"
proof -
  assume a: "strtok_dot s = Some (t, r)"
  let ?s = "dropWhile (\<lambda>c. c = CHR ''.'') s"
  have ne: "?s \<noteq> []" and r: "r = tl (dropWhile (\<lambda>c. c \<noteq> CHR ''.'') ?s)"
    using a by (auto simp: strtok_dot_def Let_def split: if_splits)
  have "length (dropWhile (\<lambda>c. c \<noteq> CHR ''.'') ?s) \<le> length ?s" by (rule length_dropWhile_le)
  moreover have "length ?s \<le> length s" by (rule length_dropWhile_le)
  ultimately show ?thesis using ne r by (cases "?s") auto
qed

section \<open>Walking a path\<close>

function traverse_loop :: "'l lua_api \<Rightarrow> string \<Rightarrow> 'l \<Rightarrow> bool \<times> 'l" where
  "traverse_loop A s L =
     (case strtok_dot s of
        None \<Rightarrow> (True, L)
      | Some (token, rest) \<Rightarrow>
          if \<not> lua_istable A L (-1) then (False, l_pop A 1 L)
          else traverse_loop A rest (l_remove A (-2) (l_getfield A (-1) token L)))"
  by pat_completeness auto
termination
  by (relation "measure (\<lambda>(A, s, L). length s)") (auto simp: strtok_dot_shorter)

declare traverse_loop.simps [simp del]

definition sm3t__traverse_path :: "'l lua_api \<Rightarrow> (nat \<Rightarrow> bool) \<Rightarrow> 'l \<Rightarrow> string \<Rightarrow> bool \<times> 'l" where
  "sm3t__traverse_path A mem L path =
     (case c_strdup mem path of
        None \<Rightarrow> (False, L)
      | Some path_copy \<Rightarrow> traverse_loop A path_copy (lua_pushvalue A 1 L))"

section \<open>Typed reads\<close>

text \<open>
  \<open>sm3t__lua_ctype\<close> converts the top of the stack and pops it; on failure it leaves the stack alone
  and the value unchanged. A string is copied to the heap; a number accepted as a string makes
  \<open>luaL_len\<close> raise an error outside any protected call.
\<close>

definition sm3t__lua_ctype ::
  "'l lua_api \<Rightarrow> (nat \<Rightarrow> bool) \<Rightarrow> 'l \<Rightarrow> sm3t_type_t \<Rightarrow> sm3t_value_t \<Rightarrow> (bool \<times> 'l \<times> sm3t_value_t) cres" where
  "sm3t__lua_ctype A mem L type out =
     (case type of
        SM3T_CSTRING \<Rightarrow>
          if \<not> lua_isstring A L (-1) then Inr (False, L, out)
          else cbind (luaL_len_string A L (-1)) (\<lambda>len.
            if len \<le> 0 then Inr (False, L, out)
            else if \<not> mem (nat len + 1) then Inl Exit_Failure
            else (case lua_tostring A L (-1) of
                    None \<Rightarrow> Inr (False, L, As_string None)
                  | Some luastr \<Rightarrow> Inr (True, l_pop A 1 L, As_string (Some luastr))))
      | SM3T_CBOOL \<Rightarrow>
          if \<not> lua_isboolean A L (-1) then Inr (False, L, out)
          else Inr (True, l_pop A 1 L, As_bool (lua_toboolean A L (-1)))
      | _ \<Rightarrow>
          if type \<noteq> SM3T_CINT \<and> type \<noteq> SM3T_CFLOAT then Inr (False, L, out)
          else if \<not> lua_isnumber A L (-1) then Inr (False, L, out)
          else let num = lua_tonumber A L (-1) in
            if type = SM3T_CINT
            then cbind (int64_of_double num) (\<lambda>n. Inr (True, l_pop A 1 L, As_int n))
            else Inr (True, l_pop A 1 L, As_float num))"

definition sm3t__get_conf_value ::
  "'l lua_api \<Rightarrow> (nat \<Rightarrow> bool) \<Rightarrow> 'l \<Rightarrow> string \<Rightarrow> sm3t_type_t \<Rightarrow> sm3t_value_t
     \<Rightarrow> (bool \<times> 'l \<times> sm3t_value_t) cres" where
  "sm3t__get_conf_value A mem L path type out =
     (if \<not> lua_istable A L 1 then Inr (False, L, out)
      else let (found, L) = sm3t__traverse_path A mem L path in
        if \<not> found then Inr (False, L, out)
        else cbind (sm3t__lua_ctype A mem L type out) (\<lambda>(ok, L, out).
          Inr (ok, if \<not> ok then l_pop A 1 L else L, out)))"

section \<open>Typed writes\<close>

text \<open>
  The value pushed for a type; the model reads only the member of the union that was written, and
  \<open>lua_pushstring\<close> of the null pointer pushes nil.
\<close>

definition push_value :: "sm3t_type_t \<Rightarrow> sm3t_value_t \<Rightarrow> lval option cres" where
  "push_value type v =
     (case type of
        SM3T_CINT \<Rightarrow> (case v of As_int n \<Rightarrow> Inr (Some (LInt n)) | _ \<Rightarrow> Inl Bad_Conversion)
      | SM3T_CFLOAT \<Rightarrow> (case v of As_float x \<Rightarrow> Inr (Some (LNum x)) | _ \<Rightarrow> Inl Bad_Conversion)
      | SM3T_CBOOL \<Rightarrow> (case v of As_bool b \<Rightarrow> Inr (Some (LBool b)) | _ \<Rightarrow> Inl Bad_Conversion)
      | SM3T_CSTRING \<Rightarrow> 
          (case v of As_string s \<Rightarrow> Inr (Some (case s of None \<Rightarrow> LNil | Some s \<Rightarrow> LStr s))
           | _ \<Rightarrow> Inl Bad_Conversion)
      | _ \<Rightarrow> Inr None)"

definition set_in_parent ::
  "'l lua_api \<Rightarrow> string \<Rightarrow> sm3t_type_t \<Rightarrow> sm3t_value_t \<Rightarrow> 'l \<Rightarrow> (bool \<times> 'l) cres" where
  "set_in_parent A key type v L =
     (if \<not> lua_istable A L (-1) then Inr (False, l_pop A 1 L)
      else cbind (push_value type v) (\<lambda>pv.
        case pv of None \<Rightarrow> Inr (False, l_pop A 1 L)
        | Some x \<Rightarrow> Inr (True, l_pop A 1 (l_setfield A (-2) key (l_push A x L)))))"

definition sm3t__set_conf_value ::
  "'l lua_api \<Rightarrow> (nat \<Rightarrow> bool) \<Rightarrow> 'l \<Rightarrow> string \<Rightarrow> sm3t_type_t \<Rightarrow> sm3t_value_t \<Rightarrow> (bool \<times> 'l) cres" where
  "sm3t__set_conf_value A mem L path type v =
     (if \<not> lua_istable A L 1 then Inr (False, L)
      else (case c_strdup mem path of
        None \<Rightarrow> Inr (False, L)
      | Some path_copy \<Rightarrow>
          (case strrchr_dot path_copy of
             Some (parent, key) \<Rightarrow>
               let (found, L) = sm3t__traverse_path A mem L parent in
               if \<not> found then Inr (False, L) else set_in_parent A key type v L
           | None \<Rightarrow> set_in_parent A path_copy type v (lua_pushvalue A 1 L))))"

section \<open>Specification\<close>

text \<open>The tokens of a path, the walk along them, and the fields the walk reads.\<close>

function tokens :: "string \<Rightarrow> string list" where
  "tokens s = (case strtok_dot s of None \<Rightarrow> [] | Some (t, r) \<Rightarrow> t # tokens r)"
  by pat_completeness auto
termination by (relation "measure length") (auto simp: strtok_dot_shorter)

declare tokens.simps [simp del]

fun walk :: "(nat \<Rightarrow> string \<Rightarrow> lval) \<Rightarrow> lval \<Rightarrow> string list \<Rightarrow> lval option" where
  "walk fld v [] = Some v"
| "walk fld (LTable t) (k # ks) = walk fld (fld t k) ks"
| "walk fld v (k # ks) = None"

fun walk_reads :: "(nat \<Rightarrow> string \<Rightarrow> lval) \<Rightarrow> lval \<Rightarrow> string list \<Rightarrow> (nat \<times> string) list" where
  "walk_reads fld (LTable t) (k # ks) = (t, k) # walk_reads fld (fld t k) ks"
| "walk_reads fld v ks = []"

definition fld_upd :: "(nat \<Rightarrow> string \<Rightarrow> lval) \<Rightarrow> nat \<Rightarrow> string \<Rightarrow> lval \<Rightarrow> nat \<Rightarrow> string \<Rightarrow> lval" where
  "fld_upd fld t k v = fld(t := (fld t)(k := v))"

text \<open>What a typed read makes of a value.\<close>

definition typed :: "'l lua_api \<Rightarrow> sm3t_type_t \<Rightarrow> lval \<Rightarrow> sm3t_value_t option cres" where
  "typed A type v =
     (case type of
        SM3T_CSTRING \<Rightarrow>
          (case v of LStr s \<Rightarrow> Inr (if s = [] then None else Some (As_string (Some s)))
           | LInt _ \<Rightarrow> Inl Lua_Panic | LNum _ \<Rightarrow> Inl Lua_Panic | _ \<Rightarrow> Inr None)
      | SM3T_CBOOL \<Rightarrow> (case v of LBool b \<Rightarrow> Inr (Some (As_bool b)) | _ \<Rightarrow> Inr None)
      | SM3T_CINT \<Rightarrow>
          (case num_value A v of None \<Rightarrow> Inr None
           | Some x \<Rightarrow> cbind (int64_of_double x) (\<lambda>n. Inr (Some (As_int n))))
      | SM3T_CFLOAT \<Rightarrow> (case num_value A v of None \<Rightarrow> Inr None | Some x \<Rightarrow> Inr (Some (As_float x)))
      | _ \<Rightarrow> Inr None)"

text \<open>Two Lua states with the same tables and globals, the second with stack \<open>st\<close>.\<close>

definition same_but :: "'l lua_api \<Rightarrow> 'l \<Rightarrow> lval list \<Rightarrow> 'l \<Rightarrow> bool" where
  "same_but A L st L' \<longleftrightarrow> l_stack A L' = st \<and> l_field A L' = l_field A L \<and> l_global A L' = l_global A L"

lemma same_but_pop: "lua_ok A \<Longrightarrow> l_stack A L = st @ [v] \<Longrightarrow> same_but A L st (l_pop A 1 L)"
  by (simp add: same_but_def lua_pop_simps)

lemma traverse_loop_walk:
  assumes "lua_ok A" and "l_stack A L = st @ [v]"
  shows "case walk (l_field A L) v (tokens s) of
           Some w \<Rightarrow> fst (traverse_loop A s L) \<and> same_but A L (st @ [w]) (snd (traverse_loop A s L))
         | None \<Rightarrow> \<not> fst (traverse_loop A s L) \<and> same_but A L st (snd (traverse_loop A s L))"
  using assms
proof (induction s arbitrary: L v rule: tokens.induct)
  case (1 s)
  show ?case
  proof (cases "strtok_dot s")
    case None
    then show ?thesis
      using 1(3) by (simp add: tokens.simps [of s] traverse_loop.simps [of A s] same_but_def)
  next
    case (Some tr)
    obtain tok rest where tr: "tr = (tok, rest)" by (cases tr)
    show ?thesis
    proof (cases "\<exists>t. v = LTable t")
      case False
      then have "\<not> lua_istable A L (-1)" using lua_istable_top [OF 1(3)] by simp
      moreover have "walk (l_field A L) v (tok # tokens rest) = None" using False by (cases v) auto
      ultimately show ?thesis
        using Some tr same_but_pop [OF 1(2,3)]
        by (simp add: tokens.simps [of s] traverse_loop.simps [of A s])
    next
      case True
      then obtain t where v: "v = LTable t" by blast
      let ?L1 = "l_getfield A (-1) tok L"
      let ?L2 = "l_remove A (-2) ?L1"
      have top: "top_table (l_stack A L) (-1) = Some t" using 1(3) v by simp
      note g = lua_getfield_simps [OF 1(2) top, of tok]
      have s1: "l_stack A ?L1 = st @ [v, l_field A L t tok]" using g 1(3) by simp
      note r = lua_remove_second [OF 1(2) s1]
      have ih: "case walk (l_field A ?L2) (l_field A L t tok) (tokens rest) of
           Some w \<Rightarrow> fst (traverse_loop A rest ?L2) \<and> same_but A ?L2 (st @ [w]) (snd (traverse_loop A rest ?L2))
         | None \<Rightarrow> \<not> fst (traverse_loop A rest ?L2) \<and> same_but A ?L2 st (snd (traverse_loop A rest ?L2))"
        using 1(1) [of "(tok, rest)" tok rest ?L2 "l_field A L t tok"] Some tr 1(2) r(1) by simp
      have eq: "traverse_loop A s L = traverse_loop A rest ?L2"
        using Some tr lua_istable_top [OF 1(3)] v by (simp add: traverse_loop.simps [of A s])
      have "walk (l_field A L) v (tokens s) = walk (l_field A ?L2) (l_field A L t tok) (tokens rest)"
        using Some tr v r g by (simp add: tokens.simps [of s])
      moreover have "same_but A ?L2 x y = same_but A L x y" for x y using r g by (simp add: same_but_def)
      ultimately show ?thesis using ih by (simp add: eq split: option.splits)
    qed
  qed
qed

lemma traverse_path_walk:
  assumes "lua_ok A" and "mem (length path + 1)" and "stack_at (l_stack A L) 1 = Some v"
  shows "case walk (l_field A L) v (tokens path) of
           Some w \<Rightarrow> \<exists>L'. sm3t__traverse_path A mem L path = (True, L') \<and> same_but A L (l_stack A L @ [w]) L'
         | None \<Rightarrow> \<exists>L'. sm3t__traverse_path A mem L path = (False, L') \<and> same_but A L (l_stack A L) L'"
proof -
  let ?L = "lua_pushvalue A 1 L"
  have st: "l_stack A ?L = l_stack A L @ [v]" "l_field A ?L = l_field A L" "l_global A ?L = l_global A L"
    using assms by (simp_all add: lua_pushvalue_def lua_value_def lua_push_simps)
  have "sm3t__traverse_path A mem L path = traverse_loop A path ?L"
    using assms(2) by (simp add: sm3t__traverse_path_def c_strdup_def)
  then show ?thesis
    using traverse_loop_walk [OF assms(1) st(1), of path] st
    by (cases "traverse_loop A path ?L") (auto simp: same_but_def split: option.splits)
qed

lemma lua_ctype_typed:
  assumes "lua_ok A" and "l_stack A L = st @ [v]" and "\<And>n. mem n"
  shows "sm3t__lua_ctype A mem L type out =
           cbind (typed A type v) (\<lambda>r. case r of None \<Rightarrow> Inr (False, L, out) | Some x \<Rightarrow> Inr (True, l_pop A 1 L, x))"
  using assms(3) lua_value_top [OF assms(2)]
  by (cases type; cases v)
     (auto simp: sm3t__lua_ctype_def typed_def lua_isstring_def luaL_len_string_def lua_tostring_def
        lua_isboolean_def lua_toboolean_def lua_isnumber_def lua_tonumber_def num_value_def cbind_assoc
        split: option.splits)

text \<open>A read gives the typed value at the end of the walk and leaves the Lua state as it was.\<close>

definition conf_lookup :: "'l lua_api \<Rightarrow> 'l \<Rightarrow> string \<Rightarrow> sm3t_type_t \<Rightarrow> sm3t_value_t option cres" where
  "conf_lookup A L path type =
     (case stack_at (l_stack A L) 1 of
        Some (LTable t) \<Rightarrow> (case walk (l_field A L) (LTable t) (tokens path) of
            None \<Rightarrow> Inr None | Some v \<Rightarrow> typed A type v)
      | _ \<Rightarrow> Inr None)"

lemma get_conf_value_lookup:
  assumes A: "lua_ok A" and mem: "\<And>n. mem n"
  shows "case conf_lookup A L path type of
           Inl e \<Rightarrow> sm3t__get_conf_value A mem L path type out = Inl e
         | Inr r \<Rightarrow> \<exists>L'. same_but A L (l_stack A L) L' \<and> sm3t__get_conf_value A mem L path type out =
             Inr (case r of None \<Rightarrow> (False, L', out) | Some x \<Rightarrow> (True, L', x))"
proof (cases "\<exists>t. stack_at (l_stack A L) 1 = Some (LTable t)")
  case False
  then have "\<not> lua_istable A L 1"
    by (auto simp: lua_istable_def lua_value_def split: option.splits lval.splits)
  then have "sm3t__get_conf_value A mem L path type out = Inr (False, L, out)"
    by (simp add: sm3t__get_conf_value_def)
  moreover have "conf_lookup A L path type = Inr None"
    using False by (auto simp: conf_lookup_def split: option.splits lval.splits)
  ultimately show ?thesis by (auto simp: same_but_def)
next
  case True
  then obtain t where t: "stack_at (l_stack A L) 1 = Some (LTable t)" by blast
  have tab: "lua_istable A L 1" using t by (simp add: lua_istable_def lua_value_def)
  have lk: "conf_lookup A L path type =
      (case walk (l_field A L) (LTable t) (tokens path) of None \<Rightarrow> Inr None | Some v \<Rightarrow> typed A type v)"
    using t by (simp add: conf_lookup_def)
  have w: "case walk (l_field A L) (LTable t) (tokens path) of
       Some w \<Rightarrow> \<exists>L'. sm3t__traverse_path A mem L path = (True, L') \<and> same_but A L (l_stack A L @ [w]) L'
     | None \<Rightarrow> \<exists>L'. sm3t__traverse_path A mem L path = (False, L') \<and> same_but A L (l_stack A L) L'"
    by (rule traverse_path_walk [OF A mem t])
  show ?thesis
  proof (cases "walk (l_field A L) (LTable t) (tokens path)")
    case None
    then obtain L' where L': "sm3t__traverse_path A mem L path = (False, L')" "same_but A L (l_stack A L) L'"
      using w by auto
    then show ?thesis using None lk tab by (auto simp: sm3t__get_conf_value_def)
  next
    case (Some v)
    then obtain L1 where L1: "sm3t__traverse_path A mem L path = (True, L1)" "same_but A L (l_stack A L @ [v]) L1"
      using w by auto
    then have st: "l_stack A L1 = l_stack A L @ [v]" by (simp add: same_but_def)
    have pop: "same_but A L (l_stack A L) (l_pop A 1 L1)"
      using same_but_pop [OF A st] L1(2) by (simp add: same_but_def)
    have "sm3t__get_conf_value A mem L path type out = cbind (typed A type v) (\<lambda>r.
        case r of None \<Rightarrow> Inr (False, l_pop A 1 L1, out) | Some x \<Rightarrow> Inr (True, l_pop A 1 L1, x))"
      using tab L1(1) lua_ctype_typed [where mem = mem, OF A st mem, of type out]
      by (cases "typed A type v") (auto simp: sm3t__get_conf_value_def split: option.splits)
    then show ?thesis using lk Some pop by (auto split: sum.splits option.splits)
  qed
qed

section \<open>Paths\<close>

lemma strrchr_dot_None: "strrchr_dot s = None \<longleftrightarrow> CHR ''.'' \<notin> set s"
  by (induction s) (auto split: option.splits if_splits)

lemma strrchr_dot_Some: "strrchr_dot s = Some (p, k) \<Longrightarrow> s = p @ CHR ''.'' # k \<and> CHR ''.'' \<notin> set k"
  by (induction s arbitrary: p k) (auto simp: strrchr_dot_None split: option.splits if_splits)

lemma tokens_Nil [simp]: "tokens [] = []"
  by (simp add: tokens.simps [of "[]"] strtok_dot_def)

lemma strtok_dot_skip: "strtok_dot (CHR ''.'' # s) = strtok_dot s"
  by (simp add: strtok_dot_def)

lemma tokens_dot [simp]: "tokens (CHR ''.'' # s) = tokens s"
  by (simp add: tokens.simps [of "CHR ''.'' # s"] tokens.simps [of s] strtok_dot_skip)

lemma dropWhile_hd_not: "xs \<noteq> [] \<Longrightarrow> \<not> P (hd xs) \<Longrightarrow> dropWhile P xs = xs"
  by (cases xs) auto

lemma tokens_key:
  assumes "k \<noteq> []" and "CHR ''.'' \<notin> set k"
  shows "tokens k = [k]" and "tokens (k @ CHR ''.'' # s) = k # tokens s"
proof -
  have hd: "hd k \<noteq> CHR ''.''" using assms by (cases k) auto
  have all: "\<forall>x\<in>set k. x \<noteq> CHR ''.''" using assms(2) by auto
  then have nil: "dropWhile (\<lambda>c. c \<noteq> CHR ''.'') k = []" by simp
  have "takeWhile (\<lambda>c. c \<noteq> CHR ''.'') k = k" using all by (simp add: takeWhile_eq_all_conv)
  then have "strtok_dot k = Some (k, [])" "strtok_dot (k @ CHR ''.'' # s) = Some (k, s)"
    using assms(1) hd all
    by (simp_all add: strtok_dot_def dropWhile_hd_not takeWhile_append dropWhile_append nil)
  then show "tokens k = [k]" and "tokens (k @ CHR ''.'' # s) = k # tokens s"
    by (simp_all add: tokens.simps [of k] tokens.simps [of "k @ CHR ''.'' # s"])
qed

lemma tokens_append:
  assumes "k \<noteq> []" and "CHR ''.'' \<notin> set k"
  shows "tokens (p @ CHR ''.'' # k) = tokens p @ [k]"
proof (induction "length p" arbitrary: p rule: less_induct)
  case less
  show ?case
  proof (cases p)
    case Nil
    then show ?thesis using tokens_key(1) [OF assms] by simp
  next
    case (Cons c q)
    let ?t = "takeWhile (\<lambda>c. c \<noteq> CHR ''.'') p" and ?r = "dropWhile (\<lambda>c. c \<noteq> CHR ''.'') p"
    have p: "p = ?t @ ?r" by simp
    have nt: "CHR ''.'' \<notin> set ?t" using set_takeWhileD by fastforce
    show ?thesis
    proof (cases "c = CHR ''.''")
      case True
      then show ?thesis using less [of q] Cons by simp
    next
      case False
      then have t: "?t \<noteq> []" using Cons by simp
      show ?thesis
      proof (cases ?r)
        case Nil
        then have "p = ?t" using p by (metis append_Nil2)
        then show ?thesis using tokens_key [OF t nt] tokens_key(1) [OF assms] by simp
      next
        case (Cons d r)
        then have d: "d = CHR ''.''" using hd_dropWhile [of "\<lambda>c. c \<noteq> CHR ''.''" p] by simp
        have pr: "p = ?t @ CHR ''.'' # r" using p Cons d by simp
        then have "length r < length p" by (metis length_append length_Cons less_add_Suc2 add_Suc_right le_add2 less_Suc_eq_le)
        note ih = less [OF this]
        have "tokens p = ?t # tokens r" using tokens_key(2) [OF t nt, of r] pr by metis
        moreover have "tokens (p @ CHR ''.'' # k) = ?t # tokens (r @ CHR ''.'' # k)"
          using tokens_key(2) [OF t nt, of "r @ CHR ''.'' # k"] pr by (metis append.assoc append_Cons)
        ultimately show ?thesis using ih by simp
      qed
    qed
  qed
qed

text \<open>The table a write goes to, and the key.\<close>

definition split_key :: "string \<Rightarrow> string list \<times> string" where
  "split_key path = (case strrchr_dot path of Some (p, k) \<Rightarrow> (tokens p, k) | None \<Rightarrow> ([], path))"

lemma tokens_split_key:
  assumes "split_key path = (ks, k)" and "k \<noteq> []"
  shows "tokens path = ks @ [k]"
proof (cases "strrchr_dot path")
  case None
  then show ?thesis
    using assms tokens_key(1) [of path] strrchr_dot_None [of path] by (auto simp: split_key_def)
next
  case (Some pk)
  obtain p where pk: "pk = (p, k)" "ks = tokens p" using assms(1) Some by (cases pk) (auto simp: split_key_def)
  then show ?thesis using strrchr_dot_Some [of path p k] Some tokens_append [OF assms(2), of p] by simp
qed

section \<open>Walks after a write\<close>

lemma walk_snoc:
  "walk fld v (ks @ [k]) = (case walk fld v ks of Some (LTable u) \<Rightarrow> Some (fld u k) | _ \<Rightarrow> None)"
  by (induction fld v ks rule: walk.induct) (auto split: lval.splits)

lemma walk_upd:
  "(u, k) \<notin> set (walk_reads fld v ks) \<Longrightarrow> walk (fld_upd fld u k x) v ks = walk fld v ks"
  by (induction fld v ks rule: walk.induct) (auto simp: fld_upd_def)

section \<open>Writes\<close>

lemma set_in_parent_write:
  assumes A: "lua_ok A" and st: "l_stack A L = st @ [v]"
  shows "case push_value type w of
           Inl e \<Rightarrow> (\<exists>u. v = LTable u) \<longrightarrow> set_in_parent A k type w L = Inl e
         | Inr None \<Rightarrow> \<exists>L'. set_in_parent A k type w L = Inr (False, L') \<and> same_but A L st L'
         | Inr (Some x) \<Rightarrow>
             (case v of
                LTable u \<Rightarrow> \<exists>L'. set_in_parent A k type w L = Inr (True, L') \<and> l_stack A L' = st
                  \<and> l_field A L' = fld_upd (l_field A L) u k x \<and> l_global A L' = l_global A L
              | _ \<Rightarrow> \<exists>L'. set_in_parent A k type w L = Inr (False, L') \<and> same_but A L st L')"
proof (cases "\<exists>u. v = LTable u")
  case False
  then have "\<not> lua_istable A L (-1)" using lua_istable_top [OF st] by simp
  then show ?thesis
    using same_but_pop [OF A st] False
    by (auto simp: set_in_parent_def split: sum.splits option.splits lval.splits)
next
  case True
  then obtain u where u: "v = LTable u" by blast
  have tab: "lua_istable A L (-1)" using lua_istable_top [OF st] u by simp
  have "\<exists>L'. set_in_parent A k type w L = Inr (True, L') \<and> l_stack A L' = st
          \<and> l_field A L' = fld_upd (l_field A L) u k x \<and> l_global A L' = l_global A L"
    if x: "push_value type w = Inr (Some x)" for x
  proof -
    let ?L1 = "l_push A x L"
    have s1: "l_stack A ?L1 = (st @ [LTable u]) @ [x]" using A st u by (simp add: lua_push_simps)
    then have "top_table (l_stack A ?L1) (-2) = Some u" by simp
    note f = lua_setfield_simps [OF A this s1, of k] and p = lua_push_simps [OF A, of x L]
    have "Suc 0 \<le> length (l_stack A (l_setfield A (-2) k ?L1))" using f by simp
    with f p show ?thesis
      using tab x by (simp add: set_in_parent_def fld_upd_def lua_pop_simps [OF A])
  qed
  then show ?thesis
    using tab u same_but_pop [OF A st] by (auto simp: set_in_parent_def split: sum.splits option.splits)
qed

text \<open>
  A write finds the parent table by a walk, stores the value there and leaves the stack as it was.
\<close>

lemma set_conf_value_write:
  assumes A: "lua_ok A" and mem: "\<And>n. mem n" and t: "stack_at (l_stack A L) 1 = Some (LTable t)"
    and sk: "split_key path = (ks, k)" and u: "walk (l_field A L) (LTable t) ks = Some (LTable u)"
    and x: "push_value type w = Inr (Some x)"
  shows "\<exists>L'. sm3t__set_conf_value A mem L path type w = Inr (True, L') \<and> l_stack A L' = l_stack A L
           \<and> l_field A L' = fld_upd (l_field A L) u k x \<and> l_global A L' = l_global A L"
proof -
  have tab: "lua_istable A L 1" using t by (simp add: lua_istable_def lua_value_def)
  have "\<exists>L1. sm3t__set_conf_value A mem L path type w = set_in_parent A k type w L1
          \<and> same_but A L (l_stack A L @ [LTable u]) L1"
  proof (cases "strrchr_dot path")
    case None
    then have "k = path" "u = t" using sk u by (auto simp: split_key_def)
    moreover have "same_but A L (l_stack A L @ [LTable t]) (lua_pushvalue A 1 L)"
      using A t by (simp add: same_but_def lua_pushvalue_def lua_value_def lua_push_simps)
    ultimately show ?thesis
      using None tab mem by (auto simp: sm3t__set_conf_value_def c_strdup_def)
  next
    case (Some pk)
    obtain p where p: "pk = (p, k)" "ks = tokens p" using sk Some by (cases pk) (auto simp: split_key_def)
    have "case walk (l_field A L) (LTable t) (tokens p) of
       Some w \<Rightarrow> \<exists>L'. sm3t__traverse_path A mem L p = (True, L') \<and> same_but A L (l_stack A L @ [w]) L'
     | None \<Rightarrow> \<exists>L'. sm3t__traverse_path A mem L p = (False, L') \<and> same_but A L (l_stack A L) L'"
      by (rule traverse_path_walk [OF A mem t])
    then show ?thesis
      using u p Some tab mem by (auto simp: sm3t__set_conf_value_def c_strdup_def)
  qed
  then obtain L1 where L1: "sm3t__set_conf_value A mem L path type w = set_in_parent A k type w L1"
      "same_but A L (l_stack A L @ [LTable u]) L1" by blast
  then have st: "l_stack A L1 = l_stack A L @ [LTable u]" by (simp add: same_but_def)
  show ?thesis
    using set_in_parent_write [where type = type and w = w and k = k, OF A st] x L1 by (simp add: same_but_def)
qed

text \<open>What a typed read makes of a value just written.\<close>

fun storable :: "sm3t_type_t \<Rightarrow> sm3t_value_t \<Rightarrow> bool" where
  "storable SM3T_CINT (As_int n) \<longleftrightarrow> \<bar>n\<bar> \<le> 2 ^ 53"
| "storable SM3T_CFLOAT (As_float x) \<longleftrightarrow> True"
| "storable SM3T_CBOOL (As_bool b) \<longleftrightarrow> True"
| "storable SM3T_CSTRING (As_string (Some s)) \<longleftrightarrow> s \<noteq> []"
| "storable _ _ \<longleftrightarrow> False"

lemma storable_typed:
  "storable type w \<Longrightarrow> \<exists>x. push_value type w = Inr (Some x) \<and> typed A type x = Inr (Some w)"
  by (cases "(type, w)" rule: storable.cases)
     (auto simp: push_value_def typed_def num_value_def int64_double_round_trip)

lemma conf_lookup_same:
  assumes "l_stack A L' = l_stack A L" and "l_field A L' = l_field A L"
  shows "conf_lookup A L' path type = conf_lookup A L path type"
  unfolding conf_lookup_def assms by (rule refl)

text \<open>
  A write followed by a read of the same path, and of another path that does not read the written
  field.
\<close>

lemma lookup_after_set:
  assumes A: "lua_ok A" and mem: "\<And>n. mem n" and t: "stack_at (l_stack A L) 1 = Some (LTable t)"
    and sk: "split_key path = (ks, k)" "k \<noteq> []" and u: "walk (l_field A L) (LTable t) ks = Some (LTable u)"
    and tree: "(u, k) \<notin> set (walk_reads (l_field A L) (LTable t) ks)"
    and w: "storable type w"
  shows "\<exists>L'. sm3t__set_conf_value A mem L path type w = Inr (True, L') \<and> l_stack A L' = l_stack A L
      \<and> (\<exists>x. l_field A L' = fld_upd (l_field A L) u k x) \<and> conf_lookup A L' path type = Inr (Some w)
      \<and> (\<forall>path' type'. (u, k) \<notin> set (walk_reads (l_field A L) (LTable t) (tokens path'))
           \<longrightarrow> conf_lookup A L' path' type' = conf_lookup A L path' type')"
proof -
  obtain x where x: "push_value type w = Inr (Some x)" "typed A type x = Inr (Some w)"
    using storable_typed [OF w] by blast
  have "\<exists>L'. sm3t__set_conf_value A mem L path type w = Inr (True, L') \<and> l_stack A L' = l_stack A L
           \<and> l_field A L' = fld_upd (l_field A L) u k x \<and> l_global A L' = l_global A L"
    by (rule set_conf_value_write [OF A mem t sk(1) u x(1)])
  then obtain L' where L': "sm3t__set_conf_value A mem L path type w = Inr (True, L')"
      "l_stack A L' = l_stack A L" "l_field A L' = fld_upd (l_field A L) u k x" by blast
  have "walk (l_field A L') (LTable t) (tokens path) = Some x"
    using walk_upd [OF tree, of x] u L'(3) tokens_split_key [OF sk] by (simp add: walk_snoc fld_upd_def)
  then have "conf_lookup A L' path type = Inr (Some w)" using t L'(2) x(2) by (simp add: conf_lookup_def)
  moreover have "conf_lookup A L' path' type' = conf_lookup A L path' type'"
    if "(u, k) \<notin> set (walk_reads (l_field A L) (LTable t) (tokens path'))" for path' type'
    using walk_upd [OF that, of x] t L'(2,3) by (simp add: conf_lookup_def)
  ultimately show ?thesis using L' by blast
qed

section \<open>The calls and their specification\<close>

text \<open>
  C6. A typed read by path is a lookup: it reports success exactly when the walk along the path ends at a
  value of the type, hands out that value and leaves the caller's variable alone otherwise, and leaves
  the Lua stack, the tables and the globals as they were; it aborts exactly when the lookup meets a value
  whose conversion aborts.
\<close>

theorem conf_read_is_lookup:
  assumes "lua_ok A" and "\<And>n. mem n"
  shows "case conf_lookup A L path type of
           Inl e \<Rightarrow> sm3t__get_conf_value A mem L path type out = Inl e
         | Inr r \<Rightarrow> \<exists>L'. same_but A L (l_stack A L) L' \<and> sm3t__get_conf_value A mem L path type out =
             Inr (case r of None \<Rightarrow> (False, L', out) | Some x \<Rightarrow> (True, L', x))"
  by (rule get_conf_value_lookup [OF assms])

text \<open>
  C5. What is written to a path is read back from it, and no read whose walk does not pass the written
  field sees a difference: if the table on the way exists and the value is one its type can hold
  exactly (an integer of at most 53 bits, a non-empty string), the write succeeds, the following read
  gives the value, and both leave the Lua stack as it was.
\<close>

theorem conf_write_then_read:
  assumes A: "lua_ok A" and mem: "\<And>n. mem n" and t: "stack_at (l_stack A L) 1 = Some (LTable t)"
    and sk: "split_key path = (ks, k)" "k \<noteq> []" and u: "walk (l_field A L) (LTable t) ks = Some (LTable u)"
    and tree: "(u, k) \<notin> set (walk_reads (l_field A L) (LTable t) ks)" and w: "storable type w"
  shows "\<exists>L1 L2. sm3t__set_conf_value A mem L path type w = Inr (True, L1)
      \<and> sm3t__get_conf_value A mem L1 path type out = Inr (True, L2, w) \<and> l_stack A L2 = l_stack A L
      \<and> (\<forall>path' type'. (u, k) \<notin> set (walk_reads (l_field A L) (LTable t) (tokens path'))
           \<longrightarrow> conf_lookup A L2 path' type' = conf_lookup A L path' type')"
proof -
  have "\<exists>L'. sm3t__set_conf_value A mem L path type w = Inr (True, L') \<and> l_stack A L' = l_stack A L
      \<and> (\<exists>x. l_field A L' = fld_upd (l_field A L) u k x) \<and> conf_lookup A L' path type = Inr (Some w)
      \<and> (\<forall>path' type'. (u, k) \<notin> set (walk_reads (l_field A L) (LTable t) (tokens path'))
           \<longrightarrow> conf_lookup A L' path' type' = conf_lookup A L path' type')"
    by (rule lookup_after_set [OF A mem t sk u tree w])
  then obtain L1 where L1: "sm3t__set_conf_value A mem L path type w = Inr (True, L1)"
      "l_stack A L1 = l_stack A L" "conf_lookup A L1 path type = Inr (Some w)"
      "\<forall>path' type'. (u, k) \<notin> set (walk_reads (l_field A L) (LTable t) (tokens path'))
           \<longrightarrow> conf_lookup A L1 path' type' = conf_lookup A L path' type'" by blast
  from get_conf_value_lookup [where mem = mem and out = out and L = L1 and path = path and type = type, OF A mem] L1(3)
  obtain L2 where L2: "same_but A L1 (l_stack A L1) L2"
      "sm3t__get_conf_value A mem L1 path type out = Inr (True, L2, w)" by auto
  then have "conf_lookup A L2 path' type' = conf_lookup A L1 path' type'" for path' type'
    by (intro conf_lookup_same) (simp_all add: same_but_def)
  with L1 L2 show ?thesis by (auto simp: same_but_def)
qed

end
