(* ===== verification/Sm3t_Parser.thy ===== *)
theory Sm3t_Parser
  imports Sm3t_Conf_Rw
begin

text \<open>
  Validation of the configuration against the schema (\<open>src/conf/lua/sm3t_parser.c\<close>). A table of the
  schema is the list of its nodes up to the terminating node. The field path the code builds while it
  descends only feeds log messages and is left out.

  The specification \<open>check_tab\<close> looks at the tables alone; the code's loop works on the Lua stack.
\<close>

section \<open>Schema\<close>

datatype sm3t_conf_node_t =
  Node (n_key: string) (n_type: sm3t_type_t) (n_required: bool)
    (n_validator: "(sm3t_value_t \<Rightarrow> sm3t_type_t \<Rightarrow> bool cres) option")
    (n_child: "sm3t_conf_node_t list option")

abbreviation node :: "string \<Rightarrow> sm3t_type_t \<Rightarrow> sm3t_conf_node_t" where
  "node k ty \<equiv> Node k ty False None None"

abbreviation node_v :: "string \<Rightarrow> sm3t_type_t \<Rightarrow> (sm3t_value_t \<Rightarrow> sm3t_type_t \<Rightarrow> bool cres) \<Rightarrow> sm3t_conf_node_t" where
  "node_v k ty f \<equiv> Node k ty False (Some f) None"

abbreviation node_c :: "string \<Rightarrow> sm3t_conf_node_t list \<Rightarrow> sm3t_conf_node_t" where
  "node_c k cs \<equiv> Node k SM3T_CTABLE False None (Some cs)"

definition sm3t__conf_type_name :: "sm3t_type_t \<Rightarrow> string" where
  "sm3t__conf_type_name type =
     (case type of SM3T_CINT \<Rightarrow> ''integer'' | SM3T_CFLOAT \<Rightarrow> ''float'' | SM3T_CBOOL \<Rightarrow> ''boolean''
      | SM3T_CSTRING \<Rightarrow> ''string'' | SM3T_CTABLE \<Rightarrow> ''table'' | SM3T_CFUNCTION \<Rightarrow> ''function'')"

text \<open>Enumeration constants of \<open>include/sm3t_conf.h\<close>.\<close>

definition SM3T__MODE_TRANSPARENT :: int where "SM3T__MODE_TRANSPARENT = 0"
definition SM3T__MODE_FORWARD :: int where "SM3T__MODE_FORWARD = 1"
definition SM3T__MODE_SOCKS5 :: int where "SM3T__MODE_SOCKS5 = 2"
definition SM3T__MODE_COUNT :: int where "SM3T__MODE_COUNT = 3"

definition failure_policies :: "int set" where "failure_policies = {0, 1, 2}"
definition orig_dst_policies :: "int set" where "orig_dst_policies = {0, 1, 2}"
definition backpressure_policies :: "int set" where "backpressure_policies = {0, 1}"

definition as_int :: "sm3t_value_t \<Rightarrow> int cres" where
  "as_int v = (case v of As_int n \<Rightarrow> Inr n | _ \<Rightarrow> Inl Bad_Conversion)"

definition verify_port :: "sm3t_value_t \<Rightarrow> sm3t_type_t \<Rightarrow> bool cres" where
  "verify_port port type =
     (if type \<noteq> SM3T_CINT then Inr False
      else cbind (as_int port) (\<lambda>n. if n > UINT16_MAX \<or> n \<le> 0 then Inr False else Inr True))"

definition verify_mode :: "sm3t_value_t \<Rightarrow> sm3t_type_t \<Rightarrow> bool cres" where
  "verify_mode mode type =
     (if type \<noteq> SM3T_CINT then Inr False
      else cbind (as_int mode) (\<lambda>n. if n \<ge> SM3T__MODE_COUNT \<or> n < 0 then Inr False else Inr True))"

definition verify_failure_policy :: "sm3t_value_t \<Rightarrow> sm3t_type_t \<Rightarrow> bool cres" where
  "verify_failure_policy policy type =
     (if type \<noteq> SM3T_CINT then Inr False else cbind (as_int policy) (\<lambda>n. Inr (n \<in> failure_policies)))"

definition verify_dst_policy :: "sm3t_value_t \<Rightarrow> sm3t_type_t \<Rightarrow> bool cres" where
  "verify_dst_policy policy type =
     (if type \<noteq> SM3T_CINT then Inr False else cbind (as_int policy) (\<lambda>n. Inr (n \<in> orig_dst_policies)))"

definition verify_backpressure_policy :: "sm3t_value_t \<Rightarrow> sm3t_type_t \<Rightarrow> bool cres" where
  "verify_backpressure_policy backpressure type =
     (if type \<noteq> SM3T_CINT then Inr False
      else cbind (as_int backpressure) (\<lambda>n. Inr (n \<in> backpressure_policies)))"

definition log_out_tab :: "sm3t_conf_node_t list" where
  "log_out_tab = [node ''file'' SM3T_CBOOL, node ''stdout'' SM3T_CBOOL, node ''syslog'' SM3T_CBOOL]"

definition logging_tab :: "sm3t_conf_node_t list" where
  "logging_tab = [node ''level'' SM3T_CINT, node ''format'' SM3T_CINT, node ''file_path'' SM3T_CSTRING,
     node_c ''out'' log_out_tab]"

definition sys_tab :: "sm3t_conf_node_t list" where
  "sys_tab = [node ''name'' SM3T_CSTRING, node ''user'' SM3T_CSTRING, node ''group'' SM3T_CSTRING,
     node ''chroot'' SM3T_CSTRING, node_c ''logging'' logging_tab]"

definition listen_tab :: "sm3t_conf_node_t list" where
  "listen_tab = [node_v ''mode'' SM3T_CINT verify_mode, node_v ''port'' SM3T_CINT verify_port,
     node ''address'' SM3T_CSTRING]"

definition forward_tab :: "sm3t_conf_node_t list" where
  "forward_tab = [node ''upstreams'' SM3T_CTABLE, node ''upstreams_count'' SM3T_CINT,
     node_v ''failure_policy'' SM3T_CINT verify_failure_policy]"

definition limit_tab :: "sm3t_conf_node_t list" where
  "limit_tab = [node ''max_total'' SM3T_CINT, node ''max_per_src'' SM3T_CINT]"

definition timeout_tab :: "sm3t_conf_node_t list" where
  "timeout_tab = [node ''connect_ms'' SM3T_CINT, node ''idle_ms'' SM3T_CINT, node ''lifetime_ms'' SM3T_CINT]"

definition retries_tab :: "sm3t_conf_node_t list" where
  "retries_tab = [node ''enable'' SM3T_CBOOL, node ''max'' SM3T_CINT, node ''backoff_ms'' SM3T_CINT]"

definition conn_tab :: "sm3t_conf_node_t list" where
  "conn_tab = [node_c ''limit'' limit_tab, node_c ''timeout'' timeout_tab, node_c ''retries'' retries_tab]"

definition keepalive_tab :: "sm3t_conf_node_t list" where
  "keepalive_tab = [node ''enable'' SM3T_CBOOL, node ''idle_ms'' SM3T_CINT, node ''interval_ms'' SM3T_CINT,
     node ''count'' SM3T_CINT]"

definition transport_tab :: "sm3t_conf_node_t list" where
  "transport_tab = [node_c ''keepalive'' keepalive_tab, node ''nodelay'' SM3T_CBOOL,
     node ''reset_on_violation'' SM3T_CBOOL]"

definition hooks_tab :: "sm3t_conf_node_t list" where
  "hooks_tab = [node ''on_connect'' SM3T_CFUNCTION, node ''on_data'' SM3T_CFUNCTION,
     node ''on_disconnect'' SM3T_CFUNCTION]"

definition metrics_tab :: "sm3t_conf_node_t list" where
  "metrics_tab = [node ''per_src'' SM3T_CBOOL, node ''per_dst'' SM3T_CBOOL]"

definition log_tab :: "sm3t_conf_node_t list" where
  "log_tab = [node ''src_ip'' SM3T_CBOOL, node ''src_port'' SM3T_CBOOL, node ''dst_ip'' SM3T_CBOOL,
     node ''dst_port'' SM3T_CBOOL, node ''bytes_in'' SM3T_CBOOL, node ''bytes_out'' SM3T_CBOOL,
     node ''duration'' SM3T_CBOOL, node ''err'' SM3T_CBOOL]"

definition telemetry_tab :: "sm3t_conf_node_t list" where
  "telemetry_tab = [node ''enable'' SM3T_CBOOL, node_c ''metrics'' metrics_tab, node_c ''log'' log_tab]"

definition tcp_tab :: "sm3t_conf_node_t list" where
  "tcp_tab = [node_c ''listen'' listen_tab, node_v ''orig_dst'' SM3T_CINT verify_dst_policy,
     node_c ''forward'' forward_tab, node_c ''conn'' conn_tab,
     node_v ''backpresure'' SM3T_CINT verify_backpressure_policy,
     node_c ''transport'' transport_tab, node_c ''telemetry'' telemetry_tab]"

definition root_tab :: "sm3t_conf_node_t list" where
  "root_tab = [node_c ''sys'' sys_tab, node_c ''tcp'' tcp_tab, node_c ''hooks'' hooks_tab]"

section \<open>Validation on the Lua stack\<close>

text \<open>
  \<open>flt\<close> is the rounding of a \<open>double\<close> to a \<open>float\<close>. The value handed to a validator, and the checks
  of a node that is not a table with children; the field's value is the top of the stack.
\<close>

definition node_value :: "(cdouble \<Rightarrow> cdouble) \<Rightarrow> sm3t_type_t \<Rightarrow> cdouble \<Rightarrow> sm3t_value_t cres" where
  "node_value flt type x =
     (if type = SM3T_CINT then cbind (int64_of_double x) (\<lambda>n. Inr (As_int n)) else Inr (As_float (flt x)))"

definition validate_leaf ::
  "'l lua_api \<Rightarrow> (cdouble \<Rightarrow> cdouble) \<Rightarrow> sm3t_conf_node_t \<Rightarrow> 'l \<Rightarrow> (bool \<times> 'l) cres" where
  "validate_leaf A flt nd L =
     (case n_type nd of
        SM3T_CBOOL \<Rightarrow> Inr (lua_isboolean A L (-1), L)
      | SM3T_CSTRING \<Rightarrow>
          if \<not> lua_isstring A L (-1) \<and> n_required nd then Inr (False, l_push A LNil L)
          else (case n_validator nd of None \<Rightarrow> Inr (True, L)
            | Some f \<Rightarrow> cbind (f (As_string (lua_tostring A L (-1))) SM3T_CSTRING) (\<lambda>ok. Inr (ok, L)))
      | SM3T_CFUNCTION \<Rightarrow> Inr (lua_isfunction A L (-1), L)
      | SM3T_CTABLE \<Rightarrow> Inr (lua_istable A L (-1), L)
      | _ \<Rightarrow>
          if \<not> lua_isnumber A L (-1) then Inr (\<not> n_required nd, l_push A (LNum (Fin 0)) L)
          else (case n_validator nd of None \<Rightarrow> Inr (True, L)
            | Some f \<Rightarrow> cbind (node_value flt (n_type nd) (lua_tonumber A L (-1))) (\<lambda>v.
                cbind (f v (n_type nd)) (\<lambda>ok. Inr (ok, L)))))"

lemma child_size: "n_child nd = Some child \<Longrightarrow> size_list size child < size nd"
  by (cases nd) auto

function (sequential) validate_tab_node ::
    "'l lua_api \<Rightarrow> (cdouble \<Rightarrow> cdouble) \<Rightarrow> 'l \<Rightarrow> int \<Rightarrow> sm3t_conf_node_t list \<Rightarrow> (bool \<times> 'l) cres"
  and validate_loop ::
    "'l lua_api \<Rightarrow> (cdouble \<Rightarrow> cdouble) \<Rightarrow> 'l \<Rightarrow> int \<Rightarrow> sm3t_conf_node_t list \<Rightarrow> bool \<Rightarrow> (bool \<times> 'l) cres"
where
  "validate_tab_node A flt L index tab =
     (if \<not> lua_istable A L index then Inr (False, L)
      else validate_loop A flt L (if index < 0 then lua_gettop A L + index + 1 else index) tab True)"
| "validate_loop A flt L abs_idx [] all_valid = Inr (all_valid, L)"
| "validate_loop A flt L abs_idx (nd # tab) all_valid =
     (let L = l_getfield A abs_idx (n_key nd) L in
      cbind (case (n_type nd, n_child nd) of
               (SM3T_CTABLE, Some child) \<Rightarrow>
                 if \<not> lua_istable A L (-1) then Inr (False, L) else validate_tab_node A flt L (-1) child
             | _ \<Rightarrow> validate_leaf A flt nd L) (\<lambda>(valid, L).
        validate_loop A flt (l_pop A 1 L) abs_idx tab (if \<not> valid then False else all_valid)))"
  by pat_completeness auto

termination
  by (relation "measure (case_sum (\<lambda>(A, flt, L, i, tab). 2 * size_list size tab + 1)
                                  (\<lambda>(A, flt, L, i, tab, b). 2 * size_list size tab))")
     (auto dest!: child_size [OF sym])

declare validate_tab_node.simps [simp del] validate_loop.simps [simp del]

definition sm3t__parse_conf :: "'l lua_api \<Rightarrow> (cdouble \<Rightarrow> cdouble) \<Rightarrow> 'l \<Rightarrow> (bool \<times> 'l) cres" where
  "sm3t__parse_conf A flt L =
     cbind (validate_tab_node A flt L (-1) root_tab) (\<lambda>(ok, L). Inr (if \<not> ok then (False, L) else (True, L)))"

text \<open>A fresh state with the compiled file as a function on its stack.\<close>

definition sm3t__load_conf :: "'l lua_api \<Rightarrow> string \<Rightarrow> 'l option" where
  "sm3t__load_conf A path =
     (case l_newstate A of None \<Rightarrow> None
      | Some L \<Rightarrow> let (ok, L) = l_loadfile A path L in if \<not> ok then None else Some L)"

section \<open>Specification of validation\<close>

text \<open>Whether a field's value is acceptable, and how many values checking it leaves on the stack.\<close>

definition check_leaf ::
  "'l lua_api \<Rightarrow> (cdouble \<Rightarrow> cdouble) \<Rightarrow> sm3t_conf_node_t \<Rightarrow> lval \<Rightarrow> (bool \<times> nat) cres" where
  "check_leaf A flt nd v =
     (case n_type nd of
        SM3T_CBOOL \<Rightarrow> Inr ((case v of LBool _ \<Rightarrow> True | _ \<Rightarrow> False), 0)
      | SM3T_CSTRING \<Rightarrow>
          (let str = (case v of LStr s \<Rightarrow> Some s | LInt n \<Rightarrow> Some (l_num2str A v)
                      | LNum x \<Rightarrow> Some (l_num2str A v) | _ \<Rightarrow> None) in
           if str = None \<and> n_required nd then Inr (False, 1)
           else (case n_validator nd of None \<Rightarrow> Inr (True, 0)
             | Some f \<Rightarrow> cbind (f (As_string str) SM3T_CSTRING) (\<lambda>ok. Inr (ok, 0))))
      | SM3T_CFUNCTION \<Rightarrow> Inr ((case v of LFun _ \<Rightarrow> True | _ \<Rightarrow> False), 0)
      | SM3T_CTABLE \<Rightarrow> Inr ((case v of LTable _ \<Rightarrow> True | _ \<Rightarrow> False), 0)
      | _ \<Rightarrow>
          (case num_value A v of None \<Rightarrow> Inr (\<not> n_required nd, 1)
           | Some x \<Rightarrow> (case n_validator nd of None \<Rightarrow> Inr (True, 0)
               | Some f \<Rightarrow> cbind (node_value flt (n_type nd) x) (\<lambda>w.
                   cbind (f w (n_type nd)) (\<lambda>ok. Inr (ok, 0))))))"

function (sequential) check_tab ::
  "'l lua_api \<Rightarrow> (cdouble \<Rightarrow> cdouble) \<Rightarrow> (nat \<Rightarrow> string \<Rightarrow> lval) \<Rightarrow> nat \<Rightarrow> sm3t_conf_node_t list
     \<Rightarrow> (bool \<times> nat) cres" where
  "check_tab A flt fld t [] = Inr (True, 0)"
| "check_tab A flt fld t (nd # tab) =
     cbind (case (n_type nd, n_child nd) of
              (SM3T_CTABLE, Some child) \<Rightarrow>
                (case fld t (n_key nd) of LTable u \<Rightarrow> check_tab A flt fld u child | _ \<Rightarrow> Inr (False, 0))
            | _ \<Rightarrow> check_leaf A flt nd (fld t (n_key nd))) (\<lambda>(ok, k).
     cbind (check_tab A flt fld t tab) (\<lambda>(oks, ks). Inr (ok \<and> oks, k + ks)))"
  by pat_completeness auto
termination
  by (relation "measure (\<lambda>(A, flt, fld, t, tab). size_list size tab)") (auto dest!: child_size [OF sym])

text \<open>The Lua state after a check that leaves \<open>k\<close> values behind.\<close>

definition leaves :: "'l lua_api \<Rightarrow> 'l \<Rightarrow> nat \<Rightarrow> 'l \<Rightarrow> bool" where
  "leaves A L k L' \<longleftrightarrow> (\<exists>xs. length xs = k \<and> same_but A L (l_stack A L @ xs) L')"

lemma leaves_0: "leaves A L 0 L"
  by (simp add: leaves_def same_but_def)

lemma leaves_push: "lua_ok A \<Longrightarrow> leaves A L 1 (l_push A v L)"
  unfolding leaves_def by (rule exI [of _ "[v]"]) (simp add: same_but_def lua_push_simps)

lemma leaves_trans: "leaves A L j L' \<Longrightarrow> leaves A L' k L'' \<Longrightarrow> leaves A L (j + k) L''"
  unfolding leaves_def same_but_def by (metis append.assoc length_append)

lemma leaves_pop:
  assumes "lua_ok A" and "leaves A L (Suc k) L'"
  shows "leaves A L k (l_pop A 1 L')"
proof -
  obtain xs where xs: "length xs = Suc k" "same_but A L (l_stack A L @ xs) L'"
    using assms(2) by (auto simp: leaves_def)
  then show ?thesis
    unfolding leaves_def using assms(1)
    by (intro exI [of _ "take k xs"]) (simp add: same_but_def lua_pop_simps)
qed

lemma validate_leaf_check:
  assumes A: "lua_ok A" and st: "l_stack A L = st @ [v]"
  shows "case check_leaf A flt nd v of
           Inl e \<Rightarrow> validate_leaf A flt nd L = Inl e
         | Inr (ok, k) \<Rightarrow> \<exists>L'. validate_leaf A flt nd L = Inr (ok, L') \<and> leaves A L k L'"
  using lua_value_top [OF st] leaves_0 [of A L] leaves_push [OF A, of L]
  by (cases "n_type nd"; cases v)
     (auto simp: validate_leaf_def check_leaf_def lua_isstring_def lua_tostring_def lua_isboolean_def
        lua_isfunction_def lua_istable_def lua_isnumber_def lua_tonumber_def num_value_def cbind_def
        split: option.splits sum.splits)

text \<open>Positive indices keep their value when the stack grows.\<close>

lemma top_table_leaves:
  assumes "leaves A L k L'" and "top_table (l_stack A L) i = Some t" and "0 < i"
  shows "top_table (l_stack A L') i = Some t"
proof -
  obtain v where v: "stack_at (l_stack A L) i = Some v" using assms(2) by (auto simp: top_table_def split: option.splits)
  obtain xs where "l_stack A L' = l_stack A L @ xs" using assms(1) by (auto simp: leaves_def same_but_def)
  then show ?thesis using stack_at_append [OF v assms(3), of xs] v assms(2) by (simp add: top_table_def)
qed

text \<open>\<open>checks\<close>: a computation on the stack agrees with a check of the tables.\<close>

definition checks :: "'l lua_api \<Rightarrow> 'l \<Rightarrow> bool \<Rightarrow> (bool \<times> nat) cres \<Rightarrow> (bool \<times> 'l) cres \<Rightarrow> bool" where
  "checks A L b c r \<longleftrightarrow>
     (case c of Inl e \<Rightarrow> r = Inl e | Inr (ok, k) \<Rightarrow> \<exists>L'. r = Inr (b \<and> ok, L') \<and> leaves A L k L')"

lemma checks_Inr: "checks A L b (Inr (ok, k)) r \<longleftrightarrow> (\<exists>L'. r = Inr (b \<and> ok, L') \<and> leaves A L k L')"
  by (simp add: checks_def)

lemma checks_Inl: "checks A L b (Inl e) r \<longleftrightarrow> r = Inl e"
  by (simp add: checks_def)

text \<open>The check of one node, on the tables and on the stack.\<close>

definition check_node ::
  "'l lua_api \<Rightarrow> (cdouble \<Rightarrow> cdouble) \<Rightarrow> (nat \<Rightarrow> string \<Rightarrow> lval) \<Rightarrow> sm3t_conf_node_t \<Rightarrow> lval \<Rightarrow> (bool \<times> nat) cres"
where
  "check_node A flt fld nd v =
     (case (n_type nd, n_child nd) of
        (SM3T_CTABLE, Some child) \<Rightarrow> (case v of LTable u \<Rightarrow> check_tab A flt fld u child | _ \<Rightarrow> Inr (False, 0))
      | _ \<Rightarrow> check_leaf A flt nd v)"

definition validate_node ::
  "'l lua_api \<Rightarrow> (cdouble \<Rightarrow> cdouble) \<Rightarrow> sm3t_conf_node_t \<Rightarrow> 'l \<Rightarrow> (bool \<times> 'l) cres" where
  "validate_node A flt nd L =
     (case (n_type nd, n_child nd) of
        (SM3T_CTABLE, Some child) \<Rightarrow>
          if \<not> lua_istable A L (-1) then Inr (False, L) else validate_tab_node A flt L (-1) child
      | _ \<Rightarrow> validate_leaf A flt nd L)"

lemma validate_loop_step:
  "validate_loop A flt L i (nd # tab) b =
     cbind (validate_node A flt nd (l_getfield A i (n_key nd) L)) (\<lambda>(valid, L).
       validate_loop A flt (l_pop A 1 L) i tab (if \<not> valid then False else b))"
  by (simp add: validate_loop.simps validate_node_def Let_def)

lemma check_tab_step:
  "check_tab A flt fld t (nd # tab) = cbind (check_node A flt fld nd (fld t (n_key nd))) (\<lambda>(ok, k).
     cbind (check_tab A flt fld t tab) (\<lambda>(oks, ks). Inr (ok \<and> oks, k + ks)))"
  by (simp add: check_node_def)

lemma validate_node_check:
  assumes A: "lua_ok A" and st: "l_stack A L = st @ [v]" and fld: "l_field A L = fld"
    and ih: "\<And>child u i. \<lbrakk> n_type nd = SM3T_CTABLE; n_child nd = Some child; v = LTable u;
               top_table (l_stack A L) i = Some u; 0 < i \<rbrakk>
             \<Longrightarrow> checks A L True (check_tab A flt fld u child) (validate_loop A flt L i child True)"
  shows "checks A L True (check_node A flt fld nd v) (validate_node A flt nd L)"
proof (cases "n_type nd = SM3T_CTABLE \<and> n_child nd \<noteq> None")
  case False
  then have "check_node A flt fld nd v = check_leaf A flt nd v"
      "validate_node A flt nd L = validate_leaf A flt nd L"
    by (auto simp: check_node_def validate_node_def split: sm3t_type_t.splits option.splits)
  then show ?thesis
    using validate_leaf_check [OF A st, of flt nd] by (simp add: checks_def split: sum.splits prod.splits)
next
  case True
  then obtain child where ty: "n_type nd = SM3T_CTABLE" and ch: "n_child nd = Some child" by auto
  show ?thesis
  proof (cases "\<exists>u. v = LTable u")
    case False
    then show ?thesis
      using ty ch lua_istable_top [OF st] leaves_0 [of A L]
      by (cases v) (auto simp: check_node_def validate_node_def checks_def)
  next
    case True
    then obtain u where u: "v = LTable u" by blast
    have "top_table (l_stack A L) (lua_gettop A L) = Some u" "0 < lua_gettop A L"
      using st u by (auto simp: lua_gettop_def top_table_def stack_at_def nth_append)
    from ih [OF ty ch u this] show ?thesis
      using ty ch u lua_istable_top [OF st]
      by (simp add: check_node_def validate_node_def validate_tab_node.simps)
  qed
qed

lemma validate_loop_check:
  assumes "lua_ok A" and "top_table (l_stack A L) i = Some t" and "0 < i" and "l_field A L = fld"
  shows "checks A L b (check_tab A flt fld t tab) (validate_loop A flt L i tab b)"
  using assms
proof (induction A flt fld t tab arbitrary: L i b rule: check_tab.induct)
  case (1 A flt fld t)
  then show ?case by (simp add: checks_def validate_loop.simps leaves_0)
next
  case (2 A flt fld t nd tab)
  note A = 2(3) and i = 2(4,5) and fld = 2(6)
  let ?v = "fld t (n_key nd)"
  let ?L1 = "l_getfield A i (n_key nd) L"
  note g = lua_getfield_simps [OF A i(1), of "n_key nd"]
  have st: "l_stack A ?L1 = l_stack A L @ [?v]" using g fld by simp
  have one: "leaves A L 1 ?L1"
    unfolding leaves_def using g fld by (intro exI [of _ "[?v]"]) (simp add: same_but_def)
  have head: "checks A ?L1 True (check_node A flt fld nd ?v) (validate_node A flt nd ?L1)"
    using 2(1) A g fld by (intro validate_node_check [OF A st]) auto
  show ?case
  proof (cases "check_node A flt fld nd ?v")
    case (Inl e)
    with head show ?thesis by (simp add: validate_loop_step check_tab_step checks_Inl del: check_tab.simps)
  next
    case (Inr okk)
    obtain ok k where okk: "okk = (ok, k)" by (cases okk)
    obtain L2 where r: "validate_node A flt nd ?L1 = Inr (ok, L2)" and l2: "leaves A ?L1 k L2"
      using head unfolding Inr okk checks_Inr by auto
    let ?L3 = "l_pop A 1 L2"
    have l3: "leaves A L k ?L3" using leaves_pop [OF A, of L k L2] leaves_trans [OF one l2] by simp
    have f3: "l_field A ?L3 = fld" using l3 fld by (auto simp: leaves_def same_but_def)
    have ih: "checks A ?L3 (if \<not> ok then False else b) (check_tab A flt fld t tab)
        (validate_loop A flt ?L3 i tab (if \<not> ok then False else b))"
      by (rule 2(2) [OF Inr [unfolded check_node_def prod.case] okk [symmetric] A top_table_leaves [OF l3 i] i(2) f3])
    show ?thesis
      using ih leaves_trans [OF l3]
      by (cases "check_tab A flt fld t tab")
         (auto simp: validate_loop_step check_tab_step Inr okk r checks_def simp del: check_tab.simps)
  qed
qed

lemma parse_conf_check:
  assumes "lua_ok A" and "l_stack A L = st @ [LTable t]"
  shows "checks A L True (check_tab A flt (l_field A L) t root_tab) (sm3t__parse_conf A flt L)"
proof -
  have "top_table (l_stack A L) (lua_gettop A L) = Some t" "0 < lua_gettop A L"
    using assms(2) by (auto simp: lua_gettop_def top_table_def stack_at_def nth_append)
  from validate_loop_check [OF assms(1) this refl, of True flt root_tab] show ?thesis
    using lua_istable_top [OF assms(2)]
    by (auto simp: sm3t__parse_conf_def validate_tab_node.simps checks_def split: sum.splits)
qed

section \<open>What an accepted configuration satisfies\<close>

lemma check_tab_node:
  assumes "check_tab A flt fld t tab = Inr (True, k)" and "nd \<in> set tab"
  shows "\<exists>j. check_node A flt fld nd (fld t (n_key nd)) = Inr (True, j)"
  using assms
proof (induction tab arbitrary: k)
  case Nil
  then show ?case by simp
next
  case (Cons n tab)
  from Cons.prems(1) obtain j l where h: "check_node A flt fld n (fld t (n_key n)) = Inr (True, j)"
      and r: "check_tab A flt fld t tab = Inr (True, l)"
    by (auto simp: check_tab_step cbind_eq_Inr simp del: check_tab.simps)
  then show ?case using Cons.IH [OF r] Cons.prems(2) by auto
qed

lemma check_node_table:
  assumes "check_node A flt fld (node_c key child) v = Inr (True, j)"
  shows "\<exists>u. v = LTable u \<and> check_tab A flt fld u child = Inr (True, j)"
  using assms by (cases v) (auto simp: check_node_def)

lemma check_node_int:
  assumes "check_node A flt fld (node_v key SM3T_CINT f) v = Inr (True, j)" and "num_value A v = Some x"
  shows "\<exists>n. int64_of_double x = Inr n \<and> f (As_int n) SM3T_CINT = Inr True"
  using assms by (auto simp: check_node_def check_leaf_def node_value_def cbind_eq_Inr cbind_assoc)

lemma accepted_listen:
  assumes "check_tab A flt fld t root_tab = Inr (True, k)"
  shows "\<exists>u w. fld t ''tcp'' = LTable u \<and> fld u ''listen'' = LTable w
           \<and> (\<forall>x. num_value A (fld w ''port'') = Some x \<longrightarrow> (\<exists>n. int64_of_double x = Inr n \<and> 0 < n \<and> n \<le> UINT16_MAX))
           \<and> (\<forall>x. num_value A (fld w ''mode'') = Some x \<longrightarrow>
                 (\<exists>n. int64_of_double x = Inr n \<and> 0 \<le> n \<and> n < SM3T__MODE_COUNT))"
proof -
  have "node_c ''tcp'' tcp_tab \<in> set root_tab" by (simp add: root_tab_def)
  from check_tab_node [OF assms this] obtain u ku
    where u: "fld t ''tcp'' = LTable u" "check_tab A flt fld u tcp_tab = Inr (True, ku)"
    using check_node_table by fastforce
  have "node_c ''listen'' listen_tab \<in> set tcp_tab" by (simp add: tcp_tab_def)
  from check_tab_node [OF u(2) this] obtain w kw
    where w: "fld u ''listen'' = LTable w" "check_tab A flt fld w listen_tab = Inr (True, kw)"
    using check_node_table by fastforce
  have nodes: "node_v ''port'' SM3T_CINT verify_port \<in> set listen_tab"
      "node_v ''mode'' SM3T_CINT verify_mode \<in> set listen_tab" by (simp_all add: listen_tab_def)
  have "\<exists>n. int64_of_double x = Inr n \<and> 0 < n \<and> n \<le> UINT16_MAX" if "num_value A (fld w ''port'') = Some x" for x
    using check_tab_node [OF w(2) nodes(1)] check_node_int [OF _ that]
    by (fastforce simp: verify_port_def as_int_def split: if_splits)
  moreover have "\<exists>n. int64_of_double x = Inr n \<and> 0 \<le> n \<and> n < SM3T__MODE_COUNT"
    if "num_value A (fld w ''mode'') = Some x" for x
    using check_tab_node [OF w(2) nodes(2)] check_node_int [OF _ that]
    by (fastforce simp: verify_mode_def as_int_def split: if_splits)
  ultimately show ?thesis using u(1) w(1) by blast
qed

section \<open>Fields the schema does not name\<close>

function (sequential) schema_keys :: "sm3t_conf_node_t list \<Rightarrow> string list" where
  "schema_keys [] = []"
| "schema_keys (nd # tab) =
     n_key nd # (case n_child nd of None \<Rightarrow> [] | Some c \<Rightarrow> schema_keys c) @ schema_keys tab"
  by pat_completeness auto
termination by (relation "measure (size_list size)") (auto dest!: child_size)

lemma check_tab_unnamed:
  "key \<notin> set (schema_keys tab) \<Longrightarrow> check_tab A flt (fld_upd fld u key x) t tab = check_tab A flt fld t tab"
proof (induction A flt fld t tab rule: check_tab.induct)
  case (1 A flt fld t)
  then show ?case by simp
next
  case (2 A flt fld t nd tab)
  have v: "fld_upd fld u key x t (n_key nd) = fld t (n_key nd)" using 2(3) by (auto simp: fld_upd_def)
  have "check_node A flt (fld_upd fld u key x) nd (fld t (n_key nd)) = check_node A flt fld nd (fld t (n_key nd))"
    using 2(1,3) by (auto simp: check_node_def split: sm3t_type_t.splits option.splits lval.splits)
  moreover have "check_tab A flt (fld_upd fld u key x) t tab = check_tab A flt fld t tab"
    if "check_node A flt fld nd (fld t (n_key nd)) = Inr r" for r
    using 2(2) [OF that [unfolded check_node_def prod.case]] 2(3) by (cases r) auto
  ultimately show ?case
    unfolding check_tab_step v by (auto intro: cbind_cong)
qed

lemmas schema_tabs = root_tab_def tcp_tab_def sys_tab_def hooks_tab_def listen_tab_def forward_tab_def
  conn_tab_def transport_tab_def telemetry_tab_def logging_tab_def log_out_tab_def limit_tab_def
  timeout_tab_def retries_tab_def keepalive_tab_def metrics_tab_def log_tab_def

lemma backpressure_not_named: "''backpressure'' \<notin> set (schema_keys root_tab)"
  by (simp add: schema_tabs)

section \<open>The verdict on a configuration\<close>

text \<open>
  C9. Validation of a configuration table agrees with the schema read as a check of the tables alone, in
  its verdict and in its errors, and changes no table and no global, but leaves on the Lua stack one
  value for every number field that is missing.
\<close>

theorem parse_conf_is_check:
  assumes "lua_ok A" and "l_stack A L = st @ [LTable t]"
  shows "case check_tab A flt (l_field A L) t root_tab of
           Inl e \<Rightarrow> sm3t__parse_conf A flt L = Inl e
         | Inr (ok, k) \<Rightarrow> \<exists>L' xs. sm3t__parse_conf A flt L = Inr (ok, L') \<and> length xs = k
             \<and> same_but A L (l_stack A L @ xs) L'"
  using parse_conf_check [OF assms, of flt] by (auto simp: checks_def leaves_def split: sum.splits)

text \<open>
  C40. The field \<open>backpressure\<close> of a configuration is never looked at, in whatever table it stands: the
  verdict is the same whatever its value, because the schema names the field \<open>backpresure\<close>.
\<close>

theorem backpressure_unchecked:
  assumes A: "lua_ok A" and st: "l_stack A L = st @ [LTable t]" "l_stack A L' = st @ [LTable t]"
    and fld: "l_field A L' = fld_upd (l_field A L) u ''backpressure'' x"
  shows "map_sum id fst (sm3t__parse_conf A flt L') = map_sum id fst (sm3t__parse_conf A flt L)"
proof -
  have "check_tab A flt (l_field A L') t root_tab = check_tab A flt (l_field A L) t root_tab"
    unfolding fld by (rule check_tab_unnamed [OF backpressure_not_named])
  then show ?thesis
    using parse_conf_check [OF A st(1), of flt] parse_conf_check [OF A st(2), of flt]
    by (auto simp: checks_def split: sum.splits)
qed

end
