(* ===== verification/Sm3t_Conf.thy ===== *)
theory Sm3t_Conf
  imports Sm3t_Parser Sm3t_Ctx
begin

text \<open>
  Loading a configuration (\<open>src/conf/sm3t_conf.c\<close>) and the functions it offers to Lua code
  (\<open>src/conf/lua/sm3t_lua_api.c\<close>). \<open>lua_close\<close> ends the life of a state, which the model then no
  longer mentions.
\<close>

section \<open>The sandbox\<close>

definition blocked :: "string list" where
  "blocked = [''dofile'', ''loadfile'', ''load'', ''require'']"

primrec block_globals :: "'l lua_api \<Rightarrow> string list \<Rightarrow> 'l \<Rightarrow> 'l" where
  "block_globals A [] L = L"
| "block_globals A (k # ks) L = block_globals A ks (l_setglobal A k (l_push A LNil L))"

primrec clear_fields :: "'l lua_api \<Rightarrow> string list \<Rightarrow> 'l \<Rightarrow> 'l" where
  "clear_fields A [] L = L"
| "clear_fields A (k # ks) L = clear_fields A ks (l_setfield A (-2) k (l_push A LNil L))"

text \<open>\<open>lua_getglobal; if (lua_istable) ...; lua_pop\<close>\<close>

definition strip_lib :: "'l lua_api \<Rightarrow> string \<Rightarrow> string list \<Rightarrow> 'l \<Rightarrow> 'l" where
  "strip_lib A name ks L =
     (let L = l_getglobal A name L in
      l_pop A 1 (if lua_istable A L (-1) then clear_fields A ks L else L))"

definition sm3t__sandbox :: "'l lua_api \<Rightarrow> 'l \<Rightarrow> 'l" where
  "sm3t__sandbox A L =
     strip_lib A ''io'' [''popen''] (strip_lib A ''os'' [''execute'', ''exit''] (block_globals A blocked L))"

section \<open>The functions offered to Lua\<close>

datatype lua_cfunction = L_remote_addr | L_remote_port | L_log | L_on_connect | L_on_data | L_on_disconnect

definition proxy_lib :: "(string \<times> lua_cfunction) list" where
  "proxy_lib = [(''rhost'', L_remote_addr), (''rport'', L_remote_port), (''log'', L_log),
     (''on_connect'', L_on_connect), (''on_data'', L_on_data), (''on_disconnect'', L_on_disconnect)]"

definition sm3t__register_api :: "'l lua_api \<Rightarrow> 'l \<Rightarrow> 'l" where
  "sm3t__register_api A L = l_setglobal A ''proxy'' (l_newlib A (map fst proxy_lib) L)"

text \<open>\<open>lua_touserdata\<close>: the pointer of a light userdata, \<open>NULL\<close> for any other value.\<close>

definition lua_touserdata :: "'l lua_api \<Rightarrow> 'l \<Rightarrow> int \<Rightarrow> addr option" where
  "lua_touserdata A L i =
     (case lua_value A L i of Some (LLight a) \<Rightarrow> if a = 0 then None else Some a | _ \<Rightarrow> None)"

text \<open>A C function returns the number of its results, which it has pushed.\<close>

definition l_remote_addr :: "'l lua_api \<Rightarrow> 'l mach \<Rightarrow> (nat \<times> 'l mach) cres" where
  "l_remote_addr A m =
     (case lua_touserdata A (m_lua m) 1 of
        None \<Rightarrow> Inr (1, m\<lparr>m_lua := l_push A LNil (m_lua m)\<rparr>)
      | Some a \<Rightarrow> cbind (ctx_at m a) (\<lambda>ctx.
          Inr (1, m\<lparr>m_lua := l_push A (LStr (md_addr (c_meta ctx))) (m_lua m)\<rparr>)))"

definition l_remote_port :: "'l lua_api \<Rightarrow> 'l mach \<Rightarrow> (nat \<times> 'l mach) cres" where
  "l_remote_port A m =
     (case lua_touserdata A (m_lua m) 1 of
        None \<Rightarrow> Inr (1, m\<lparr>m_lua := l_push A (LInt 0) (m_lua m)\<rparr>)
      | Some a \<Rightarrow> cbind (ctx_at m a) (\<lambda>ctx.
          Inr (1, m\<lparr>m_lua := l_push A (LInt (md_port (c_meta ctx))) (m_lua m)\<rparr>)))"

text \<open>\<open>luaL_checkstring\<close> raises a Lua error, caught by the caller's protected call: \<open>None\<close>.\<close>

definition l_log :: "'l lua_api \<Rightarrow> 'l mach \<Rightarrow> (nat \<times> 'l mach) option" where
  "l_log A m = (case lua_tostring A (m_lua m) 1 of None \<Rightarrow> None | Some msg \<Rightarrow> Some (0, m))"

definition l_on_connect :: "'l mach \<Rightarrow> nat \<times> 'l mach" where
  "l_on_connect m = (0, m)"

definition l_on_data :: "'l mach \<Rightarrow> nat \<times> 'l mach" where
  "l_on_data m = (0, m)"

definition l_on_disconnect :: "'l mach \<Rightarrow> nat \<times> 'l mach" where
  "l_on_disconnect m = (0, m)"

section \<open>Loading and reloading\<close>

definition sm3t__init_conf :: "'l lua_api \<Rightarrow> (cdouble \<Rightarrow> cdouble) \<Rightarrow> string \<Rightarrow> 'l option cres" where
  "sm3t__init_conf A flt path =
     (case sm3t__load_conf A path of
        None \<Rightarrow> Inr None
      | Some L \<Rightarrow>
          let (ok, L) = l_pcall A 0 None (sm3t__sandbox A L) in
          if \<not> ok then Inr None
          else cbind (sm3t__parse_conf A flt L) (\<lambda>(valid, L).
            if \<not> valid then Inr None else Inr (Some (sm3t__register_api A L))))"

text \<open>\<open>lua_State **\<close>: the null pointer, or a variable that holds a state or the null pointer.\<close>

definition sm3t__cleanup_conf :: "'l option option \<Rightarrow> 'l option option" where
  "sm3t__cleanup_conf L = (case L of None \<Rightarrow> None | Some None \<Rightarrow> Some None | Some (Some _) \<Rightarrow> Some None)"

definition sm3t__reload_conf ::
  "'l lua_api \<Rightarrow> (cdouble \<Rightarrow> cdouble) \<Rightarrow> 'l option option \<Rightarrow> string \<Rightarrow> (bool \<times> 'l option option) cres" where
  "sm3t__reload_conf A flt L path =
     (case sm3t__cleanup_conf L of
        None \<Rightarrow> Inl Null_Deref
      | Some _ \<Rightarrow> cbind (sm3t__init_conf A flt path) (\<lambda>L'. Inr (L' \<noteq> None, Some L')))"

section \<open>What the sandbox does\<close>

lemma block_globals_effect:
  assumes "lua_ok A"
  shows "l_stack A (block_globals A ks L) = l_stack A L
       \<and> l_field A (block_globals A ks L) = l_field A L
       \<and> l_global A (block_globals A ks L) = (\<lambda>k. if k \<in> set ks then LNil else l_global A L k)"
proof (induction ks arbitrary: L)
  case (Cons k ks)
  have st: "l_stack A (l_push A LNil L) = l_stack A L @ [LNil]" using assms by (simp add: lua_push_simps)
  note g = lua_setglobal_simps [OF assms st, of k] lua_push_simps [OF assms, of LNil L]
  show ?case using Cons [of "l_setglobal A k (l_push A LNil L)"] g by (auto simp: fun_eq_iff)
qed simp

lemma clear_fields_effect:
  assumes "lua_ok A" and "l_stack A L = st @ [LTable t]"
  shows "l_stack A (clear_fields A ks L) = l_stack A L
       \<and> l_global A (clear_fields A ks L) = l_global A L
       \<and> l_field A (clear_fields A ks L) =
           (l_field A L)(t := (\<lambda>k. if k \<in> set ks then LNil else l_field A L t k))"
  using assms(2)
proof (induction ks arbitrary: L)
  case (Cons k ks)
  let ?L1 = "l_push A LNil L"
  have st: "l_stack A ?L1 = (st @ [LTable t]) @ [LNil]" using assms(1) Cons(2) by (simp add: lua_push_simps)
  then have "top_table (l_stack A ?L1) (-2) = Some t" by simp
  note f = lua_setfield_simps [OF assms(1) this st, of k] lua_push_simps [OF assms(1), of LNil L]
  show ?case using Cons(1) [OF f(1)] f Cons(2) by (auto simp: fun_eq_iff)
qed simp

lemma strip_lib_effect:
  assumes "lua_ok A"
  shows "l_stack A (strip_lib A name ks L) = l_stack A L"
    and "l_global A (strip_lib A name ks L) = l_global A L"
    and "l_field A (strip_lib A name ks L) =
           (case l_global A L name of
              LTable t \<Rightarrow> (l_field A L)(t := (\<lambda>k. if k \<in> set ks then LNil else l_field A L t k))
            | _ \<Rightarrow> l_field A L)"
proof -
  let ?L1 = "l_getglobal A name L"
  note g = lua_getglobal_simps [OF assms, of name L]
  note c = clear_fields_effect [OF assms, of ?L1 "l_stack A L" _ ks]
  have p: "l_stack A (l_pop A 1 M) = l_stack A L \<and> l_global A (l_pop A 1 M) = l_global A M
      \<and> l_field A (l_pop A 1 M) = l_field A M" if "l_stack A M = l_stack A L @ [v]" for M v
    using that assms by (simp add: lua_pop_simps)
  have tab: "lua_istable A ?L1 (-1) \<longleftrightarrow> (\<exists>t. l_global A L name = LTable t)" using lua_istable_top [OF g(1)] .
  have "l_stack A (strip_lib A name ks L) = l_stack A L
      \<and> l_global A (strip_lib A name ks L) = l_global A L
      \<and> l_field A (strip_lib A name ks L) =
           (case l_global A L name of
              LTable t \<Rightarrow> (l_field A L)(t := (\<lambda>k. if k \<in> set ks then LNil else l_field A L t k))
            | _ \<Rightarrow> l_field A L)"
  proof (cases "\<exists>t. l_global A L name = LTable t")
    case True
    then obtain t where t: "l_global A L name = LTable t" by blast
    then have "l_stack A (clear_fields A ks ?L1) = l_stack A L @ [LTable t]" using c [of t] g by simp
    from p [OF this] show ?thesis using c [of t, unfolded g t] t tab by (simp add: strip_lib_def)
  next
    case False
    then show ?thesis using p [OF g(1)] g tab by (auto simp: strip_lib_def split: lval.splits)
  qed
  then show "l_stack A (strip_lib A name ks L) = l_stack A L"
    and "l_global A (strip_lib A name ks L) = l_global A L"
    and "l_field A (strip_lib A name ks L) =
           (case l_global A L name of
              LTable t \<Rightarrow> (l_field A L)(t := (\<lambda>k. if k \<in> set ks then LNil else l_field A L t k))
            | _ \<Rightarrow> l_field A L)" by simp_all
qed

text \<open>The sandbox leaves the stack alone, blocks the loaders and strips the libraries.\<close>

lemma sandbox_effect:
  assumes "lua_ok A"
  shows "l_stack A (sm3t__sandbox A L) = l_stack A L"
    and "l_global A (sm3t__sandbox A L) = (\<lambda>k. if k \<in> set blocked then LNil else l_global A L k)"
    and "l_global A L ''os'' = LTable t \<Longrightarrow> l_field A (sm3t__sandbox A L) t ''execute'' = LNil
           \<and> l_field A (sm3t__sandbox A L) t ''exit'' = LNil"
    and "l_global A L ''io'' = LTable t \<Longrightarrow> l_field A (sm3t__sandbox A L) t ''popen'' = LNil"
    and "l_field A L u k \<noteq> l_field A (sm3t__sandbox A L) u k \<Longrightarrow>
           LTable u = l_global A L ''os'' \<and> k \<in> {''execute'', ''exit''}
         \<or> LTable u = l_global A L ''io'' \<and> k = ''popen''"
proof -
  let ?L1 = "block_globals A blocked L"
  let ?L2 = "strip_lib A ''os'' [''execute'', ''exit''] ?L1"
  have L1: "l_stack A ?L1 = l_stack A L" "l_field A ?L1 = l_field A L"
      "l_global A ?L1 = (\<lambda>k. if k \<in> set blocked then LNil else l_global A L k)"
    using block_globals_effect [OF assms] by simp_all
  note L2 = strip_lib_effect [OF assms, of "''os''" "[''execute'', ''exit'']" ?L1]
  note L3 = strip_lib_effect [OF assms, of "''io''" "[''popen'']" ?L2]
  have os: "l_global A ?L1 ''os'' = l_global A L ''os''" "l_global A ?L2 ''io'' = l_global A L ''io''"
    using L1 L2 by (simp_all add: blocked_def)
  have f2: "l_field A ?L2 = (case l_global A L ''os'' of
      LTable t \<Rightarrow> (l_field A L)(t := (\<lambda>k. if k \<in> set [''execute'', ''exit''] then LNil else l_field A L t k))
    | _ \<Rightarrow> l_field A L)" using L2(3) unfolding os L1(2) .
  have f3: "l_field A (sm3t__sandbox A L) = (case l_global A L ''io'' of
      LTable t \<Rightarrow> (l_field A ?L2)(t := (\<lambda>k. if k \<in> set [''popen''] then LNil else l_field A ?L2 t k))
    | _ \<Rightarrow> l_field A ?L2)" using L3(3) unfolding os sm3t__sandbox_def .
  show "l_stack A (sm3t__sandbox A L) = l_stack A L"
      "l_global A (sm3t__sandbox A L) = (\<lambda>k. if k \<in> set blocked then LNil else l_global A L k)"
    using L1 L2 L3 by (simp_all add: sm3t__sandbox_def)
  show "l_field A (sm3t__sandbox A L) t ''execute'' = LNil \<and> l_field A (sm3t__sandbox A L) t ''exit'' = LNil"
    if "l_global A L ''os'' = LTable t"
    using that by (simp add: f3 f2 split: lval.splits)
  show "l_field A (sm3t__sandbox A L) t ''popen'' = LNil" if "l_global A L ''io'' = LTable t"
    using that by (simp add: f3)
  show "LTable u = l_global A L ''os'' \<and> k \<in> {''execute'', ''exit''}
      \<or> LTable u = l_global A L ''io'' \<and> k = ''popen''"
    if "l_field A L u k \<noteq> l_field A (sm3t__sandbox A L) u k"
    using that by (auto simp: f3 f2 split: lval.splits if_splits)
qed

section \<open>An initialised configuration\<close>

lemma newlib_effect:
  assumes "lua_load_ok A"
  obtains t g where "l_stack A (l_newlib A names L) = l_stack A L @ [LTable t]"
    and "l_field A (l_newlib A names L) = (l_field A L)(t := g)" and "\<And>k. k \<in> set names \<Longrightarrow> \<exists>f. g k = LFun f"
    and "l_global A (l_newlib A names L) = l_global A L"
  using assms unfolding lua_load_ok_def by metis

lemma register_api_effect:
  assumes "lua_ok A" and "lua_load_ok A"
  shows "l_stack A (sm3t__register_api A L) = l_stack A L
    \<and> (\<exists>t. l_global A (sm3t__register_api A L) ''proxy'' = LTable t
        \<and> (\<forall>k\<in>fst ` set proxy_lib. \<exists>f. l_field A (sm3t__register_api A L) t k = LFun f))"
proof -
  let ?ns = "map fst proxy_lib"
  obtain t g where n: "l_stack A (l_newlib A ?ns L) = l_stack A L @ [LTable t]"
      "l_field A (l_newlib A ?ns L) = (l_field A L)(t := g)" "\<And>k. k \<in> set ?ns \<Longrightarrow> \<exists>f. g k = LFun f"
    by (rule newlib_effect [OF assms(2)]) blast
  note s = lua_setglobal_simps [OF assms(1) n(1), of "''proxy''"]
  show ?thesis using s n(2,3) by (auto simp: sm3t__register_api_def)
qed

text \<open>
  The chunk's last result is the table that was validated; the table in use afterwards is the first
  result, the value at index 1. With one result they are the same.
\<close>

lemma init_conf_accepts:
  assumes A: "lua_ok A" and B: "lua_load_ok A" and init: "sm3t__init_conf A flt path = Inr (Some L)"
  shows "\<exists>L0 L1 rs t k xs. sm3t__load_conf A path = Some L0 \<and> l_pcall A 0 None (sm3t__sandbox A L0) = (True, L1)
      \<and> l_stack A L1 = rs @ [LTable t] \<and> check_tab A flt (l_field A L1) t root_tab = Inr (True, k)
      \<and> l_stack A L = rs @ [LTable t] @ xs \<and> length xs = k"
proof -
  obtain L0 L1 L2 where L: "sm3t__load_conf A path = Some L0" "l_pcall A 0 None (sm3t__sandbox A L0) = (True, L1)"
      "sm3t__parse_conf A flt L1 = Inr (True, L2)" "L = sm3t__register_api A L2"
    using init by (auto simp: sm3t__init_conf_def Let_def cbind_eq_Inr split: option.splits prod.splits if_splits)
  have "lua_istable A L1 (-1)"
    using L(3) by (auto simp: sm3t__parse_conf_def validate_tab_node.simps cbind_eq_Inr split: if_splits)
  then obtain t where t: "lua_value A L1 (-1) = Some (LTable t)"
    by (auto simp: lua_istable_def split: option.splits lval.splits)
  then have "l_stack A L1 \<noteq> []" by (auto simp: lua_value_def stack_at_def)
  then obtain rs v where "l_stack A L1 = rs @ [v]" by (cases "l_stack A L1" rule: rev_cases) auto
  with t have st: "l_stack A L1 = rs @ [LTable t]" by (simp add: lua_value_def)
  from parse_conf_check [OF A this, of flt] L(3) obtain k
    where k: "check_tab A flt (l_field A L1) t root_tab = Inr (True, k)" "leaves A L1 k L2"
    by (auto simp: checks_def split: sum.splits)
  then obtain xs where "length xs = k" "l_stack A L2 = rs @ [LTable t] @ xs"
    using st by (auto simp: leaves_def same_but_def)
  then show ?thesis using L st k(1) register_api_effect [OF A B, of L2] by auto
qed

text \<open>
  C17. When a configuration is accepted, the last value its chunk returned is a table with a table
  \<open>tcp.listen\<close>, whose port, if it is a number, lies between 1 and 65535, and whose mode, if it is a
  number, is one of the three; that table is still on the Lua stack, above the chunk's other results.
\<close>

theorem init_conf_listen_in_range:
  assumes A: "lua_ok A" "lua_load_ok A" and init: "sm3t__init_conf A flt path = Inr (Some L)"
  shows "\<exists>L0 L1 rs t u w xs. sm3t__load_conf A path = Some L0 \<and> l_pcall A 0 None (sm3t__sandbox A L0) = (True, L1)
      \<and> l_stack A L1 = rs @ [LTable t] \<and> l_stack A L = rs @ [LTable t] @ xs
      \<and> l_field A L1 t ''tcp'' = LTable u \<and> l_field A L1 u ''listen'' = LTable w
      \<and> (\<forall>x. num_value A (l_field A L1 w ''port'') = Some x \<longrightarrow>
            (\<exists>n. int64_of_double x = Inr n \<and> 0 < n \<and> n \<le> UINT16_MAX))
      \<and> (\<forall>x. num_value A (l_field A L1 w ''mode'') = Some x \<longrightarrow>
            (\<exists>n. int64_of_double x = Inr n \<and> 0 \<le> n \<and> n < SM3T__MODE_COUNT))"
proof -
  obtain L0 L1 rs t k xs where L: "sm3t__load_conf A path = Some L0" "l_pcall A 0 None (sm3t__sandbox A L0) = (True, L1)"
      "l_stack A L1 = rs @ [LTable t]" "check_tab A flt (l_field A L1) t root_tab = Inr (True, k)"
      "l_stack A L = rs @ [LTable t] @ xs"
    using init_conf_accepts [OF A init] by (elim exE conjE) (rule that)
  with accepted_listen [OF L(4)] show ?thesis by blast
qed

text \<open>
  C22. The sandbox takes the four loaders out of the globals and \<open>execute\<close>, \<open>exit\<close> and \<open>popen\<close> out of the
  libraries \<open>os\<close> and \<open>io\<close>, leaves every other global and every other field alone, and leaves the Lua
  stack, with the chunk to be run, as it was.
\<close>

theorem sandbox_strips:
  assumes "lua_ok A"
  shows "l_stack A (sm3t__sandbox A L) = l_stack A L
    \<and> l_global A (sm3t__sandbox A L) = (\<lambda>k. if k \<in> set blocked then LNil else l_global A L k)
    \<and> (\<forall>t. l_global A L ''os'' = LTable t \<longrightarrow> l_field A (sm3t__sandbox A L) t ''execute'' = LNil
         \<and> l_field A (sm3t__sandbox A L) t ''exit'' = LNil)
    \<and> (\<forall>t. l_global A L ''io'' = LTable t \<longrightarrow> l_field A (sm3t__sandbox A L) t ''popen'' = LNil)
    \<and> (\<forall>u k. l_field A L u k \<noteq> l_field A (sm3t__sandbox A L) u k \<longrightarrow>
           LTable u = l_global A L ''os'' \<and> k \<in> {''execute'', ''exit''}
         \<or> LTable u = l_global A L ''io'' \<and> k = ''popen'')"
  using sandbox_effect [OF assms] by blast

end
