(* ===== verification/Sm3t_Server.thy ===== *)
theory Sm3t_Server
  imports Sm3t_Conf Sm3t_Relay Sm3t_Queue Sm3t_Vec
begin

unbundle bit_operations_syntax

text \<open>
  The server (\<open>src/proxy/sm3t_server.c\<close>, and \<open>sm3t__set_peer_meta\<close> of \<open>src/proxy/sm3t_ctx.c\<close>): the
  listening socket, the acceptance of clients, the dispatch of readiness events and the release of
  dead contexts after every batch.

  What the code gets from outside is the record \<open>'l plat\<close>: the Lua interface, the kernel, the
  allocator and the address conversions of the C library. \<open>None\<close> as the result of a definition
  means that it does not return.
\<close>

section \<open>Platform and types\<close>

record 'l plat =
  p_lua :: "'l lua_api"
  p_env :: env
  p_mem :: "nat \<Rightarrow> bool"                                      \<comment> \<open>\<open>malloc\<close> of so many bytes succeeds\<close>
  p_ctx :: "'l mach \<Rightarrow> (addr \<times> sm3t_context_t) option"         \<comment> \<open>\<open>malloc\<close> of a context\<close>
  p_ntop :: "int \<Rightarrow> byte list \<Rightarrow> string"                       \<comment> \<open>text form of an address\<close>
  p_pton :: "int \<Rightarrow> string \<Rightarrow> byte list option"                \<comment> \<open>its inverse\<close>

definition AF_INET :: int where "AF_INET = 2"
definition AF_INET6 :: int where "AF_INET6 = 10"
definition SM3T_BACKLOG :: int where "SM3T_BACKLOG = 10"
definition SM3T_MAX_EVENT :: int where "SM3T_MAX_EVENT = 5"

definition ntohs :: "16 word \<Rightarrow> 16 word" where
  "ntohs w = push_bit 8 w OR drop_bit 8 w"

record sm3t_server_t =
  srv_sock :: int
  srv_meta :: sm3t_metadata_t

datatype sm3t_addr_var_t = SM3T__IPV4 | SM3T__IPV6

record sm3t_upstream_t =
  up_name :: string
  up_ver :: sm3t_addr_var_t
  up_address :: string
  up_port :: "16 word"
  up_weight :: "32 word"

definition domains :: "sm3t_upstream_t list" where
  "domains = [\<lparr>up_name = ''localhost'', up_ver = SM3T__IPV4, up_address = ''127.0.0.1'', up_port = 6600, up_weight = 0\<rparr>]"

text \<open>\<open>inet_ntop\<close> fails for an unknown family and when the text and its end do not fit.\<close>

definition c_inet_ntop :: "'l plat \<Rightarrow> int \<Rightarrow> byte list \<Rightarrow> nat \<Rightarrow> string option" where
  "c_inet_ntop P family host room =
     (if family \<noteq> AF_INET \<and> family \<noteq> AF_INET6 then None
      else if length (p_ntop P family host) + 1 \<le> room then Some (p_ntop P family host) else None)"

definition as_bool :: "sm3t_value_t \<Rightarrow> bool cres" where
  "as_bool v = (case v of As_bool b \<Rightarrow> Inr b | _ \<Rightarrow> Inl Bad_Conversion)"

section \<open>Metadata of a connection\<close>

text \<open>The size given to \<open>inet_ntop\<close> is that of the socket address, 28 or 16 bytes.\<close>

definition sm3t__set_peer_meta :: "'l plat \<Rightarrow> addr \<Rightarrow> sockaddr \<Rightarrow> 'l mach \<Rightarrow> 'l mach cres" where
  "sm3t__set_peer_meta P a addr m =
     cbind (ctx_at m a) (\<lambda>_.
     cbind (sm3t__get_conf_value (p_lua P) (p_mem P) (m_lua m) ''tcp.telemetry.enable'' SM3T_CBOOL (As_int 0))
       (\<lambda>(ok, L, from_lua).
         let m = m\<lparr>m_lua := L\<rparr> in
         if \<not> ok then Inr m
         else cbind (as_bool from_lua) (\<lambda>debug.
           if \<not> debug then Inr (upd_ctx a (\<lambda>c. c\<lparr>c_meta := \<lparr>md_port = 0, md_addr = []\<rparr>\<rparr>) m)
           else let addr_len = (if sa_family addr = AF_INET6 then 28 else 16);
                    m = upd_ctx a (\<lambda>c. c\<lparr>c_meta := (c_meta c)\<lparr>md_port := uint (ntohs (sa_port addr))\<rparr>\<rparr>) m
             in Inr (case c_inet_ntop P (sa_family addr) (sa_host addr) addr_len of
                       None \<Rightarrow> m
                     | Some s \<Rightarrow> upd_ctx a (\<lambda>c. c\<lparr>c_meta := (c_meta c)\<lparr>md_addr := s\<rparr>\<rparr>) m))))"

section \<open>The listening socket\<close>

definition sm3t__close_server :: "env \<Rightarrow> sm3t_server_t option \<Rightarrow> 'l mach \<Rightarrow> 'l mach" where
  "sm3t__close_server env server m =
     (case server of None \<Rightarrow> m | Some s \<Rightarrow> snd (msys env (Sys_Close (srv_sock s)) m))"

text \<open>One pass of the loop over the addresses: go on, return \<open>NULL\<close>, or leave with a server.\<close>

datatype bind_result = Bind_Retry | Bind_Null | Bind_Done sm3t_server_t

definition try_bind :: "'l plat \<Rightarrow> sockaddr \<Rightarrow> 'l mach \<Rightarrow> (bind_result \<times> 'l mach) cres" where
  "try_bind P tmp m =
     (let env = p_env P; (r, m) = msys env (Sys_Socket (sa_family tmp)) m; sock = sr_ret r in
      if sock = SM3T__ERR then Inr (Bind_Retry, m)
      else cbind (sm3t__get_conf_value (p_lua P) (p_mem P) (m_lua m) ''tcp.listen.mode'' SM3T_CINT (As_int 0))
        (\<lambda>(ok, L, out).
          let m = m\<lparr>m_lua := L\<rparr> in
          if \<not> ok then Inr (Bind_Null, m)
          else cbind (as_int out) (\<lambda>mode.
            let (refused, m) =
                  (if mode = SM3T__MODE_TRANSPARENT
                   then let (r, m) = msys env (Sys_Setsockopt_Transparent sock) m in (sr_ret r = SM3T__ERR, m)
                   else (False, m)) in
            if refused then Inr (Bind_Retry, snd (msys env (Sys_Close sock) m))
            else let (r, m) = msys env (Sys_Setsockopt_Reuseaddr sock) m in
              if sr_ret r = SM3T__ERR then Inr (Bind_Retry, snd (msys env (Sys_Close sock) m))
              else let (r, m) = msys env (Sys_Bind sock tmp) m in
                if sr_ret r = SM3T__ERR then Inr (Bind_Retry, snd (msys env (Sys_Close sock) m))
                else if \<not> p_mem P 56 then Inl Exit_Failure
                else Inr (Bind_Done \<lparr>srv_sock = sock, srv_meta = \<lparr>md_port = uint (ntohs (sa_port tmp)),
                       md_addr = (case c_inet_ntop P (sa_family tmp) (sa_host tmp)
                                    (if sa_family tmp = AF_INET6 then 28 else 16) of None \<Rightarrow> [] | Some s \<Rightarrow> s)\<rparr>\<rparr>, m))))"

text \<open>\<open>RETRY: tmp = host->ai_next;\<close> always goes to the second address.\<close>

partial_function (option) bind_loop ::
  "'l plat \<Rightarrow> sockaddr list \<Rightarrow> sockaddr list \<Rightarrow> 'l mach \<Rightarrow> (sm3t_server_t option \<times> 'l mach) cres option" where
  "bind_loop P host tmp m =
     (case tmp of [] \<Rightarrow> Some (Inr (None, m))
      | t # _ \<Rightarrow>
          (case try_bind P t m of
             Inl e \<Rightarrow> Some (Inl e)
           | Inr (r, m) \<Rightarrow>
               (case r of
                  Bind_Retry \<Rightarrow> bind_loop P host (tl host) m
                | Bind_Null \<Rightarrow> Some (Inr (None, m))
                | Bind_Done s \<Rightarrow> Some (Inr (Some s, m)))))"

definition listen_on :: "env \<Rightarrow> sm3t_server_t \<Rightarrow> 'l mach \<Rightarrow> sm3t_server_t option \<times> 'l mach" where
  "listen_on env server m =
     (let (ok, tr) = sm3t__set_nonblocking env (srv_sock server) (m_trace m); m = m\<lparr>m_trace := tr\<rparr> in
      if \<not> ok then (None, sm3t__close_server env (Some server) m)
      else let (r, m) = msys env (Sys_Listen (srv_sock server) SM3T_BACKLOG) m in
        if sr_ret r = SM3T__ERR then (None, sm3t__close_server env (Some server) m)
        else (Some server, m))"

definition sm3t__init_server :: "'l plat \<Rightarrow> 'l mach \<Rightarrow> (sm3t_server_t option \<times> 'l mach) cres option" where
  "sm3t__init_server P m =
     obind (Some (sm3t__get_conf_value (p_lua P) (p_mem P) (m_lua m) ''tcp.listen.port'' SM3T_CINT (As_int 0)))
       (\<lambda>(ok, L, out).
         let m = m\<lparr>m_lua := L\<rparr> in
         if \<not> ok then Some (Inr (None, m))
         else obind (Some (as_int out)) (\<lambda>port.
           if port > UINT16_MAX \<or> port \<le> 0 then Some (Inr (None, m))
           else let (r, m) = msys (p_env P) (Sys_Getaddrinfo (decimal (nat port))) m in
             if sr_ret r \<noteq> 0 then Some (Inr (None, m))
             else obind (bind_loop P (sr_hosts r) (sr_hosts r) m) (\<lambda>(server, m).
               case server of None \<Rightarrow> Some (Inr (None, m))
               | Some s \<Rightarrow> Some (Inr (listen_on (p_env P) s m)))))"

section \<open>Accepting a client\<close>

definition sm3t__connect_upstream :: "env \<Rightarrow> sockaddr \<Rightarrow> 'l mach \<Rightarrow> int \<times> 'l mach" where
  "sm3t__connect_upstream env server_addr m =
     (let (r, m) = msys env (Sys_Socket (sa_family server_addr)) m; sock = sr_ret r in
      if sock = SM3T__ERR then (SM3T__ERR, m)
      else let (r, m) = msys env (Sys_Connect sock server_addr) m in
        if sr_ret r = SM3T__ERR then (SM3T__ERR, snd (msys env (Sys_Close sock) m)) else (sock, m))"

text \<open>
  The upstream of a new client: its original destination, or the next one of the ring. The IPv6
  branch leaves \<open>sin6_family\<close> zero. The sources copy the address with the size of a
  \<open>sockaddr_storage\<close>, which reads behind the smaller object; those bytes are not part of the address
  and are left out.
\<close>

definition upstream_addr :: "'l plat \<Rightarrow> sm3t_upstream_t \<Rightarrow> sockaddr option" where
  "upstream_addr P u =
     (case up_ver u of
        SM3T__IPV4 \<Rightarrow> map_option (\<lambda>h. \<lparr>sa_family = AF_INET, sa_host = h, sa_port = ntohs (up_port u)\<rparr>)
                        (p_pton P AF_INET (up_address u))
      | SM3T__IPV6 \<Rightarrow> map_option (\<lambda>h. \<lparr>sa_family = 0, sa_host = h, sa_port = ntohs (up_port u)\<rparr>)
                        (p_pton P AF_INET6 (up_address u)))"

type_synonym upstreams = "sm3t_upstream_t sm3t_queue_t option"

definition pick_upstream ::
  "'l plat \<Rightarrow> int \<Rightarrow> int \<Rightarrow> upstreams \<Rightarrow> 'l mach \<Rightarrow> (sockaddr option \<times> upstreams \<times> 'l mach) cres" where
  "pick_upstream P mode fd q m =
     (if mode = SM3T__MODE_TRANSPARENT
      then let (r, m) = msys (p_env P) (Sys_Getsockopt_Origdst fd) m in
        Inr (if sr_ret r = SM3T__ERR then None else Some (sr_addr r), q, m)
      else if mode = SM3T__MODE_FORWARD
      then cbind (sm3t__dequeue q) (\<lambda>(upstream, q).
        Inr (case upstream of None \<Rightarrow> None | Some u \<Rightarrow> upstream_addr P u, q, m))
      else Inr (None, q, m))"

definition drop_both :: "'l plat \<Rightarrow> addr \<Rightarrow> addr \<Rightarrow> 'l mach \<Rightarrow> 'l mach cres" where
  "drop_both P client up m =
     cbind (sm3t__cleanup_ctx (p_lua P) (p_env P) m (Some client)) (\<lambda>m.
       sm3t__cleanup_ctx (p_lua P) (p_env P) m (Some up))"

text \<open>Both ends are connected: point them at each other and register them.\<close>

definition link_ctxs :: "env \<Rightarrow> int \<Rightarrow> addr \<Rightarrow> int \<Rightarrow> addr \<Rightarrow> int \<Rightarrow> 'l mach \<Rightarrow> 'l mach" where
  "link_ctxs env epoll_fd client cfd up ufd m =
     (let m = m\<lparr>m_trace := snd (sm3t__set_nonblocking env ufd (m_trace m))\<rparr>;
          m = upd_ctx client (\<lambda>c. c\<lparr>c_peer := Some up\<rparr>) m;
          m = upd_ctx up (\<lambda>c. c\<lparr>c_peer := Some client\<rparr>) m;
          m = m\<lparr>m_trace := snd (sm3t__append_poll env epoll_fd ufd
                \<lparr>ev_events = EPOLLIN OR EPOLLRDHUP, ev_data = up\<rparr> (m_trace m))\<rparr>;
          m = m\<lparr>m_trace := snd (sm3t__set_nonblocking env cfd (m_trace m))\<rparr>
      in m\<lparr>m_trace := snd (sm3t__append_poll env epoll_fd cfd
                \<lparr>ev_events = EPOLLIN OR EPOLLRDHUP, ev_data = client\<rparr> (m_trace m))\<rparr>)"

definition connect_client ::
  "'l plat \<Rightarrow> int \<Rightarrow> int \<Rightarrow> addr \<Rightarrow> int \<Rightarrow> upstreams \<Rightarrow> 'l mach \<Rightarrow> (upstreams \<times> 'l mach) cres" where
  "connect_client P epoll_fd mode client cfd q m =
     cbind (sm3t__new_ctx (p_ctx P m) m) (\<lambda>(up, m).
     cbind (pick_upstream P mode cfd q m) (\<lambda>(addr, q, m).
       case addr of
         None \<Rightarrow> cbind (drop_both P client up m) (\<lambda>m. Inr (q, m))
       | Some addr \<Rightarrow>
           cbind (sm3t__set_peer_meta P up addr m) (\<lambda>m.
             let (ufd, m) = sm3t__connect_upstream (p_env P) addr m;
                 m = upd_ctx up (\<lambda>c. c\<lparr>c_fd := ufd\<rparr>) m in
             if ufd = SM3T__ERR then cbind (drop_both P client up m) (\<lambda>m. Inr (q, m))
             else Inr (q, link_ctxs (p_env P) epoll_fd client cfd up ufd m))))"

text \<open>A client with a known address: the metadata, the hook's verdict, and its upstream.\<close>

definition greet_client ::
  "'l plat \<Rightarrow> int \<Rightarrow> int \<Rightarrow> addr \<Rightarrow> int \<Rightarrow> sockaddr \<Rightarrow> upstreams \<Rightarrow> 'l mach \<Rightarrow> (upstreams \<times> 'l mach) cres" where
  "greet_client P epoll_fd mode client cfd client_addr q m =
     cbind (sm3t__set_peer_meta P client client_addr m) (\<lambda>m.
       let (st, L) = sm3t__hook_on_connect (p_lua P) (Some (m_lua m)) client;
           m = (case L of None \<Rightarrow> m | Some L \<Rightarrow> m\<lparr>m_lua := L\<rparr>) in
       if st = SM3T_HOOK_DROP
       then cbind (sm3t__cleanup_ctx (p_lua P) (p_env P) m (Some client)) (\<lambda>m. Inr (q, m))
       else connect_client P epoll_fd mode client cfd q m)"

definition accept_client ::
  "'l plat \<Rightarrow> int \<Rightarrow> int \<Rightarrow> int \<Rightarrow> upstreams \<Rightarrow> 'l mach \<Rightarrow> (upstreams \<times> 'l mach) cres" where
  "accept_client P epoll_fd sock mode q m =
     cbind (sm3t__new_ctx (p_ctx P m) m) (\<lambda>(client, m).
       let (r, m) = msys (p_env P) (Sys_Accept sock) m; cfd = sr_ret r;
           m = upd_ctx client (\<lambda>c. c\<lparr>c_fd := cfd\<rparr>) m in
       if cfd = SM3T__ERR then Inr (q, m)
       else let (r, m) = msys (p_env P) (Sys_Getpeername cfd) m in
         if sr_ret r = SM3T__ERR
         then cbind (sm3t__cleanup_ctx (p_lua P) (p_env P) m (Some client)) (\<lambda>m. Inr (q, m))
         else greet_client P epoll_fd mode client cfd (sr_addr r) q m)"

section \<open>The event loop\<close>

record 'l loop_state =
  ls_mach :: "'l mach"
  ls_dead :: "addr sm3t_vec_t option"
  ls_ups :: upstreams

definition vtable :: "'l plat \<Rightarrow> int \<Rightarrow> addr \<Rightarrow> int \<Rightarrow> 'l mach \<Rightarrow> (bool \<times> 'l mach) cres option" where
  "vtable P mode a epoll_fd m =
     (if mode = SM3T__MODE_TRANSPARENT \<or> mode = SM3T__MODE_FORWARD
      then Some (sm3t__tcp_ctx_handler (p_lua P) (p_env P) (Some a) epoll_fd m)
      else if mode = SM3T__MODE_SOCKS5 then sm3t__tcp_echo (p_env P) a m
      else Some (Inl Out_Of_Bounds))"

text \<open>Whether the allocation an append may need succeeds.\<close>

definition vec_alloc :: "'l plat \<Rightarrow> 'a sm3t_vec_t option \<Rightarrow> bool" where
  "vec_alloc P vec =
     p_mem P (case vec of None \<Rightarrow> vec_bytes SM3T_VEC_MAX | Some v \<Rightarrow> vec_bytes (sz (v_capacity v * 2)))"

definition dispatch_ctx ::
  "'l plat \<Rightarrow> int \<Rightarrow> int \<Rightarrow> addr \<Rightarrow> 32 word \<Rightarrow> 'l loop_state \<Rightarrow> 'l loop_state cres option" where
  "dispatch_ctx P epoll_fd mode a evs s =
     obind (Some (ctx_at (ls_mach s) a)) (\<lambda>_.
     obind (vtable P mode a epoll_fd (upd_ctx a (\<lambda>c. c\<lparr>c_events := evs\<rparr>) (ls_mach s))) (\<lambda>(keep, m).
       if keep then Some (Inr (s\<lparr>ls_mach := m\<rparr>))
       else obind (Some (ctx_at m a)) (\<lambda>ctx.
         let m = m\<lparr>m_trace := snd (sm3t__remove_poll (p_env P) epoll_fd (c_fd ctx) (m_trace m))\<rparr> in
         obind (Some (sm3t__vec_append (vec_alloc P (ls_dead s)) (ls_dead s) (Some a))) (\<lambda>(_, dead).
           Some (Inr (s\<lparr>ls_mach := m, ls_dead := dead\<rparr>))))))"

text \<open>\<open>data.fd\<close> is the low half of the user data.\<close>

definition ev_fd :: "epoll_event \<Rightarrow> int" where
  "ev_fd ev = sint (ucast (ev_data ev) :: 32 word)"

definition handle_event ::
  "'l plat \<Rightarrow> int \<Rightarrow> int \<Rightarrow> int \<Rightarrow> epoll_event \<Rightarrow> 'l loop_state \<Rightarrow> 'l loop_state cres option" where
  "handle_event P epoll_fd sock mode ev s =
     (if ev_fd ev = sock
      then obind (Some (accept_client P epoll_fd sock mode (ls_ups s) (ls_mach s))) (\<lambda>(q, m).
        Some (Inr (s\<lparr>ls_mach := m, ls_ups := q\<rparr>)))
      else if ev_data ev = 0 then Some (Inl Null_Deref)
      else dispatch_ctx P epoll_fd mode (ev_data ev) (ev_events ev) s)"

primrec handle_events ::
  "'l plat \<Rightarrow> int \<Rightarrow> int \<Rightarrow> int \<Rightarrow> epoll_event list \<Rightarrow> 'l loop_state \<Rightarrow> 'l loop_state cres option" where
  "handle_events P epoll_fd sock mode [] s = Some (Inr s)"
| "handle_events P epoll_fd sock mode (ev # evs) s =
     obind (handle_event P epoll_fd sock mode ev s) (handle_events P epoll_fd sock mode evs)"

definition release_dead :: "'l plat \<Rightarrow> 'l loop_state \<Rightarrow> 'l loop_state cres" where
  "release_dead P s =
     cbind (sm3t__cleanup_vec (sm3t__cleanup_ctx (p_lua P) (p_env P)) (ls_dead s) (ls_mach s)) (\<lambda>(m, dead).
       Inr (s\<lparr>ls_mach := m, ls_dead := dead\<rparr>))"

definition serve_batch ::
  "'l plat \<Rightarrow> int \<Rightarrow> int \<Rightarrow> int \<Rightarrow> epoll_event list \<Rightarrow> 'l loop_state \<Rightarrow> 'l loop_state cres option" where
  "serve_batch P epoll_fd sock mode evs s =
     obind (handle_events P epoll_fd sock mode evs s) (\<lambda>s. Some (release_dead P s))"

definition wait_events :: "'l plat \<Rightarrow> int \<Rightarrow> 'l loop_state \<Rightarrow> epoll_event list option \<times> 'l loop_state" where
  "wait_events P epoll_fd s =
     (let (r, m) = msys (p_env P) (Sys_Epoll_Wait epoll_fd SM3T_MAX_EVENT) (ls_mach s) in
      (if sr_ret r = SM3T__ERR then None else Some (take (nat (sr_ret r)) (sr_events r)), s\<lparr>ls_mach := m\<rparr>))"

partial_function (option) serve_loop ::
  "'l plat \<Rightarrow> int \<Rightarrow> int \<Rightarrow> int \<Rightarrow> 'l loop_state \<Rightarrow> 'l loop_state cres option" where
  "serve_loop P epoll_fd sock mode s =
     (case wait_events P epoll_fd s of
        (None, s) \<Rightarrow> Some (Inr s)
      | (Some evs, s) \<Rightarrow>
          (case serve_batch P epoll_fd sock mode evs s of
             None \<Rightarrow> None
           | Some (Inl e) \<Rightarrow> Some (Inl e)
           | Some (Inr s) \<Rightarrow> serve_loop P epoll_fd sock mode s))"

text \<open>What follows the loop: the epoll descriptor, the server and the containers are released.\<close>

definition shut_down :: "'l plat \<Rightarrow> int \<Rightarrow> sm3t_server_t \<Rightarrow> 'l loop_state \<Rightarrow> 'l loop_state cres" where
  "shut_down P epoll_fd server s =
     (let m = snd (msys (p_env P) (Sys_Close epoll_fd) (ls_mach s));
          m = sm3t__close_server (p_env P) (Some server) m in
      cbind (release_dead P (s\<lparr>ls_mach := m, ls_ups := sm3t__free_queue (ls_ups s)\<rparr>)) (\<lambda>s.
        Inr (s\<lparr>ls_dead := sm3t__destroy_vec (ls_dead s)\<rparr>)))"

text \<open>
  What precedes the loop: a server, an epoll instance that watches its socket, the mode and the
  upstreams, or an early return.
\<close>

datatype 'l started = Not_Started "'l mach" | Started sm3t_server_t int int "'l loop_state"

definition start_server :: "'l plat \<Rightarrow> 'l mach \<Rightarrow> 'l started cres option" where
  "start_server P m =
     obind (sm3t__init_server P m) (\<lambda>(server, m).
       case server of None \<Rightarrow> Some (Inr (Not_Started m))
       | Some server \<Rightarrow>
         let env = p_env P; sock = srv_sock server;
             (r, m) = msys env (Sys_Epoll_Create SM3T_BACKLOG) m; epoll_fd = sr_ret r in
         if epoll_fd = SM3T__ERR then Some (Inr (Not_Started (sm3t__close_server env (Some server) m)))
         else let (ok, tr) = sm3t__append_poll env epoll_fd sock
                    \<lparr>ev_events = EPOLLIN, ev_data = ucast (word_of_int sock :: 32 word)\<rparr> (m_trace m);
                  m = m\<lparr>m_trace := tr\<rparr> in
           if \<not> ok then Some (Inr (Not_Started (snd (msys env (Sys_Close epoll_fd) (sm3t__close_server env (Some server) m)))))
           else obind (Some (sm3t__get_conf_value (p_lua P) (p_mem P) (m_lua m) ''tcp.listen.mode'' SM3T_CINT (As_int 0)))
             (\<lambda>(ok, L, from_lua).
               let m = m\<lparr>m_lua := L\<rparr> in
               if \<not> ok then Some (Inr (Not_Started m))
               else obind (Some (as_int from_lua)) (\<lambda>n.
                 let mode = n mod 256 in
                 obind (if mode = SM3T__MODE_FORWARD
                        then Some (sm3t__enqueue (p_mem P 80) None (Some (domains ! 0)))
                        else Some (Inr (False, None))) (\<lambda>(_, ups).
                 Some (Inr (Started server epoll_fd mode \<lparr>ls_mach = m, ls_dead = None, ls_ups = ups\<rparr>))))))"

definition sm3t__run_server :: "'l plat \<Rightarrow> 'l option \<Rightarrow> 'l mach \<Rightarrow> 'l mach cres option" where
  "sm3t__run_server P L m =
     (case L of None \<Rightarrow> Some (Inr m)
      | Some _ \<Rightarrow>
        obind (start_server P m) (\<lambda>r.
          case r of
            Not_Started m \<Rightarrow> Some (Inr m)
          | Started server epoll_fd mode s \<Rightarrow>
              obind (serve_loop P epoll_fd (srv_sock server) mode s) (\<lambda>s.
              obind (Some (shut_down P epoll_fd server s)) (\<lambda>s. Some (Inr (ls_mach s))))))"

section \<open>The loop over the addresses\<close>

text \<open>With one address the loop ends whatever happens.\<close>

lemma bind_loop_one: "bind_loop P [h] [h] m \<noteq> None"
  by (auto simp: bind_loop.simps [of P "[h]" "[h]"] bind_loop.simps [of P "[h]" "[]"]
      split: sum.splits bind_result.splits)

text \<open>What every pass keeps and every exit gives holds of the outcome of the loop.\<close>

lemma bind_loop_post:
  assumes pass: "\<And>t m. t \<in> set host \<Longrightarrow> I m \<Longrightarrow> post E (try_bind P t m) (\<lambda>(r, m'). case r of
      Bind_Retry \<Rightarrow> I m' | Bind_Null \<Rightarrow> Q (None, m') | Bind_Done s \<Rightarrow> Q (Some s, m'))"
    and none: "\<And>m. I m \<Longrightarrow> Q (None, m)" and "I m" and "set tmp \<subseteq> set host"
  shows "opost E (bind_loop P host tmp m) Q"
proof -
  let ?Q = "\<lambda>(((P', host'), tmp), m) r. P' = P \<and> host' = host \<and> set tmp \<subseteq> set host \<and> I m \<longrightarrow> post E r Q"
  have "?Q (((P, host), tmp), m) r" if "bind_loop P host tmp m = Some r" for r
  proof (rule bind_loop.raw_induct [where Pa = ?Q, OF _ that])
    fix loop P' host' tmp m r
    assume ih: "\<And>P' host' tmp m r. loop P' host' tmp m = Some r \<Longrightarrow> ?Q (((P', host'), tmp), m) r"
      and body: "(case tmp of [] \<Rightarrow> Some (Inr (None, m)) | t # _ \<Rightarrow>
          (case try_bind P' t m of Inl e \<Rightarrow> Some (Inl e) | Inr (r, m) \<Rightarrow>
             (case r of Bind_Retry \<Rightarrow> loop P' host' (tl host') m | Bind_Null \<Rightarrow> Some (Inr (None, m))
              | Bind_Done s \<Rightarrow> Some (Inr (Some s, m))))) = Some r"
    have "post E r Q" if *: "P' = P" "host' = host" "set tmp \<subseteq> set host" "I m"
    proof (cases tmp)
      case (Cons t ts)
      have "set (tl host) \<subseteq> set host" by (cases host) auto
      then show ?thesis
        using body Cons * pass [of t m] ih [of P host "tl host"]
        by (auto split: sum.splits bind_result.splits prod.splits)
    qed (use body none * in auto)
    then show "?Q (((P', host'), tmp), m) r" by auto
  qed
  then show ?thesis using assms(3,4) by (cases "bind_loop P host tmp m") auto
qed

text \<open>
  With two or more addresses that cannot be bound it never ends: every retry goes to the second one.
\<close>

definition stuck :: "'l plat \<Rightarrow> sockaddr list \<Rightarrow> sockaddr list \<Rightarrow> bool" where
  "stuck P host tmp \<longleftrightarrow> 2 \<le> length host \<and> (tmp = host \<or> tmp = tl host)
     \<and> (\<forall>t m. t \<in> set host \<longrightarrow> (\<exists>m'. try_bind P t m = Inr (Bind_Retry, m')))"

lemma stuck_retries:
  assumes "stuck P host tmp"
  shows "\<exists>t ts m'. tmp = t # ts \<and> try_bind P t m = Inr (Bind_Retry, m') \<and> stuck P host (tl host)"
proof -
  obtain h1 h2 hs where h: "host = h1 # h2 # hs" using assms
    by (cases host; cases "tl host") (auto simp: stuck_def)
  obtain t ts where t: "tmp = t # ts" "t \<in> set host" using assms h by (auto simp: stuck_def)
  then obtain m' where "try_bind P t m = Inr (Bind_Retry, m')" using assms unfolding stuck_def by blast
  then show ?thesis using t(1) assms by (auto simp: stuck_def)
qed

text \<open>
  C23. When the resolver gives two or more addresses and none of them can be bound, the search for a
  listening address never ends, because every retry goes back to the second address.
\<close>

theorem bind_loop_diverges:
  assumes "stuck P host tmp"
  shows "bind_loop P host tmp m = None"
proof -
  let ?Q = "\<lambda>(((P, host), tmp), m) r. \<not> stuck P host tmp"
  have "?Q (((P, host), tmp), m) r" if "bind_loop P host tmp m = Some r" for r
  proof (rule bind_loop.raw_induct [where Pa = ?Q, OF _ that])
    fix loop P host tmp m r
    assume ih: "\<And>P host tmp m r. loop P host tmp m = Some r \<Longrightarrow> ?Q (((P, host), tmp), m) r"
      and body: "(case tmp of [] \<Rightarrow> Some (Inr (None, m)) | t # _ \<Rightarrow>
          (case try_bind P t m of Inl e \<Rightarrow> Some (Inl e) | Inr (r, m) \<Rightarrow>
             (case r of Bind_Retry \<Rightarrow> loop P host (tl host) m | Bind_Null \<Rightarrow> Some (Inr (None, m))
              | Bind_Done s \<Rightarrow> Some (Inr (Some s, m))))) = Some r"
    have False if st: "stuck P host tmp"
    proof -
      obtain t ts m' where "tmp = t # ts" "try_bind P t m = Inr (Bind_Retry, m')" "stuck P host (tl host)"
        using stuck_retries [OF st, of m] by blast
      then show False using body ih [of P host "tl host" m' r] by simp
    qed
    then show "?Q (((P, host), tmp), m) r" by auto
  qed
  then show ?thesis using assms by (cases "bind_loop P host tmp m") auto
qed

text \<open>No address can be bound when no socket can be had.\<close>

lemma stuck_no_socket:
  assumes "2 \<le> length host" and "\<And>tr f. sr_ret (p_env P tr (Sys_Socket f)) = SM3T__ERR"
  shows "stuck P host host"
  using assms by (simp add: stuck_def try_bind_def msys_pair)

end
