(* ===== verification/Sm3t_Safety.thy ===== *)
theory Sm3t_Safety
  imports Sm3t_Server
begin

unbundle bit_operations_syntax

text \<open>
  Memory safety of the event loop: contexts point at each other in pairs, a context is taken out of
  its pair before it is released, and so no freed context is ever reached, whatever the kernel, Lua
  and the hooks do.
\<close>

section \<open>Peers\<close>

definition pmap :: "'l mach \<Rightarrow> addr \<Rightarrow> addr option option" where
  "pmap m x = map_option c_peer (m_heap m x)"

text \<open>Both ends of a pair are taken apart.\<close>

definition cut :: "addr \<Rightarrow> addr \<Rightarrow> (addr \<Rightarrow> addr option option) \<Rightarrow> addr \<Rightarrow> addr option option" where
  "cut a b p x = (if x = a \<or> x = b then map_option (\<lambda>_. None) (p x) else p x)"

named_theorems pmap_simps \<open>peers after an update\<close>

lemma pmap_upd [pmap_simps]: "(\<And>c. c_peer (f c) = c_peer c) \<Longrightarrow> pmap (upd_ctx a f m) = pmap m"
  by (rule ext) (simp add: pmap_def mach_simps option.map_comp comp_def)

lemma pmap_updates [pmap_simps]:
  "pmap (m\<lparr>m_trace := tr\<rparr>) = pmap m" "pmap (m\<lparr>m_lua := L\<rparr>) = pmap m"
  "pmap (arm env e fd a evs m) = pmap m" "pmap (snd (msys env c m)) = pmap m"
  by (simp_all add: pmap_def fun_eq_iff mach_simps)

lemma pmap_detach [pmap_simps]: "pmap (detach a b m) = cut a b (pmap m)"
  by (rule ext) (auto simp: pmap_def cut_def detach_def mach_simps option.map_comp comp_def)

lemma pmap_half_close [pmap_simps]: "pmap (half_close env a b peer m) = cut a b (pmap m)"
  by (simp add: half_close_def Let_def pmap_simps)

section \<open>The handlers\<close>

lemma post_buf: "post not_uaf (buf_read buf k n) (\<lambda>_. True)" "post not_uaf (buf_copy buf bs) (\<lambda>_. True)"
  "post not_uaf (buf_store buf i b) (\<lambda>_. True)"
  by (simp_all add: buf_read_def buf_copy_def buf_store_def)

lemma post_ctx_at: "m_heap m a = Some c \<Longrightarrow> post not_uaf (ctx_at m a) (\<lambda>d. d = c)"
  by (simp add: ctx_at_def)

text \<open>The handler goes on with the peers as they were, or has taken the pair apart.\<close>

definition handled :: "addr \<Rightarrow> addr \<Rightarrow> 'l mach \<Rightarrow> bool \<times> 'l mach \<Rightarrow> bool" where
  "handled a b m r \<longleftrightarrow> pmap (snd r) = (if fst r then pmap m else cut a b (pmap m))"

lemma handledI: "pmap m' = (if k then pmap m else cut a b (pmap m)) \<Longrightarrow> handled a b m (k, m')"
  by (simp add: handled_def)

lemma handled_cong: "pmap m' = pmap m \<Longrightarrow> handled a b m' = handled a b m"
  by (rule ext) (simp add: handled_def)

lemma flush_queued_handled: "post not_uaf (flush_queued env e a ctx b peer m) (handled a b m)"
  unfolding flush_queued_def
  by (rule post_cbind [OF post_buf(1)])
     (auto simp: msys_pair Let_def i32_def pmap_simps intro!: handledI)

lemma queue_rest_handled:
  "m_heap m b = Some peer \<Longrightarrow> post not_uaf (queue_rest env e a fd b bs m) (handled a b m)"
  by (auto simp: queue_rest_def ctx_at_def buf_copy_def pmap_simps intro!: handledI)

lemma send_on_handled:
  assumes "m_heap m b = Some peer"
  shows "post not_uaf (send_on env e a fd b fd_out buff n m) (handled a b m)"
proof -
  have "post not_uaf (queue_rest env e a fd b bs (m\<lparr>m_trace := tr\<rparr>)) (handled a b m)" for bs tr
    using queue_rest_handled [of "m\<lparr>m_trace := tr\<rparr>" b peer env e a fd bs] assms
      handled_cong [of "m\<lparr>m_trace := tr\<rparr>" m a b] by (simp add: pmap_simps)
  then show ?thesis
    unfolding send_on_def
    by (intro post_cbind [OF post_buf(1)]) (auto simp: msys_pair Let_def pmap_simps intro!: handledI)
qed

lemma hook_on_data_safe: "post not_uaf (sm3t__hook_on_data A L a buf n dir) (\<lambda>_. True)"
  by (auto simp: sm3t__hook_on_data_def hook_data_result_def luaL_len_string_def buf_read_def buf_copy_def
      buf_store_def cbind_def Let_def split: option.splits prod.splits sum.splits lval.splits)

lemma read_and_forward_handled:
  assumes "m_heap m b = Some peer" and "a \<noteq> b"
  shows "post not_uaf (read_and_forward A env e a ctx b peer m) (handled a b m)"
proof -
  let ?r = "env (m_trace m) (Sys_Recv (c_fd ctx) (SM3T_BUFFER_SIZE - 1))"
  let ?m1 = "m\<lparr>m_trace := m_trace m @ [(Sys_Recv (c_fd ctx) (SM3T_BUFFER_SIZE - 1), ?r)]\<rparr>"
  have fwd: "post not_uaf (send_on env e a fd b fd_out buff n m') (handled a b m)"
    if "m' = upd_ctx a (\<lambda>c. c\<lparr>c_buffer := buff2\<rparr>) m''" "m_heap m'' = m_heap (upd_ctx a (\<lambda>c. c\<lparr>c_buffer := buff1\<rparr>) ?m1)"
    for m' m'' fd fd_out buff buff1 buff2 n
  proof -
    have p: "pmap m'' = pmap m" using that(2) by (simp add: pmap_def fun_eq_iff mach_simps option.map_comp comp_def)
    have "m_heap m' b = Some peer" using that assms by (simp add: mach_simps)
    from send_on_handled [OF this, of env e a fd fd_out buff n] show ?thesis
      using handled_cong [of m' m a b] p that(1) by (simp add: pmap_simps)
  qed
  show ?thesis
    unfolding read_and_forward_def
    by (auto simp: msys_pair Let_def check_hup_def pmap_simps buf_copy_def mach_simps
        intro!: handledI post_cbind [OF hook_on_data_safe] fwd split: option.splits)
qed

text \<open>A set of contexts that point at each other in pairs or at nothing.\<close>

definition paired :: "addr set \<Rightarrow> 'l mach \<Rightarrow> bool" where
  "paired R m \<longleftrightarrow> (\<forall>a\<in>R. pmap m a \<noteq> None \<and>
     (\<forall>b. pmap m a = Some (Some b) \<longrightarrow> a \<noteq> b \<and> b \<in> R \<and> pmap m b = Some (Some a)))"

lemma paired_cong: "pmap m' = pmap m \<Longrightarrow> paired R m' = paired R m"
  by (simp only: paired_def)

lemma pairedD:
  assumes "paired R m" and "a \<in> R"
  shows "pmap m a \<noteq> None" and "pmap m a = Some (Some b) \<Longrightarrow> a \<noteq> b \<and> b \<in> R \<and> pmap m b = Some (Some a)"
  using assms unfolding paired_def by blast+

lemma pairedI:
  assumes "\<And>a. a \<in> R \<Longrightarrow> pmap m a \<noteq> None"
    and "\<And>a b. \<lbrakk> a \<in> R; pmap m a = Some (Some b) \<rbrakk> \<Longrightarrow> a \<noteq> b \<and> b \<in> R \<and> pmap m b = Some (Some a)"
  shows "paired R m"
  using assms unfolding paired_def by blast

text \<open>After a handler call for \<open>a\<close>: pairs are still pairs, and \<open>a\<close> is single when it gave up.\<close>

definition served :: "addr set \<Rightarrow> addr \<Rightarrow> 'l mach \<Rightarrow> bool \<times> 'l mach \<Rightarrow> bool" where
  "served R a m r \<longleftrightarrow> paired R (snd r) \<and> (\<not> fst r \<longrightarrow> pmap (snd r) a = Some None)
     \<and> (\<forall>x. pmap m x = Some None \<longrightarrow> pmap (snd r) x = Some None)"

lemma handled_served:
  assumes "paired R m" and "a \<in> R" and "pmap m a = Some (Some b)" and "handled a b m r"
  shows "served R a m r"
proof (cases "fst r")
  case True
  then have p: "pmap (snd r) = pmap m" using assms(4) by (simp add: handled_def)
  then have "paired R (snd r)" using assms(1) paired_cong by blast
  then show ?thesis using True p by (simp add: served_def)
next
  case False
  then have p: "pmap (snd r) = cut a b (pmap m)" using assms(4) by (simp add: handled_def)
  have b: "a \<noteq> b" "b \<in> R" "pmap m b = Some (Some a)" using pairedD(2) [OF assms(1-3)] by simp_all
  have other: "x \<noteq> y \<and> y \<in> R \<and> y \<noteq> a \<and> y \<noteq> b \<and> pmap m y = Some (Some x)"
    if "x \<in> R" "x \<noteq> a" "x \<noteq> b" "pmap m x = Some (Some y)" for x y
    using pairedD(2) [OF assms(1) that(1,4)] that(2,3) assms(3) b(3) by auto
  have "paired R (snd r)"
  proof (rule pairedI)
    show "pmap (snd r) x \<noteq> None" if "x \<in> R" for x
      using pairedD(1) [OF assms(1) that] by (simp add: p cut_def)
    show "x \<noteq> y \<and> y \<in> R \<and> pmap (snd r) y = Some (Some x)" if "x \<in> R" "pmap (snd r) x = Some (Some y)" for x y
    proof -
      have x: "x \<noteq> a" "x \<noteq> b" "pmap m x = Some (Some y)" using that(2) by (auto simp: p cut_def split: if_splits)
      show ?thesis using other [OF that(1) x] by (simp add: p cut_def)
    qed
  qed
  then show ?thesis using False p assms(3) by (simp add: served_def cut_def)
qed

lemma tcp_ctx_handler_served:
  assumes R: "paired R m" and a: "a \<in> R"
  shows "post not_uaf (sm3t__tcp_ctx_handler A env (Some a) e m) (served R a m)"
proof -
  obtain ctx where ctx: "m_heap m a = Some ctx" using pairedD(1) [OF R a] by (auto simp: pmap_def)
  show ?thesis
  proof (cases "c_peer ctx")
    case None
    let ?m = "upd_ctx a (\<lambda>c. c\<lparr>c_write_eof := True, c_read_eof := True\<rparr>) m"
    have p: "pmap ?m = pmap m" by (simp add: pmap_simps)
    have "pmap m a = Some None" using ctx None by (simp add: pmap_def)
    moreover have "paired R ?m" using R paired_cong [OF p] by blast
    ultimately have "served R a m (False, ?m)" using p by (simp add: served_def)
    then show ?thesis using ctx None by (simp add: sm3t__tcp_ctx_handler_def ctx_at_def)
  next
    case (Some b)
    have pa: "pmap m a = Some (Some b)" using ctx Some by (simp add: pmap_def)
    from pairedD(2) [OF R a this] have b: "a \<noteq> b" "pmap m b = Some (Some a)" by simp_all
    then obtain peer where peer: "m_heap m b = Some peer" by (auto simp: pmap_def)
    have "post not_uaf (sm3t__tcp_ctx_handler A env (Some a) e m) (handled a b m)"
      using ctx Some peer b(1) flush_queued_handled read_and_forward_handled [OF peer b(1)]
      by (auto simp: sm3t__tcp_ctx_handler_def ctx_at_def check_hup_def pmap_simps intro!: handledI)
    then show ?thesis using handled_served [OF R a pa] by (rule post_weaken)
  qed
qed

section \<open>Accepting clients\<close>

text \<open>An allocation returns an address that is not in use.\<close>

definition alloc_fresh :: "'l plat \<Rightarrow> bool" where
  "alloc_fresh P \<longleftrightarrow> (\<forall>m a c. p_ctx P m = Some (a, c) \<longrightarrow> m_heap m a = None)"

definition kept :: "addr set \<Rightarrow> 'l mach \<Rightarrow> 'l mach \<Rightarrow> bool" where
  "kept R m m' \<longleftrightarrow> (\<forall>x\<in>R. pmap m' x = pmap m x)"

lemma kept_refl [simp]: "kept R m m"
  by (simp add: kept_def)

lemma kept_paired:
  assumes "paired R m" and "kept R m m'"
  shows "paired R m'"
proof (rule pairedI)
  fix a assume a: "a \<in> R"
  have p: "pmap m' a = pmap m a" using a assms(2) by (simp add: kept_def)
  then show "pmap m' a \<noteq> None" using pairedD(1) [OF assms(1) a] by simp
  fix b assume "pmap m' a = Some (Some b)"
  then have "a \<noteq> b \<and> b \<in> R \<and> pmap m b = Some (Some a)" using pairedD(2) [OF assms(1) a] p by simp
  then show "a \<noteq> b \<and> b \<in> R \<and> pmap m' b = Some (Some a)" using assms(2) by (simp add: kept_def)
qed

lemma get_conf_value_safe: "post not_uaf (sm3t__get_conf_value A mem L path type out) (\<lambda>_. True)"
proof -
  have "post not_uaf (sm3t__lua_ctype A mem M type out) (\<lambda>_. True)" for M
    by (cases type) (auto simp: sm3t__lua_ctype_def luaL_len_string_def int64_of_double_def cbind_def Let_def
        split: option.splits lval.splits cdouble.splits)
  then show ?thesis
    by (auto simp: sm3t__get_conf_value_def split: prod.splits intro!: post_cbind)
qed

text \<open>The registered contexts are untouched and the contexts \<open>N\<close>, not registered yet, are allocated.\<close>

definition held :: "addr set \<Rightarrow> 'l mach \<Rightarrow> addr set \<Rightarrow> 'l mach \<Rightarrow> bool" where
  "held R m N m' \<longleftrightarrow> kept R m m' \<and> N \<inter> R = {} \<and> (\<forall>x\<in>N. pmap m' x \<noteq> None)"

lemma held_updates [pmap_simps]:
  "held R m N (m'\<lparr>m_trace := tr\<rparr>) = held R m N m'" "held R m N (m'\<lparr>m_lua := L\<rparr>) = held R m N m'"
  by (simp_all add: held_def kept_def pmap_simps)

lemma held_upd [pmap_simps]:
  "(\<And>c. c_peer (f c) = c_peer c) \<Longrightarrow> held R m N (upd_ctx a f m') = held R m N m'"
  by (simp add: held_def kept_def pmap_simps)

lemma set_peer_meta_held:
  assumes "held R m N m1" and "a \<in> N"
  shows "post not_uaf (sm3t__set_peer_meta P a addr m1) (held R m N)"
proof -
  obtain c where c: "m_heap m1 a = Some c" using assms by (auto simp: held_def pmap_def)
  have b: "post not_uaf (as_bool v) (\<lambda>_. True)" for v by (simp add: as_bool_def split: sm3t_value_t.splits)
  show ?thesis
    unfolding sm3t__set_peer_meta_def
    by (rule post_cbind [OF post_ctx_at [OF c]], rule post_cbind [OF get_conf_value_safe])
       (use assms in \<open>auto simp: Let_def pmap_simps split: option.splits intro!: post_cbind [OF b]\<close>)
qed

lemma new_ctx_held:
  assumes "alloc_fresh P" and "paired R m" and "held R m N m1"
  shows "post not_uaf (sm3t__new_ctx (p_ctx P m1) m1) (\<lambda>(a, m2). held R m (insert a N) m2 \<and> a \<notin> N)"
proof (cases "p_ctx P m1")
  case None
  then show ?thesis by (simp add: sm3t__new_ctx_def)
next
  case (Some r)
  obtain a c where r: "r = (a, c)" by (cases r)
  have "pmap m1 a = None" using assms(1) Some r by (simp add: alloc_fresh_def pmap_def)
  moreover have "pmap m1 x \<noteq> None" if "x \<in> R" for x
    using assms(3) pairedD(1) [OF assms(2) that] that by (simp add: held_def kept_def)
  ultimately have a: "a \<notin> R" "a \<notin> N" using assms(3) by (fastforce simp: held_def)+
  let ?m2 = "m1\<lparr>m_heap := (m_heap m1)(a \<mapsto> c)\<rparr>"
  have "pmap ?m2 x = (if x = a then Some (c_peer c) else pmap m1 x)" for x by (simp add: pmap_def)
  then have "held R m (insert a N) ?m2" using a assms(3) by (auto simp: held_def kept_def)
  then show ?thesis using Some r a(2) by (simp add: sm3t__new_ctx_def)
qed

lemma cleanup_ctx_safe:
  assumes "pmap m a \<noteq> None"
  shows "post not_uaf (sm3t__cleanup_ctx A env m (Some a)) (\<lambda>m'. pmap m' = (pmap m)(a := None))"
proof -
  obtain c where "m_heap m a = Some c" using assms by (auto simp: pmap_def)
  then show ?thesis
    by (auto simp: sm3t__cleanup_ctx_def ctx_at_def Let_def pmap_def fun_eq_iff mach_simps
        split: option.splits)
qed

lemma cleanup_ctx_held:
  assumes "held R m (insert a N) m1" and "a \<notin> N"
  shows "post not_uaf (sm3t__cleanup_ctx A env m1 (Some a)) (held R m N)"
proof -
  have "pmap m1 a \<noteq> None" using assms by (simp add: held_def)
  from cleanup_ctx_safe [OF this] show ?thesis
    by (rule post_weaken) (use assms in \<open>auto simp: held_def kept_def\<close>)
qed

lemma connect_upstream_held:
  assumes "sm3t__connect_upstream env addr m1 = (fd, m2)" and "held R m N m1"
  shows "held R m N m2"
  using assms by (auto simp: sm3t__connect_upstream_def msys_pair Let_def pmap_simps split: if_splits)

lemma dequeue_safe: "post not_uaf (sm3t__dequeue q) (\<lambda>_. True)"
  by (auto simp: sm3t__dequeue_def split: option.splits
      intro!: post_cbind [OF post_slot_get] post_cbind [OF post_i32] post_cbind [OF post_c_rem])

lemma pick_upstream_held:
  "held R m N m1 \<Longrightarrow> post not_uaf (pick_upstream P mode fd q m1) (\<lambda>(_, _, m2). held R m N m2)"
  by (auto simp: pick_upstream_def msys_pair Let_def pmap_simps intro!: post_cbind [OF dequeue_safe])

lemma pmap_link:
  assumes "pmap m a \<noteq> None" and "pmap m b \<noteq> None" and "a \<noteq> b"
  shows "pmap (link_ctxs env e a fa b fb m) = (pmap m)(a := Some (Some b), b := Some (Some a))"
  using assms by (auto simp: link_ctxs_def Let_def pmap_def fun_eq_iff mach_simps)

section \<open>Releasing contexts\<close>

text \<open>Releasing a single context leaves the others paired.\<close>

lemma cleanup_paired:
  assumes R: "paired R m" and x: "pmap m x = Some None"
  shows "post not_uaf (sm3t__cleanup_ctx A env m (Some x)) (\<lambda>m'. paired (R - {x}) m' \<and> pmap m' = (pmap m)(x := None))"
proof -
  have "paired (R - {x}) m'" if m': "pmap m' = (pmap m)(x := None)" for m' :: "'a mach"
  proof (rule pairedI)
    fix a assume a: "a \<in> R - {x}"
    then show "pmap m' a \<noteq> None" using pairedD(1) [OF R, of a] m' by simp
    fix b assume "pmap m' a = Some (Some b)"
    then have "pmap m a = Some (Some b)" using a m' by simp
    from pairedD(2) [OF R _ this] a have b: "a \<noteq> b" "b \<in> R" "pmap m b = Some (Some a)" by auto
    then show "a \<noteq> b \<and> b \<in> R - {x} \<and> pmap m' b = Some (Some a)" using x m' by auto
  qed
  then show ?thesis using x by (intro post_weaken [OF cleanup_ctx_safe]) auto
qed

text \<open>
  Releasing the collected contexts frees them and nothing points at them any more. What every
  release keeps of \<open>I\<close>, a property of the contexts left, holds at the end.
\<close>

lemma cleanup_run_post:
  assumes step: "\<And>R m x. \<lbrakk> I R m; paired R m; x \<in> R; pmap m x = Some None \<rbrakk> \<Longrightarrow>
      post (\<lambda>_. True) (sm3t__cleanup_ctx A env m (Some x)) (I (R - {x}))"
    and "I R m" and "paired R m" and "distinct xs" and "set xs \<subseteq> R" and "\<forall>a\<in>set xs. pmap m a = Some None"
  shows "post not_uaf (run_steps (\<lambda>s a. sm3t__cleanup_ctx A env s (Some a)) m xs) (\<lambda>m'. I (R - set xs) m' \<and> paired (R - set xs) m')"
  using assms(2-)
proof (induction xs arbitrary: R m)
  case (Cons x xs)
  have x: "x \<in> R" "pmap m x = Some None" and R: "R - set (x # xs) = R - {x} - set xs" using Cons.prems(4,5) by auto
  note first = post_conj [OF cleanup_paired [OF Cons.prems(2) x(2)] step [OF Cons.prems(1,2) x]]
  show ?case
    unfolding run_steps.simps R by (rule post_cbind [OF first]) (use Cons.prems in \<open>auto intro!: Cons.IH\<close>)
qed simp

end
