(* ===== verification/Sm3t_Accept.thy ===== *)
theory Sm3t_Accept
  imports Sm3t_Safety
begin

unbundle bit_operations_syntax

text \<open>
  Handlers and acceptance seen from the trace: which descriptors an epoll instance watches and with
  which pointer, which descriptors are open, which system calls a handler makes, and what accepting
  a client adds to the contexts in use.
\<close>

section \<open>What an epoll instance watches\<close>

fun epoll_step :: "int \<Rightarrow> syscall \<times> sysret \<Rightarrow> (int \<rightharpoonup> addr) \<Rightarrow> (int \<rightharpoonup> addr)" where
  "epoll_step e (Sys_Epoll_Create n, r) W = (if sr_ret r = e then Map.empty else W)"
| "epoll_step e (Sys_Close fd, r) W = (if fd = e then Map.empty else W(fd := None))"
| "epoll_step e (Sys_Epoll_Ctl EPOLL_CTL_DEL e' fd ev, r) W =
     (if e' = e \<and> sr_ret r \<noteq> SM3T__ERR then W(fd := None) else W)"
| "epoll_step e (Sys_Epoll_Ctl op e' fd (Some ev), r) W =
     (if e' = e \<and> sr_ret r \<noteq> SM3T__ERR then W(fd \<mapsto> ev_data ev) else W)"
| "epoll_step e _ W = W"

definition epoll_set :: "int \<Rightarrow> trace \<Rightarrow> int \<rightharpoonup> addr" where
  "epoll_set e tr = fold (epoll_step e) tr Map.empty"

text \<open>
  \<open>epoll_wait\<close> stores at most as many events as there is room for, each for another descriptor that
  is registered, with the user data that was registered for it.
\<close>

definition epoll_ok :: "env \<Rightarrow> bool" where
  "epoll_ok env \<longleftrightarrow> (\<forall>tr e n. let r = env tr (Sys_Epoll_Wait e n) in 0 < n \<longrightarrow> sr_ret r \<noteq> SM3T__ERR \<longrightarrow>
     length (sr_events r) = nat (sr_ret r) \<and> sr_ret r \<le> n \<and>
     (\<exists>fds. distinct fds \<and> list_all2 (\<lambda>ev fd. epoll_set e tr fd = Some (ev_data ev)) (sr_events r) fds))"

lemma epoll_okD:
  assumes "epoll_ok env" and "0 < n" and "sr_ret (env tr (Sys_Epoll_Wait e n)) \<noteq> SM3T__ERR"
  shows "length (sr_events (env tr (Sys_Epoll_Wait e n))) = nat (sr_ret (env tr (Sys_Epoll_Wait e n)))
     \<and> sr_ret (env tr (Sys_Epoll_Wait e n)) \<le> n
     \<and> (\<exists>fds. distinct fds \<and> list_all2 (\<lambda>ev fd. epoll_set e tr fd = Some (ev_data ev)) (sr_events (env tr (Sys_Epoll_Wait e n))) fds)"
  using assms unfolding epoll_ok_def Let_def by blast

text \<open>
  \<open>accept\<close> and \<open>socket\<close> return an error or a descriptor, an \<open>int\<close> other than 0, which is the
  standard input of the process.
\<close>

definition fd_ok :: "env \<Rightarrow> bool" where
  "fd_ok env \<longleftrightarrow> (\<forall>tr c. (\<exists>x. c = Sys_Accept x \<or> c = Sys_Socket x) \<longrightarrow>
     sr_ret (env tr c) = SM3T__ERR \<or> (0 < sr_ret (env tr c) \<and> sr_ret (env tr c) < 2 ^ 31))"

lemma fd_okD:
  assumes "fd_ok env" and "c = Sys_Accept x \<or> c = Sys_Socket x" and "sr_ret (env tr c) \<noteq> SM3T__ERR"
  shows "0 < sr_ret (env tr c)" and "sr_ret (env tr c) < 2 ^ 31"
  using assms by (auto simp: fd_ok_def)

text \<open>The open descriptors, and a kernel that returns no descriptor that is open.\<close>

fun open_step :: "syscall \<times> sysret \<Rightarrow> int set \<Rightarrow> int set" where
  "open_step (Sys_Accept _, r) fds = (if sr_ret r = SM3T__ERR then fds else insert (sr_ret r) fds)"
| "open_step (Sys_Socket _, r) fds = (if sr_ret r = SM3T__ERR then fds else insert (sr_ret r) fds)"
| "open_step (Sys_Epoll_Create _, r) fds = (if sr_ret r = SM3T__ERR then fds else insert (sr_ret r) fds)"
| "open_step (Sys_Close fd, _) fds = fds - {fd}"
| "open_step _ fds = fds"

definition open_fds :: "trace \<Rightarrow> int set" where
  "open_fds tr = fold open_step tr {}"

definition fd_fresh :: "env \<Rightarrow> bool" where
  "fd_fresh env \<longleftrightarrow> (\<forall>tr c. (\<exists>x. c = Sys_Accept x \<or> c = Sys_Socket x) \<longrightarrow>
     sr_ret (env tr c) = SM3T__ERR \<or> sr_ret (env tr c) \<notin> open_fds tr)"

lemma fd_freshD:
  "fd_fresh env \<Longrightarrow> c = Sys_Accept x \<or> c = Sys_Socket x \<Longrightarrow> sr_ret (env tr c) \<noteq> SM3T__ERR \<Longrightarrow> sr_ret (env tr c) \<notin> open_fds tr"
  by (auto simp: fd_fresh_def)

lemma open_fds_append [simp]: "open_fds (tr @ us) = fold open_step us (open_fds tr)"
  by (simp add: open_fds_def)

section \<open>Stretches of the trace\<close>

definition ext :: "(syscall \<times> sysret \<Rightarrow> bool) \<Rightarrow> trace \<Rightarrow> trace \<Rightarrow> bool" where
  "ext p tr tr' \<longleftrightarrow> (\<exists>us. tr' = tr @ us \<and> (\<forall>u\<in>set us. p u))"

lemma ext_append [simp]: "ext p tr (tr @ us) \<longleftrightarrow> (\<forall>u\<in>set us. p u)"
  by (simp add: ext_def)

lemma ext_refl [simp]: "ext p tr tr"
  by (simp add: ext_def)

lemma ext_trans: "ext p tr tr1 \<Longrightarrow> ext p tr1 tr2 \<Longrightarrow> ext p tr tr2"
  by (elim ext_def [THEN iffD1, elim_format] exE conjE) (simp add: ball_Un)

lemma ext_more: "ext p tr tr1 \<Longrightarrow> \<forall>u\<in>set us. p u \<Longrightarrow> ext p tr (tr1 @ us)"
  by (erule ext_trans) (simp only: ext_append)

lemma ext_mono: "ext p tr tr' \<Longrightarrow> (\<And>u. p u \<Longrightarrow> q u) \<Longrightarrow> ext q tr tr'"
  by (auto simp: ext_def)

text \<open>What a call registers, and stretches that register \<open>K\<close> at most.\<close>

fun registers :: "int \<Rightarrow> syscall \<times> sysret \<Rightarrow> (int \<times> addr) set" where
  "registers e (Sys_Epoll_Ctl op e' fd (Some ev), r) =
     (if e' = e \<and> op \<noteq> EPOLL_CTL_DEL then {(fd, ev_data ev)} else {})"
| "registers e _ = {}"

abbreviation moved :: "int \<Rightarrow> (int \<times> addr) set \<Rightarrow> trace \<Rightarrow> trace \<Rightarrow> bool" where
  "moved e K \<equiv> ext (\<lambda>u. registers e u \<subseteq> K)"

lemma epoll_step_registers:
  "epoll_step e u W fd = Some d \<Longrightarrow> W fd = Some d \<or> (fd, d) \<in> registers e u"
  by (induction e u W rule: epoll_step.induct) (auto split: if_splits)

lemma moved_epoll_set:
  assumes "moved e K tr tr'" and "epoll_set e tr' fd = Some d"
  shows "epoll_set e tr fd = Some d \<or> (fd, d) \<in> K"
proof -
  have "fold (epoll_step e) us W fd = Some d \<Longrightarrow> (\<forall>u\<in>set us. registers e u \<subseteq> K) \<Longrightarrow> W fd = Some d \<or> (fd, d) \<in> K" for us W
  proof (induction us arbitrary: W)
    case (Cons u us)
    then have "epoll_step e u W fd = Some d \<or> (fd, d) \<in> K" by simp
    then show ?case using Cons.prems(2) epoll_step_registers [of e u W fd d] by auto
  qed simp
  then show ?thesis using assms by (auto simp: ext_def epoll_set_def)
qed

lemma epoll_set_append [simp]: "epoll_set e (tr @ us) = fold (epoll_step e) us (epoll_set e tr)"
  by (simp add: epoll_set_def)

text \<open>Calls that carry no payload and close none of \<open>F\<close>; quiet ones register nothing either.\<close>

fun idle_call :: "int set \<Rightarrow> syscall \<times> sysret \<Rightarrow> bool" where
  "idle_call F (Sys_Send _ _, _) = False"
| "idle_call F (Sys_Recv _ _, _) = False"
| "idle_call F (Sys_Close fd, _) = (fd \<notin> F)"
| "idle_call F _ = True"

definition quiet_call :: "int \<Rightarrow> int set \<Rightarrow> syscall \<times> sysret \<Rightarrow> bool" where
  "quiet_call e F u \<longleftrightarrow> idle_call F u \<and> registers e u = {}"

lemma idle_open: "ext (idle_call F) tr tr' \<Longrightarrow> F \<subseteq> open_fds tr \<Longrightarrow> F \<subseteq> open_fds tr'"
proof -
  have "F \<subseteq> fds \<Longrightarrow> \<forall>u\<in>set us. idle_call F u \<Longrightarrow> F \<subseteq> fold open_step us fds" for us fds
  proof (induction us arbitrary: fds)
    case (Cons u us)
    have "F \<subseteq> open_step u fds" using Cons.prems by (cases "(u, fds)" rule: open_step.cases) auto
    then show ?case using Cons by simp
  qed simp
  note keep = this
  assume e: "ext (idle_call F) tr tr'" and F: "F \<subseteq> open_fds tr"
  obtain us where us: "tr' = tr @ us" "\<forall>u\<in>set us. idle_call F u" using e by (auto simp: ext_def)
  show "F \<subseteq> open_fds tr'" using keep [OF F us(2)] by (simp add: us(1) open_fds_def)
qed

lemma idle_call_mono: "idle_call F u \<Longrightarrow> F' \<subseteq> F \<Longrightarrow> idle_call F' u"
  by (cases "(F, u)" rule: idle_call.cases) auto

lemma quiet_idle: "ext (quiet_call e F) tr tr' \<Longrightarrow> ext (idle_call F) tr tr'"
  by (erule ext_mono) (simp add: quiet_call_def)

lemma quiet_moved: "ext (quiet_call e F) tr tr' \<Longrightarrow> moved e K tr tr'"
  by (erule ext_mono) (simp add: quiet_call_def)

lemma quiet_less: "ext (quiet_call e F) tr tr' \<Longrightarrow> F' \<subseteq> F \<Longrightarrow> ext (quiet_call e F') tr tr'"
  by (erule ext_mono) (auto simp: quiet_call_def intro: idle_call_mono)

section \<open>The calls of a handler\<close>

text \<open>Payload and half-closing on the descriptors of \<open>K\<close>, and changes of what is watched for them.\<close>

fun relay_call :: "int \<Rightarrow> (int \<times> addr) set \<Rightarrow> syscall \<times> sysret \<Rightarrow> bool" where
  "relay_call e K (Sys_Send fd _, _) = (fd \<in> fst ` K)"
| "relay_call e K (Sys_Recv fd _, _) = (fd \<in> fst ` K)"
| "relay_call e K (Sys_Shutdown_Wr fd, _) = (fd \<in> fst ` K)"
| "relay_call e K (Sys_Epoll_Ctl op e' fd (Some ev), _) = (op = EPOLL_CTL_MOD \<and> e' = e \<and> (fd, ev_data ev) \<in> K)"
| "relay_call e K _ = False"

lemma relay_call_registers: "relay_call e K u \<Longrightarrow> registers e u \<subseteq> K"
  by (cases "(e, K, u)" rule: relay_call.cases) auto

lemma relay_moved: "ext (relay_call e K) tr tr' \<Longrightarrow> moved e K tr tr'"
  by (erule ext_mono) (rule relay_call_registers)

lemma relay_call_mono: "relay_call e K u \<Longrightarrow> K \<subseteq> K' \<Longrightarrow> relay_call e K' u"
  by (cases "(e, K, u)" rule: relay_call.cases) auto

named_theorems tr_simps \<open>the trace after an update\<close>

lemma trace_simps [tr_simps]:
  "m_trace (upd_ctx a f m) = m_trace m" "m_trace (detach a b m) = m_trace m"
  "m_trace (arm env e fd a evs m) = m_trace m @ [(Sys_Epoll_Ctl EPOLL_CTL_MOD e fd (Some \<lparr>ev_events = evs, ev_data = a\<rparr>),
     env (m_trace m) (Sys_Epoll_Ctl EPOLL_CTL_MOD e fd (Some \<lparr>ev_events = evs, ev_data = a\<rparr>)))]"
  by (simp_all add: mach_simps detach_def arm_def modify_poll_trace)

abbreviation end_regs :: "addr \<Rightarrow> sm3t_context_t \<Rightarrow> addr \<Rightarrow> sm3t_context_t \<Rightarrow> (int \<times> addr) set" where
  "end_regs a ca b cb \<equiv> {(c_fd ca, a), (c_fd cb, b)}"

lemma half_close_calls: "ext (relay_call e (end_regs a ca b cb)) (m_trace m) (m_trace (half_close env a b cb m))"
  by (simp add: half_close_def Let_def tr_simps msys_pair)

lemma flush_queued_calls:
  "post (\<lambda>_. True) (flush_queued env e a ca b cb m) (\<lambda>(_, m'). ext (relay_call e (end_regs a ca b cb)) (m_trace m) (m_trace m'))"
  by (auto simp: flush_queued_def msys_pair Let_def tr_simps i32_def intro!: post_cbind [OF post_any])

lemma queue_rest_calls:
  assumes "fdmap m b = Some fb" and "ext (relay_call e {(fa, a), (fb, b)}) tr (m_trace m)"
  shows "post (\<lambda>_. True) (queue_rest env e a fa b bs m) (\<lambda>(_, m'). ext (relay_call e {(fa, a), (fb, b)}) tr (m_trace m'))"
proof -
  obtain c where "m_heap m b = Some c" "c_fd c = fb" using assms(1) by (auto simp: fdmap_def)
  then show ?thesis
    using assms(2) by (auto simp: queue_rest_def ctx_at_def Let_def tr_simps intro!: post_cbind [OF post_any] ext_more)
qed

lemma send_on_calls:
  assumes "fdmap m b = Some fb" and "ext (relay_call e {(fa, a), (fb, b)}) tr (m_trace m)"
  shows "post (\<lambda>_. True) (send_on env e a fa b fb buff n m) (\<lambda>(_, m'). ext (relay_call e {(fa, a), (fb, b)}) tr (m_trace m'))"
  using assms
  by (auto simp: send_on_def msys_pair Let_def tr_simps fdmap_simps
      intro!: post_cbind [OF post_any] queue_rest_calls ext_more)

lemma read_and_forward_calls:
  assumes "fdmap m b = Some (c_fd cb)"
  shows "post (\<lambda>_. True) (read_and_forward A env e a ca b cb m)
           (\<lambda>(_, m'). ext (relay_call e (end_regs a ca b cb)) (m_trace m) (m_trace m'))"
proof -
  let ?p = "relay_call e (end_regs a ca b cb)"
  have hc: "ext ?p (m_trace m) (m_trace (half_close env a b cb m1))" if "ext ?p (m_trace m) (m_trace m1)" for m1
    using ext_trans [OF that half_close_calls] .
  show ?thesis
    using assms unfolding read_and_forward_def
    by (auto simp: msys_pair Let_def check_hup_def tr_simps fdmap_simps split: option.splits
        intro!: post_cbind [OF post_any] send_on_calls hc)
qed

text \<open>A handler call works on the two contexts of a pair only.\<close>

lemma tcp_ctx_handler_calls:
  assumes ca: "m_heap m a = Some ca" and K: "(c_fd ca, a) \<in> K"
    and b: "\<And>b cb. c_peer ca = Some b \<Longrightarrow> m_heap m b = Some cb \<Longrightarrow> (c_fd cb, b) \<in> K"
  shows "post (\<lambda>_. True) (sm3t__tcp_ctx_handler A env (Some a) e m) (\<lambda>(_, m'). ext (relay_call e K) (m_trace m) (m_trace m'))"
proof (cases "\<exists>b cb. c_peer ca = Some b \<and> m_heap m b = Some cb")
  case False
  then show ?thesis
    using ca by (auto simp: sm3t__tcp_ctx_handler_def ctx_at_def tr_simps split: option.splits)
next
  case True
  then obtain b cb where cb: "c_peer ca = Some b" "m_heap m b = Some cb" by blast
  have "post (\<lambda>_. True) (sm3t__tcp_ctx_handler A env (Some a) e m)
      (\<lambda>(_, m'). ext (relay_call e (end_regs a ca b cb)) (m_trace m) (m_trace m'))"
    using ca cb flush_queued_calls [of env e a ca b cb m] read_and_forward_calls [of m b cb A env e a ca]
    by (auto simp: sm3t__tcp_ctx_handler_def ctx_at_def check_hup_def fdmap_def half_close_calls)
  then show ?thesis
    by (rule post_weaken) (use K assms(3) [OF cb] in \<open>auto elim!: ext_mono relay_call_mono\<close>)
qed

section \<open>Contexts and descriptors\<close>

definition data_fd :: "64 word \<Rightarrow> int" where
  "data_fd d = sint (ucast d :: 32 word)"

lemma ev_fd_data: "ev_fd ev = data_fd (ev_data ev)"
  by (simp add: ev_fd_def data_fd_def)

text \<open>
  \<open>R\<close> holds the contexts in use. Each has a descriptor other than 0, which \<open>sm3t__cleanup_ctx\<close> would
  not close, and every registered pointer is the context that owns the descriptor.
\<close>

definition owned :: "int \<Rightarrow> int \<Rightarrow> addr set \<Rightarrow> 'l mach \<Rightarrow> bool" where
  "owned e sock R m \<longleftrightarrow> (\<forall>a\<in>R. \<exists>fd>0. fdmap m a = Some fd)
     \<and> (\<forall>fd d. epoll_set e (m_trace m) fd = Some d \<longrightarrow> data_fd d = sock \<or> (d \<in> R \<and> fdmap m d = Some fd))"

lemma ownedD:
  assumes "owned e sock R m"
  shows "a \<in> R \<Longrightarrow> \<exists>fd>0. fdmap m a = Some fd"
    and "epoll_set e (m_trace m) fd = Some d \<Longrightarrow> data_fd d \<noteq> sock \<Longrightarrow> d \<in> R \<and> fdmap m d = Some fd"
  using assms unfolding owned_def by blast+

lemma owned_moved:
  assumes "owned e sock R m" and "moved e K (m_trace m) (m_trace m')" and "\<And>a. a \<in> R \<Longrightarrow> fdmap m' a = fdmap m a"
    and "\<And>fd d. (fd, d) \<in> K \<Longrightarrow> d \<in> R' \<and> fdmap m' d = Some fd"
    and "R \<subseteq> R'" and "\<And>a. a \<in> R' - R \<Longrightarrow> \<exists>fd>0. fdmap m' a = Some fd"
  shows "owned e sock R' m'"
  unfolding owned_def
proof (intro conjI ballI allI impI)
  show "\<exists>fd>0. fdmap m' a = Some fd" if "a \<in> R'" for a
    using ownedD(1) [OF assms(1), of a] assms(3) [of a] assms(6) [of a] that by (cases "a \<in> R") auto
  show "data_fd d = sock \<or> (d \<in> R' \<and> fdmap m' d = Some fd)" if "epoll_set e (m_trace m') fd = Some d" for fd d
    using moved_epoll_set [OF assms(2) that] ownedD(2) [OF assms(1), of fd d] assms(3) [of d] assms(4) [of fd d] assms(5)
    by auto
qed

lemma owned_sys: "owned e sock R m \<Longrightarrow> moved e {} (m_trace m) tr \<Longrightarrow> owned e sock R (m\<lparr>m_trace := tr\<rparr>)"
  by (rule owned_moved [where K = "{}"]) (auto simp: fdmap_simps)

lemma handler_owned:
  assumes R: "paired R m" and a: "a \<in> R" and o: "owned e sock R m"
  shows "post (\<lambda>_. True) (sm3t__tcp_ctx_handler A env (Some a) e m) (\<lambda>(_, m'). owned e sock R m')"
proof -
  let ?K = "{(fd, d). d \<in> R \<and> fdmap m d = Some fd}"
  obtain ca where ca: "m_heap m a = Some ca" using pairedD(1) [OF R a] by (auto simp: pmap_def)
  have "(c_fd cb, b) \<in> ?K" if "c_peer ca = Some b" "m_heap m b = Some cb" for b cb
    using pairedD(2) [OF R a, of b] ca that by (auto simp: pmap_def fdmap_def)
  then have "post (\<lambda>_. True) (sm3t__tcp_ctx_handler A env (Some a) e m) (\<lambda>(_, m'). ext (relay_call e ?K) (m_trace m) (m_trace m'))"
    using a ca by (intro tcp_ctx_handler_calls [OF ca]) (auto simp: fdmap_def)
  from post_conj [OF this tcp_ctx_handler_fds [of A env a e m]] show ?thesis
    by (rule post_weaken) (auto dest!: relay_moved intro: owned_moved [OF o, where K = ?K])
qed

section \<open>Accepting a client\<close>

text \<open>What of a context the relay works on.\<close>

definition core :: "sm3t_context_t \<Rightarrow> int \<times> bool \<times> int \<times> int \<times> byte list" where
  "core c = (c_fd c, c_wpartial c, c_wstart c, c_wlen c, c_buffer c)"

definition vmap :: "'l mach \<Rightarrow> addr \<Rightarrow> (int \<times> bool \<times> int \<times> int \<times> byte list) option" where
  "vmap m x = map_option core (m_heap m x)"

lemma fdmap_vmap: "fdmap m x = map_option fst (vmap m x)"
  by (simp add: fdmap_def vmap_def core_def option.map_comp comp_def)

lemma vmap_fdmap: "vmap m' x = vmap m x \<Longrightarrow> fdmap m' x = fdmap m x"
  by (simp add: fdmap_vmap)

lemma vmap_updates [simp]:
  "vmap (m\<lparr>m_trace := tr\<rparr>) = vmap m" "vmap (m\<lparr>m_lua := L\<rparr>) = vmap m"
  "(\<And>c. core (f c) = core c) \<Longrightarrow> vmap (upd_ctx a f m) = vmap m"
  by (simp_all add: vmap_def fun_eq_iff mach_simps option.map_comp comp_def)

lemma vmap_set_fd: "vmap (upd_ctx a (\<lambda>c. c\<lparr>c_fd := fd\<rparr>) m) a = map_option (\<lambda>v. (fd, snd v)) (vmap m a)"
  by (simp add: vmap_def core_def mach_simps option.map_comp comp_def)

text \<open>Nothing is registered, none of \<open>F\<close> is closed and the contexts \<open>S\<close> are untouched.\<close>

definition calm :: "int \<Rightarrow> int set \<Rightarrow> addr set \<Rightarrow> 'l mach \<Rightarrow> 'l mach \<Rightarrow> bool" where
  "calm e F S m m' \<longleftrightarrow> (\<forall>x\<in>S. vmap m' x = vmap m x) \<and> ext (quiet_call e F) (m_trace m) (m_trace m')"

declare quiet_call_def [simp]

lemma calm_refl [simp]: "calm e F S m m"
  by (simp add: calm_def)

lemma calm_updates [simp]:
  "calm e F S m (m'\<lparr>m_lua := L\<rparr>) = calm e F S m m'"
  "(\<And>c. core (f c) = core c) \<Longrightarrow> calm e F S m (upd_ctx a f m') = calm e F S m m'"
  "a \<notin> S \<Longrightarrow> calm e F S m (upd_ctx a f m') = calm e F S m m'"
  "a \<notin> S \<Longrightarrow> calm e F S m (m'\<lparr>m_heap := (m_heap m')(a := c)\<rparr>) = calm e F S m m'"
  by (simp_all add: calm_def tr_simps, simp_all add: vmap_def mach_simps cong: ball_cong)
    (metis)+

lemma calm_sys [intro]:
  "calm e F S m m' \<Longrightarrow> ext (quiet_call e F) (m_trace m') tr \<Longrightarrow> calm e F S m (m'\<lparr>m_trace := tr\<rparr>)"
  by (auto simp: calm_def simp del: quiet_call_def intro: ext_trans)

lemma calm_less: "calm e F S m m' \<Longrightarrow> F' \<subseteq> F \<Longrightarrow> S' \<subseteq> S \<Longrightarrow> calm e F' S' m m'"
  unfolding calm_def using quiet_less [of e F "m_trace m" "m_trace m'" F'] by blast

lemma core_meta [simp]: "core (c\<lparr>c_meta := x\<rparr>) = core c" "core (c\<lparr>c_events := y\<rparr>) = core c" "core (c\<lparr>c_peer := z\<rparr>) = core c"
  by (simp_all add: core_def)

lemma set_peer_meta_calm:
  "calm e F S m m1 \<Longrightarrow> post (\<lambda>_. True) (sm3t__set_peer_meta P a addr m1) (calm e F S m)"
  unfolding sm3t__set_peer_meta_def
  by (auto simp: Let_def split: option.splits intro!: post_cbind [OF post_any])

lemma set_peer_meta_vmap: "post (\<lambda>_. True) (sm3t__set_peer_meta P a addr m) (\<lambda>m'. vmap m' = vmap m)"
  unfolding sm3t__set_peer_meta_def
  by (auto simp: Let_def split: option.splits intro!: post_cbind [OF post_any])

lemma new_ctx_calm:
  assumes "alloc_fresh P" and "calm e F S m m1" and "\<And>x. x \<in> S \<Longrightarrow> pmap m1 x \<noteq> None"
  shows "post (\<lambda>_. True) (sm3t__new_ctx (p_ctx P m1) m1)
           (\<lambda>(a, m2). a \<notin> S \<and> calm e F S m m2 \<and> (\<exists>j. p_ctx P m1 = Some (a, j) \<and> vmap m2 a = Some (core j)))"
proof (cases "p_ctx P m1")
  case (Some r)
  obtain a c where r: "r = (a, c)" by (cases r)
  have "a \<notin> S" using assms(1) assms(3) [of a] Some r by (auto simp: alloc_fresh_def pmap_def)
  then show ?thesis using assms(2) Some r by (simp add: sm3t__new_ctx_def vmap_def)
qed (simp add: sm3t__new_ctx_def)

text \<open>A context whose release closes none of \<open>F\<close>.\<close>

definition loose :: "int set \<Rightarrow> addr \<Rightarrow> 'l mach \<Rightarrow> bool" where
  "loose F a m \<longleftrightarrow> (\<forall>fd. fdmap m a = Some fd \<longrightarrow> 0 < fd \<longrightarrow> fd \<notin> F)"

lemma cleanup_ctx_calm:
  assumes "calm e F S m m1" and "a \<notin> S" and "loose F a m1"
  shows "post (\<lambda>_. True) (sm3t__cleanup_ctx A env m1 (Some a)) (calm e F S m)"
proof (cases "m_heap m1 a")
  case None
  then show ?thesis by (simp add: sm3t__cleanup_ctx_def ctx_at_def)
next
  case (Some c)
  then have "0 < c_fd c \<Longrightarrow> c_fd c \<notin> F" using assms(3) by (simp add: loose_def fdmap_def)
  then show ?thesis
    using assms(1,2) Some
    by (auto simp: sm3t__cleanup_ctx_def ctx_at_def Let_def msys_pair split: option.splits intro!: calm_sys)
qed

lemma pick_upstream_calm:
  "calm e F S m m1 \<Longrightarrow> post (\<lambda>_. True) (pick_upstream P mode fd q m1) (\<lambda>(u, _, m2). calm e F S m m2 \<and>
     vmap m2 = vmap m1 \<and> (u \<noteq> None \<longrightarrow> mode \<in> {SM3T__MODE_TRANSPARENT, SM3T__MODE_FORWARD}))"
  by (auto simp: pick_upstream_def msys_pair Let_def intro!: post_cbind [OF post_any] calm_sys)

text \<open>From now on the kernel returns none of \<open>F\<close> as a new descriptor, and fresh memory holds none.\<close>

definition no_clash :: "'l plat \<Rightarrow> int set \<Rightarrow> trace \<Rightarrow> bool" where
  "no_clash P F tr \<longleftrightarrow> (\<forall>m a j. p_ctx P m = Some (a, j) \<longrightarrow> 0 < c_fd j \<longrightarrow> c_fd j \<notin> F) \<and>
     (\<forall>tr' c. ext (idle_call F) tr tr' \<longrightarrow> (\<exists>x. c = Sys_Accept x \<or> c = Sys_Socket x) \<longrightarrow>
        sr_ret (p_env P tr' c) = SM3T__ERR \<or> sr_ret (p_env P tr' c) \<notin> F)"

lemma no_clash_empty: "no_clash P {} tr"
  by (simp add: no_clash_def)

lemma no_clash_later: "no_clash P F tr \<Longrightarrow> ext (idle_call F) tr tr1 \<Longrightarrow> no_clash P F tr1"
  using ext_trans [of "idle_call F" tr tr1] unfolding no_clash_def by blast

lemma no_clash_fd:
  assumes "no_clash P F tr" and "ext (idle_call F) tr tr'" and "c = Sys_Accept x \<or> c = Sys_Socket x"
    and "sr_ret (p_env P tr' c) \<noteq> SM3T__ERR"
  shows "sr_ret (p_env P tr' c) \<notin> F"
  using assms unfolding no_clash_def by blast

lemma calm_no_clash: "no_clash P F (m_trace m) \<Longrightarrow> calm e F S m m1 \<Longrightarrow> no_clash P F (m_trace m1)"
  using quiet_idle no_clash_later unfolding calm_def by blast

lemma connect_upstream_calm:
  assumes "sm3t__connect_upstream (p_env P) addr m1 = (fd, m2)" and "calm e F S m m1" and "no_clash P F (m_trace m)"
  shows "calm e F S m m2" and "vmap m2 = vmap m1" and "fd_ok (p_env P) \<Longrightarrow> fd \<noteq> SM3T__ERR \<Longrightarrow> 0 < fd"
    and "fd \<noteq> SM3T__ERR \<Longrightarrow> fd \<notin> F"
    and "fd \<noteq> SM3T__ERR \<Longrightarrow> open_fds (m_trace m2) = insert fd (open_fds (m_trace m1))"
    and "fd \<noteq> SM3T__ERR \<Longrightarrow> fd_fresh (p_env P) \<Longrightarrow> fd \<notin> open_fds (m_trace m1)"
proof -
  let ?c = "Sys_Socket (sa_family addr)"
  have F: "sr_ret (p_env P (m_trace m1) ?c) \<notin> F" if "sr_ret (p_env P (m_trace m1) ?c) \<noteq> SM3T__ERR"
    using no_clash_fd [OF calm_no_clash [OF assms(3,2)] ext_refl _ that] by auto
  note defs = sm3t__connect_upstream_def msys_pair Let_def
  show "calm e F S m m2" using assms(1,2) F by (auto simp: defs split: if_splits intro!: calm_sys)
  show "vmap m2 = vmap m1" using assms(1) by (auto simp: defs split: if_splits)
  have fd: "fd = sr_ret (p_env P (m_trace m1) ?c) \<and> open_fds (m_trace m2) = insert fd (open_fds (m_trace m1))" if "fd \<noteq> SM3T__ERR"
    using assms(1) that by (auto simp: defs split: if_splits)
  show "0 < fd" if "fd_ok (p_env P)" "fd \<noteq> SM3T__ERR"
    using fd_okD(1) [OF that(1), of ?c] fd that(2) by auto
  show "fd \<notin> F" if "fd \<noteq> SM3T__ERR" using F fd that by auto
  show "open_fds (m_trace m2) = insert fd (open_fds (m_trace m1))" if "fd \<noteq> SM3T__ERR" using fd that by auto
  show "fd \<notin> open_fds (m_trace m1)" if "fd \<noteq> SM3T__ERR" "fd_fresh (p_env P)"
    using fd_freshD [OF that(2), of ?c] fd that(1) by auto
qed

lemma set_nonblocking_idle:
  assumes "ext p tr tr1" and "\<And>x y r. p (Sys_Fcntl_Getfl x, r) \<and> p (Sys_Fcntl_Setfl x y, r)"
  shows "ext p tr (snd (sm3t__set_nonblocking env fd tr1))"
proof -
  have "ext p tr1 (snd (sm3t__set_nonblocking env fd tr1))"
    using assms(2) by (simp add: sm3t__set_nonblocking_def sys_def Let_def)
  with assms(1) show ?thesis by (rule ext_trans)
qed

lemma append_poll_idle:
  assumes "ext p tr tr1" and "\<And>r. p (Sys_Epoll_Ctl EPOLL_CTL_ADD e fd (Some ev), r)"
  shows "ext p tr (snd (sm3t__append_poll env e fd ev tr1))"
  using assms by (simp add: sm3t__append_poll_def sys_def Let_def ext_more)

lemma link_moved:
  assumes "(fa, a) \<in> K" and "(fb, b) \<in> K"
  shows "moved e K (m_trace m) (m_trace (link_ctxs env e a fa b fb m))"
  using assms by (simp add: link_ctxs_def Let_def tr_simps append_poll_idle set_nonblocking_idle)

lemma link_idle: "ext (idle_call F) (m_trace m) (m_trace (link_ctxs env e a fa b fb m))"
  by (simp add: link_ctxs_def Let_def tr_simps append_poll_idle set_nonblocking_idle)

lemma link_vmap: "vmap (link_ctxs env e a fa b fb m) = vmap m"
  by (simp add: link_ctxs_def Let_def)

lemma link_last:
  "\<exists>tr ev r. m_trace (link_ctxs env e a fa b fb m) = tr @ [(Sys_Epoll_Ctl EPOLL_CTL_ADD e fa (Some ev), r)] \<and> ev_data ev = a"
  by (simp add: link_ctxs_def Let_def sm3t__append_poll_def sys_def)

lemma link_open: "open_fds (m_trace (link_ctxs env e a fa b fb m)) = open_fds (m_trace m)"
proof -
  have "open_fds (snd (sm3t__set_nonblocking env fd tr)) = open_fds tr" for fd tr
    by (auto simp: sm3t__set_nonblocking_def sys_def Let_def)
  then show ?thesis by (simp add: link_ctxs_def Let_def sm3t__append_poll_def sys_def tr_simps)
qed

text \<open>
  A new pair: two contexts as fresh memory had them but for the descriptor, which is open and not one
  of \<open>F\<close>; the last call registered the client.
\<close>

definition has_core :: "'l plat \<Rightarrow> addr \<Rightarrow> int \<Rightarrow> 'l mach \<Rightarrow> bool" where
  "has_core P a fd m \<longleftrightarrow> (\<exists>m0 j. p_ctx P m0 = Some (a, j) \<and> vmap m a = Some (fd, snd (core j)))"

lemma has_coreI: "p_ctx P m0 = Some (a, j) \<Longrightarrow> vmap m a = Some (fd, snd (core j)) \<Longrightarrow> has_core P a fd m"
  by (auto simp: has_core_def)

lemma has_core_fd: "has_core P a fd m \<Longrightarrow> fdmap m a = Some fd"
  by (auto simp: has_core_def fdmap_vmap core_def)

lemma has_core_cong: "vmap m' a = vmap m a \<Longrightarrow> has_core P a fd m' = has_core P a fd m"
  by (simp add: has_core_def)

definition joined :: "'l plat \<Rightarrow> int set \<Rightarrow> int \<Rightarrow> addr \<Rightarrow> addr \<Rightarrow> 'l mach \<Rightarrow> bool" where
  "joined P F e a b m \<longleftrightarrow> a \<noteq> b \<and> pmap m a = Some (Some b) \<and> pmap m b = Some (Some a) \<and>
     (\<exists>fa fb. has_core P a fa m \<and> has_core P b fb m \<and> fa \<notin> F \<and> fb \<notin> F
        \<and> (fd_fresh (p_env P) \<longrightarrow> fa \<noteq> fb \<and> fa \<in> open_fds (m_trace m) \<and> fb \<in> open_fds (m_trace m))
        \<and> (\<exists>tr ev r. m_trace m = tr @ [(Sys_Epoll_Ctl EPOLL_CTL_ADD e fa (Some ev), r)] \<and> ev_data ev = a))"

text \<open>After an acceptance the contexts in use are the old ones, untouched, and maybe a new pair.\<close>

definition tcp_mode :: "int \<Rightarrow> bool" where
  "tcp_mode mode \<longleftrightarrow> mode \<in> {SM3T__MODE_TRANSPARENT, SM3T__MODE_FORWARD}"

definition grown :: "'l plat \<Rightarrow> int set \<Rightarrow> int \<Rightarrow> int \<Rightarrow> int \<Rightarrow> addr set \<Rightarrow> 'l mach \<Rightarrow> 'l mach \<Rightarrow> bool" where
  "grown P F e sock mode R m m' \<longleftrightarrow> kept R m m' \<and> (\<forall>x\<in>R. vmap m' x = vmap m x)
     \<and> ext (idle_call F) (m_trace m) (m_trace m') \<and>
     ((paired R m' \<and> owned e sock R m') \<or>
      (tcp_mode mode \<and> (\<exists>a b. a \<notin> R \<and> b \<notin> R \<and> joined P F e a b m'
          \<and> paired (R \<union> {a, b}) m' \<and> owned e sock (R \<union> {a, b}) m')))"

lemma calm_owned:
  assumes "owned e sock R m" and "calm e F R m m'"
  shows "owned e sock R m'"
proof (rule owned_moved [OF assms(1), where K = "{}"])
  have "ext (quiet_call e F) (m_trace m) (m_trace m')" using assms(2) by (simp add: calm_def del: quiet_call_def)
  then show "moved e {} (m_trace m) (m_trace m')" by (rule quiet_moved)
  show "fdmap m' a = fdmap m a" if "a \<in> R" for a using assms(2) that by (auto simp: calm_def intro: vmap_fdmap)
qed auto

lemma quiet_grown:
  assumes "paired R m" and "owned e sock R m" and "held R m N m'" and "calm e F R m m'"
  shows "grown P F e sock mode R m m'"
  using assms kept_paired [of R m m'] calm_owned [of e sock R m F m'] quiet_idle [of e F "m_trace m" "m_trace m'"]
  by (auto simp: grown_def held_def calm_def simp del: quiet_call_def)

lemma paired_add:
  assumes R: "paired R m" and "a \<noteq> b" and "pmap m a = Some (Some b)" and "pmap m b = Some (Some a)"
  shows "paired (R \<union> {a, b}) m"
proof (rule pairedI)
  fix x assume x: "x \<in> R \<union> {a, b}"
  show "pmap m x \<noteq> None" using x assms(3,4) pairedD(1) [OF R, of x] by (cases "x \<in> R") auto
  show "x \<noteq> y \<and> y \<in> R \<union> {a, b} \<and> pmap m y = Some (Some x)" if "pmap m x = Some (Some y)" for y
    using x that assms(2-4) pairedD(2) [OF R, of x y] by (cases "x \<in> R") auto
qed

lemma link_grown:
  assumes R: "paired R m" and o: "owned e sock R m" and h: "held R m {b, a} m1" and c: "calm e F R m m1" and ab: "a \<noteq> b"
    and fa: "has_core P a fa m1" "0 < fa" "fa \<notin> F" and fb: "has_core P b fb m1" "0 < fb" "fb \<notin> F" and mode: "tcp_mode mode"
    and fresh: "fd_fresh (p_env P) \<Longrightarrow> fa \<noteq> fb \<and> fa \<in> open_fds (m_trace m1) \<and> fb \<in> open_fds (m_trace m1)"
  shows "grown P F e sock mode R m (link_ctxs env e a fa b fb m1)"
proof -
  let ?m = "link_ctxs env e a fa b fb m1"
  have N: "a \<notin> R" "b \<notin> R" "pmap m1 a \<noteq> None" "pmap m1 b \<noteq> None" using h by (auto simp: held_def)
  have l: "pmap ?m = (pmap m1)(a := Some (Some b), b := Some (Some a))" using pmap_link [OF N(3,4) ab] .
  have k: "kept R m ?m" using h N l by (auto simp: held_def kept_def)
  have v: "\<forall>x\<in>R. vmap ?m x = vmap m x" using c by (simp add: calm_def link_vmap)
  have P: "paired (R \<union> {a, b}) ?m" using kept_paired [OF R k] ab l by (intro paired_add) auto
  have fds: "fdmap ?m a = Some fa" "fdmap ?m b = Some fb" 
    using has_core_fd [OF fa(1)] has_core_fd [OF fb(1)] by (simp_all add: fdmap_vmap link_vmap)
  have q: "ext (quiet_call e F) (m_trace m) (m_trace m1)" using c by (simp add: calm_def del: quiet_call_def)
  have "moved e {(fa, a), (fb, b)} (m_trace m) (m_trace ?m)"
    by (rule ext_trans [OF quiet_moved [OF q] link_moved]) simp_all
  then have "owned e sock (R \<union> {a, b}) ?m"
    by (rule owned_moved [OF o]) (use v fds fa fb in \<open>auto intro: vmap_fdmap\<close>)
  moreover have "joined P F e a b ?m"
  proof -
    have "has_core P a fa ?m" "has_core P b fb ?m" using fa(1) fb(1) by (simp_all add: has_core_def link_vmap)
    moreover have "pmap ?m a = Some (Some b)" "pmap ?m b = Some (Some a)" using ab l by simp_all
    ultimately show ?thesis
      unfolding joined_def link_open using ab fa(3) fb(3) fresh link_last [of env e a fa b fb m1] by blast
  qed
  moreover have "ext (idle_call F) (m_trace m) (m_trace ?m)" by (rule ext_trans [OF quiet_idle [OF q] link_idle])
  ultimately show ?thesis using k v P N mode unfolding grown_def by blast
qed

text \<open>Between the two: \<open>N\<close> is allocated, nothing of it registered.\<close>

definition still :: "int \<Rightarrow> int set \<Rightarrow> addr set \<Rightarrow> addr set \<Rightarrow> 'l mach \<Rightarrow> addr set \<Rightarrow> 'l mach \<Rightarrow> bool" where
  "still e F R S m N m1 \<longleftrightarrow> held R m N m1 \<and> calm e F (R \<union> S) m m1"

lemma still_updates [simp]:
  "still e F R S m N (m'\<lparr>m_lua := L\<rparr>) = still e F R S m N m'"
  "(\<And>c. c_peer (f c) = c_peer c) \<Longrightarrow> a \<notin> R \<union> S \<Longrightarrow> still e F R S m N (upd_ctx a f m') = still e F R S m N m'"
  by (simp_all add: still_def pmap_simps)

lemma still_sys:
  "still e F R S m N m' \<Longrightarrow> ext (quiet_call e F) (m_trace m') tr \<Longrightarrow> still e F R S m N (m'\<lparr>m_trace := tr\<rparr>)"
  by (auto simp: still_def pmap_simps simp del: quiet_call_def)

lemma stillD:
  "still e F R S m N m1 \<Longrightarrow> held R m N m1" "still e F R S m N m1 \<Longrightarrow> calm e F (R \<union> S) m m1"
  by (simp_all add: still_def)

lemma still_less: "still e F R S m N m1 \<Longrightarrow> F' \<subseteq> F \<Longrightarrow> S' \<subseteq> S \<Longrightarrow> still e F' R S' m N m1"
  unfolding still_def using calm_less [of e F "R \<union> S" m m1 F' "R \<union> S'"] by blast

lemma still_core: "still e F R S m N m1 \<Longrightarrow> a \<in> S \<Longrightarrow> has_core P a fd m1 = has_core P a fd m"
  by (rule has_core_cong) (simp add: still_def calm_def)

lemma post_still:
  "post not_uaf r (held R m N) \<Longrightarrow> post (\<lambda>_. True) r (calm e F (R \<union> S) m) \<Longrightarrow> post not_uaf r (still e F R S m N)"
  by (cases r) (auto simp: still_def)

lemma new_ctx_still:
  assumes "alloc_fresh P" and "paired R m" and "S \<subseteq> N" and "still e F R S m N m1"
  shows "post not_uaf (sm3t__new_ctx (p_ctx P m1) m1) (\<lambda>(a, m2). still e F R S m (insert a N) m2 \<and> a \<notin> R \<union> N
           \<and> (\<exists>j. p_ctx P m1 = Some (a, j) \<and> vmap m2 a = Some (core j)))"
proof -
  have "pmap m1 x \<noteq> None" if "x \<in> R \<union> S" for x
    using that assms(3) stillD(1) [OF assms(4)] pairedD(1) [OF assms(2), of x]
    by (cases "x \<in> R") (auto simp: held_def kept_def)
  note c = new_ctx_calm [OF assms(1) stillD(2) [OF assms(4)] this]
  note h = new_ctx_held [OF assms(1,2) stillD(1) [OF assms(4)]]
  show ?thesis by (rule post_weaken [OF post_conj [OF h c]]) (auto simp: still_def)
qed

lemma set_peer_meta_still:
  assumes "still e F R S m N m1" and "a \<in> N"
  shows "post not_uaf (sm3t__set_peer_meta P a addr m1) (\<lambda>m2. still e F R S m N m2 \<and> vmap m2 = vmap m1)"
  by (rule post_conj [OF post_still [OF set_peer_meta_held [OF stillD(1) [OF assms(1)] assms(2)]
        set_peer_meta_calm [OF stillD(2) [OF assms(1)]]] set_peer_meta_vmap])

lemma cleanup_ctx_still:
  assumes "still e F R S m (insert a N) m1" and "a \<notin> N \<union> S" and "loose F a m1"
  shows "post not_uaf (sm3t__cleanup_ctx A env m1 (Some a)) (still e F R S m N)"
proof -
  have "a \<notin> R \<union> S" using assms by (auto simp: still_def held_def)
  then show ?thesis
    using assms(2,3) stillD [OF assms(1)] by (intro post_still cleanup_ctx_held cleanup_ctx_calm) auto
qed

lemma cleanup_ctx_others:
  "post (\<lambda>_. True) (sm3t__cleanup_ctx A env m (Some a)) (\<lambda>m'. \<forall>x. x \<noteq> a \<longrightarrow> vmap m' x = vmap m x)"
  by (auto simp: sm3t__cleanup_ctx_def Let_def msys_pair vmap_def split: option.splits intro!: post_cbind [OF post_any])

lemma drop_both_still:
  assumes "still e F R {} m {b, a} m1" and "a \<noteq> b" and "loose F a m1" and "loose F b m1"
  shows "post not_uaf (drop_both P a b m1) (still e F R {} m {})"
proof -
  have "still e F R {} m (insert a {b}) m1" using assms by (simp add: insert_commute)
  note first = post_conj [OF cleanup_ctx_still [OF this _ assms(3)] cleanup_ctx_others]
  have "loose F b m2" if "\<forall>x. x \<noteq> a \<longrightarrow> vmap m2 x = vmap m1 x" for m2
    using assms(2,4) that by (auto simp: loose_def fdmap_vmap)
  then show ?thesis
    unfolding drop_both_def using assms(2) by (intro post_cbind [OF first] cleanup_ctx_still) auto
qed

lemma pick_upstream_still:
  assumes "still e F R S m N m1"
  shows "post not_uaf (pick_upstream P mode fd q m1)
           (\<lambda>(u, _, m2). still e F R S m N m2 \<and> vmap m2 = vmap m1 \<and> (u \<noteq> None \<longrightarrow> tcp_mode mode))"
  using post_conj [OF pick_upstream_held [OF stillD(1) [OF assms]] pick_upstream_calm [OF stillD(2) [OF assms]]]
  by (rule post_weaken) (auto simp: still_def tcp_mode_def)

lemma still_no_clash: "no_clash P F (m_trace m) \<Longrightarrow> still e F R S m N m1 \<Longrightarrow> no_clash P F (m_trace m1)"
  by (rule calm_no_clash [OF _ stillD(2)])

lemma loose_core: "has_core P a fd m \<Longrightarrow> fd \<notin> F \<Longrightarrow> loose F a m"
  using has_core_fd [of P a fd m] by (simp add: loose_def)

lemma loose_junk: "no_clash P F tr \<Longrightarrow> p_ctx P m0 = Some (a, j) \<Longrightarrow> vmap m a = Some (core j) \<Longrightarrow> loose F a m"
  by (auto simp: loose_def fdmap_vmap core_def no_clash_def)


text \<open>Giving up: nothing is added.\<close>

lemma still_grown:
  assumes "paired R m" and "owned e sock R m" and "still e F R S m N m1"
  shows "grown P F e sock mode R m m1"
  using quiet_grown [OF assms(1,2) stillD(1) [OF assms(3)]] calm_less [OF stillD(2) [OF assms(3)]] by blast

text \<open>The descriptor a new context got, open and not one of \<open>F\<close>.\<close>

definition new_fd :: "'l plat \<Rightarrow> int set \<Rightarrow> int \<Rightarrow> 'l mach \<Rightarrow> bool" where
  "new_fd P F fd m \<longleftrightarrow> 0 < fd \<and> fd \<notin> F \<and> (fd_fresh (p_env P) \<longrightarrow> fd \<in> open_fds (m_trace m))"

lemma still_new_fd:
  assumes "still e UNIV R S m N m1" and "new_fd P F fd m"
  shows "new_fd P F fd m1"
  using idle_open [OF quiet_idle [OF quiet_less], of e UNIV "m_trace m" "m_trace m1" "{fd}"] stillD(2) [OF assms(1)] assms(2)
  by (auto simp: calm_def new_fd_def simp del: quiet_call_def)

lemma connected_grown:
  assumes P: "fd_ok (p_env P)" "no_clash P F (m_trace m)" and R: "paired R m" and o: "owned e sock R m"
    and a: "has_core P a fa m" "new_fd P F fa m"
    and s: "still e UNIV R {a} m {b, a} m1" and b: "b \<notin> R \<union> {a}" "p_ctx P m0 = Some (b, j)" "vmap m1 b = Some (core j)"
    and u: "sm3t__connect_upstream (p_env P) addr m1 = (fb, m2)" "fb \<noteq> SM3T__ERR" "tcp_mode mode"
  shows "grown P F e sock mode R m (link_ctxs (p_env P) e a fa b fb (upd_ctx b (\<lambda>c. c\<lparr>c_fd := fb\<rparr>) m2))"
proof -
  let ?m = "upd_ctx b (\<lambda>c. c\<lparr>c_fd := fb\<rparr>) m2"
  have s1: "still e F R {a} m {b, a} m1" using still_less [OF s] by simp
  note up = connect_upstream_calm [OF u(1) stillD(2) [OF s1] P(2)]
  have "still e F R {a} m {b, a} m2" using connect_upstream_held [OF u(1) stillD(1) [OF s1]] up(1) by (simp add: still_def)
  then have m3: "still e F R {a} m {b, a} ?m" using b by simp
  have "vmap ?m b = Some (fb, snd (core j))" using up(2) b(3) by (simp add: vmap_set_fd)
  then have fb: "has_core P b fb ?m" by (rule has_coreI [OF b(2)])
  have fa: "has_core P a fa ?m" using still_core [OF m3, of a] a(1) by simp
  have "new_fd P F fa m1" by (rule still_new_fd [OF s a(2)])
  then have fresh: "fa \<noteq> fb \<and> fa \<in> open_fds (m_trace ?m) \<and> fb \<in> open_fds (m_trace ?m)" if "fd_fresh (p_env P)"
    using up(5,6) u(2) that by (auto simp: tr_simps new_fd_def)
  show ?thesis
    using a(2) up(3,4) u(2) P(1) b(1)
    by (intro link_grown [OF R o stillD(1) [OF m3] stillD(2) [OF still_less [OF m3 order_refl, of "{}"], simplified] _ fa _ _ fb _ _ u(3) fresh])
      (auto simp: new_fd_def)
qed

lemma connect_client_grown:
  assumes P: "alloc_fresh P" "fd_ok (p_env P)" "no_clash P F (m_trace m)" and R: "paired R m" and o: "owned e sock R m"
    and a: "held R m {a} m" "has_core P a fa m" "new_fd P F fa m"
  shows "post not_uaf (connect_client P e mode a fa q m) (\<lambda>(_, m'). grown P F e sock mode R m m')"
proof -
  have drop: "post not_uaf (cbind (drop_both P a b m2) (\<lambda>m. Inr (q', m))) (\<lambda>(_, m'). grown P F e sock mode R m m')"
    if s: "still e F R {a} m {b, a} m2" "b \<notin> R \<union> {a}" "loose F b m2" for b m2 q'
  proof -
    have "loose F a m2" using still_core [OF s(1), of a] a(2,3) loose_core [of P a fa m2 F] by (auto simp: new_fd_def)
    then show ?thesis
      using still_less [OF s(1) order_refl, of "{}"] s(2,3)
      by (intro post_cbind [OF drop_both_still]) (auto intro: still_grown [OF R o])
  qed
  have link: "post not_uaf (let (ufd, m) = sm3t__connect_upstream (p_env P) addr m1;
                 m = upd_ctx b (\<lambda>c. c\<lparr>c_fd := ufd\<rparr>) m in
             if ufd = SM3T__ERR then cbind (drop_both P a b m) (\<lambda>m. Inr (q', m))
             else Inr (q', link_ctxs (p_env P) e a fa b ufd m)) (\<lambda>(_, m'). grown P F e sock mode R m m')"
    if s: "still e UNIV R {a} m {b, a} m1" and b: "b \<notin> R \<union> {a}" "p_ctx P m0 = Some (b, j)" "vmap m1 b = Some (core j)"
      and mode: "tcp_mode mode" for b m0 m1 j addr q'
  proof -
    obtain fb m2 where u: "sm3t__connect_upstream (p_env P) addr m1 = (fb, m2)" by fastforce
    have s1: "still e F R {a} m {b, a} m1" using still_less [OF s] by simp
    have "still e F R {a} m {b, a} m2"
      using connect_upstream_held [OF u stillD(1) [OF s1]] connect_upstream_calm(1) [OF u stillD(2) [OF s1] P(3)] by (simp add: still_def)
    then have m3: "still e F R {a} m {b, a} (upd_ctx b (\<lambda>c. c\<lparr>c_fd := fb\<rparr>) m2)" using b by simp
    moreover have "loose F b (upd_ctx b (\<lambda>c. c\<lparr>c_fd := SM3T__ERR\<rparr>) m2)"
      by (auto simp: loose_def fdmap_vmap vmap_set_fd SM3T__ERR_def)
    ultimately show ?thesis
      using u connected_grown [OF P(2,3) R o a(2,3) s b u _ mode] b(1) drop [of b "upd_ctx b (\<lambda>c. c\<lparr>c_fd := fb\<rparr>) m2" q']
      by (auto simp: Let_def)
  qed
  have quit: "post not_uaf (cbind (drop_both P a b m1) (\<lambda>m. Inr (q', m))) (\<lambda>(_, m'). grown P F e sock mode R m m')"
    if "still e UNIV R {a} m {b, a} m1" "b \<notin> R \<union> {a}" "p_ctx P m0 = Some (b, j)" "vmap m1 b = Some (core j)" for b m0 m1 j q'
    using that still_less [OF that(1), of F "{a}"] by (intro drop) (auto intro: loose_junk [OF P(3)])
  have s0: "still e UNIV R {a} m {a} m" using a(1) by (simp add: still_def)
  show ?thesis
    unfolding connect_client_def
    by (rule post_cbind [OF new_ctx_still [OF P(1) R _ s0]], simp, clarsimp split: prod.splits)
      (rule post_cbind [OF pick_upstream_still], assumption,
        auto simp: quit split: option.splits intro!: post_cbind [OF set_peer_meta_still] link [simplified])
qed

text \<open>From the moment a client has its descriptor.\<close>

lemma grown_after:
  assumes "still e F R S m N m1" and "grown P F e sock mode R m1 m2"
  shows "grown P F e sock mode R m m2"
proof -
  have "ext (idle_call F) (m_trace m) (m_trace m1)" using stillD(2) [OF assms(1)] by (auto simp: calm_def intro: quiet_idle simp del: quiet_call_def)
  then have "ext (idle_call F) (m_trace m) (m_trace m2)" using assms(2) ext_trans unfolding grown_def by blast
  then show ?thesis using assms stillD [OF assms(1)] by (auto simp: grown_def held_def kept_def calm_def)
qed

lemma still_owned:
  assumes "paired R m" and "owned e sock R m" and "still e F R S m N m1"
  shows "paired R m1" and "owned e sock R m1"
proof -
  have "kept R m m1" "calm e F R m m1" using stillD [OF assms(3)] by (auto simp: held_def calm_def)
  then show "paired R m1" "owned e sock R m1" using kept_paired [OF assms(1)] calm_owned [OF assms(2)] by auto
qed

lemma still_here: "still e F R S m N m1 \<Longrightarrow> held R m1 N m1"
  by (simp add: still_def held_def)

lemma dropped_grown:
  assumes "paired R m" and "owned e sock R m" and "still e F R {} m {a} m1" and "loose F a m1"
  shows "post not_uaf (cbind (sm3t__cleanup_ctx A env m1 (Some a)) (\<lambda>m. Inr (q, m))) (\<lambda>(_, m'). grown P F e sock mode R m m')"
  using assms by (intro post_cbind [OF cleanup_ctx_still [OF assms(3)]]) (auto intro: still_grown)

lemma greeted_grown:
  assumes P: "alloc_fresh P" "fd_ok (p_env P)" "no_clash P F (m_trace m)" and R: "paired R m" and o: "owned e sock R m"
    and a: "held R m {a} m" "has_core P a fa m" "new_fd P F fa m"
  shows "post not_uaf (greet_client P e mode a fa addr q m) (\<lambda>(_, m'). grown P F e sock mode R m m')"
proof -
  have s: "still e UNIV R {a} m {a} m" using a(1) by (simp add: still_def)
  have drop: "post not_uaf (cbind (sm3t__cleanup_ctx (p_lua P) (p_env P) m1 (Some a)) (\<lambda>m. Inr (q, m)))
      (\<lambda>(_, m'). grown P F e sock mode R m m')" if s: "still e UNIV R {a} m {a} m1" for m1
    using a(2,3) still_core [OF s, of a] still_less [OF s, of F "{}"]
    by (intro dropped_grown [OF R o]) (auto simp: new_fd_def intro: loose_core)
  have go: "post not_uaf (connect_client P e mode a fa q m1) (\<lambda>(_, m'). grown P F e sock mode R m m')"
    if s: "still e UNIV R {a} m {a} m1" for m1
  proof -
    have sF: "still e F R {a} m {a} m1" using still_less [OF s] by simp
    have "has_core P a fa m1" using still_core [OF s, of a] a(2) by simp
    from connect_client_grown [OF P(1,2) still_no_clash [OF P(3) sF] still_owned [OF R o s] still_here [OF s] this still_new_fd [OF s a(3)]]
    show ?thesis by (rule post_weaken) (auto intro: grown_after [OF sF])
  qed
  show ?thesis
    unfolding greet_client_def
    by (rule post_cbind [OF set_peer_meta_still [OF s]]) (auto split: prod.splits option.splits intro!: drop go)
qed


lemma accept_client_grown:
  assumes P: "alloc_fresh P" "fd_ok (p_env P)" "no_clash P F (m_trace m)" and R: "paired R m" and o: "owned e sock R m"
  shows "post not_uaf (accept_client P e l mode q m) (\<lambda>(_, m'). grown P F e sock mode R m m')"
proof -
  have s0: "still e F R {} m {} m" by (simp add: still_def held_def)
  have body: "post not_uaf (let (r, m) = msys (p_env P) (Sys_Accept l) m1; cfd = sr_ret r;
           m = upd_ctx a (\<lambda>c. c\<lparr>c_fd := cfd\<rparr>) m in
       if cfd = SM3T__ERR then Inr (q, m)
       else let (r, m) = msys (p_env P) (Sys_Getpeername cfd) m in
         if sr_ret r = SM3T__ERR
         then cbind (sm3t__cleanup_ctx (p_lua P) (p_env P) m (Some a)) (\<lambda>m. Inr (q, m))
         else greet_client P e mode a cfd (sr_addr r) q m) (\<lambda>(_, m'). grown P F e sock mode R m m')"
    if s: "still e F R {} m {a} m1" and a: "a \<notin> R" "p_ctx P m0 = Some (a, j)" "vmap m1 a = Some (core j)" for a m0 m1 j
  proof -
    define r where "r = p_env P (m_trace m1) (Sys_Accept l)"
    define m2 where "m2 = upd_ctx a (\<lambda>c. c\<lparr>c_fd := sr_ret r\<rparr>) (m1\<lparr>m_trace := m_trace m1 @ [(Sys_Accept l, r)]\<rparr>)"
    let ?m3 = "\<lambda>x. m2\<lparr>m_trace := m_trace m2 @ [(Sys_Getpeername (sr_ret r), x)]\<rparr>"
    have s2: "still e F R {} m {a} m2" using s a by (auto simp: m2_def intro!: still_sys)
    have s3: "still e F R {} m {a} (?m3 x)" for x using s2 by (rule still_sys) simp
    have core: "has_core P a (sr_ret r) (?m3 x)" for x
      using a(3) by (intro has_coreI [OF a(2)]) (simp add: m2_def vmap_set_fd)
    have new: "new_fd P F (sr_ret r) (?m3 x)" if "sr_ret r \<noteq> SM3T__ERR" for x
      using that fd_okD(1) [OF P(2), of "Sys_Accept l"] no_clash_fd [OF still_no_clash [OF P(3) s] ext_refl, of "Sys_Accept l"]
      by (auto simp: new_fd_def r_def m2_def tr_simps)
    show ?thesis
      unfolding msys_pair Let_def prod.case r_def [symmetric] m2_def [symmetric]
      using still_grown [OF R o s2] new loose_core [OF core, of F]
      by (auto simp: new_fd_def intro!: dropped_grown [OF R o s3]
          post_weaken [OF greeted_grown [OF P(1,2) still_no_clash [OF P(3) s3] still_owned [OF R o s3] still_here [OF s3] core new]]
          grown_after [OF s3])
  qed
  show ?thesis
    unfolding accept_client_def
    by (rule post_cbind [OF new_ctx_still [OF P(1) R _ s0]]) (use body in auto)
qed

end
