(* ===== verification/Sm3t_Loop.thy ===== *)
theory Sm3t_Loop
  imports Sm3t_Accept
begin

unbundle bit_operations_syntax

text \<open>
  The loop's invariant and memory safety of the whole server: a batch of events, the release of what
  it collected, the loop around it, and the server from start to shut-down.
\<close>

section \<open>A batch of events\<close>

text \<open>
  The contexts in use are paired and own what is registered; those collected for release are single.
  Modes without a relay never have a context in use.
\<close>

definition loop_inv :: "int \<Rightarrow> int \<Rightarrow> int \<Rightarrow> addr set \<Rightarrow> 'l loop_state \<Rightarrow> bool" where
  "loop_inv e sock mode R s \<longleftrightarrow> paired R (ls_mach s) \<and> owned e sock R (ls_mach s) \<and> (R = {} \<or> tcp_mode mode)
     \<and> vec_inv (ls_dead s) \<and> distinct (vec_elems (ls_dead s)) \<and> set (vec_elems (ls_dead s)) \<subseteq> R
     \<and> (\<forall>a\<in>set (vec_elems (ls_dead s)). pmap (ls_mach s) a = Some None)"

lemma vec_append_cases:
  "post not_uaf (sm3t__vec_append b vec (Some x)) (\<lambda>r. sm3t__vec_append True vec (Some x) = Inr r)"
  by (auto simp: sm3t__vec_append_def vec_room_def cbind_def slot_put_def Let_def split: option.splits sum.splits)

lemma vec_append_safe:
  assumes "vec_inv vec" and "0 < vec_free vec"
  shows "post not_uaf (sm3t__vec_append b vec (Some x))
           (\<lambda>(_, vec'). vec_inv vec' \<and> vec_elems vec' = vec_elems vec @ [x])"
  using vec_append_cases [of b vec x] vec_append_ok [OF assms, of x]
  by (cases "sm3t__vec_append b vec (Some x)") (auto simp: is_vec_elems)

lemma loop_inv_keep:
  assumes "loop_inv e sock mode R s" and "served R a m (k, m')" and "owned e sock R m'" and "pmap m = pmap (ls_mach s)"
  shows "loop_inv e sock mode R (s\<lparr>ls_mach := m'\<rparr>)"
  using assms by (auto simp: loop_inv_def served_def)

lemma loop_inv_dead:
  assumes "loop_inv e sock mode R s" and "served R a m (False, m')" and "owned e sock R m'" and "pmap m = pmap (ls_mach s)"
    and "a \<in> R" and "a \<notin> set (vec_elems (ls_dead s))" and "moved e {} (m_trace m') tr"
    and "vec_inv dead" and "vec_elems dead = vec_elems (ls_dead s) @ [a]"
  shows "loop_inv e sock mode R (s\<lparr>ls_mach := m'\<lparr>m_trace := tr\<rparr>, ls_dead := dead\<rparr>)"
proof -
  have p: "pmap (m'\<lparr>m_trace := tr\<rparr>) = pmap m'" by (simp add: pmap_simps)
  then have "paired R (m'\<lparr>m_trace := tr\<rparr>)" using assms(2) paired_cong [OF p] by (simp add: served_def)
  moreover have "owned e sock R (m'\<lparr>m_trace := tr\<rparr>)"
    using owned_sys [OF assms(3,7)] .
  ultimately show ?thesis using assms p by (auto simp: loop_inv_def served_def)
qed

lemma remove_poll_moved: "moved e K tr (snd (sm3t__remove_poll env e fd tr))"
  by (simp add: sm3t__remove_poll_def sys_def Let_def)

text \<open>
  The contract between the loop and the entry of the handler table for a mode: called for a context
  in use, the handler reaches no freed context, leaves pairs pairs, has taken the context out of its
  pair when it gives up, and registers no descriptor with a foreign pointer.
\<close>

locale served_mode =
  fixes P :: "'l plat" and mode :: int and e :: int and sock :: int
  assumes handler: "\<lbrakk> paired R m; owned e sock R m; a \<in> R \<rbrakk> \<Longrightarrow>
    opost not_uaf (vtable P mode a e m) (\<lambda>(k, m'). served R a m (k, m') \<and> owned e sock R m')"
begin

lemma dispatch_safe:
  assumes inv: "loop_inv e sock mode R s" and a: "a \<in> R" "a \<notin> set (vec_elems (ls_dead s))" and room: "0 < vec_free (ls_dead s)"
  shows "opost not_uaf (dispatch_ctx P e mode a evs s) (\<lambda>s'. loop_inv e sock mode R s'
           \<and> set (vec_elems (ls_dead s')) \<subseteq> insert a (set (vec_elems (ls_dead s)))
           \<and> length (vec_elems (ls_dead s')) \<le> Suc (length (vec_elems (ls_dead s))))"
proof -
  let ?m = "upd_ctx a (\<lambda>c. c\<lparr>c_events := evs\<rparr>) (ls_mach s)"
  have R: "paired R (ls_mach s)" and o: "owned e sock R (ls_mach s)" and v: "vec_inv (ls_dead s)"
    using inv a by (auto simp: loop_inv_def)
  have p: "pmap ?m = pmap (ls_mach s)" by (simp add: pmap_simps)
  have R': "paired R ?m" using R paired_cong [OF p] by blast
  have o': "owned e sock R ?m" using o by (simp add: owned_def fdmap_simps tr_simps)
  obtain c where c: "m_heap (ls_mach s) a = Some c" using pairedD(1) [OF R a(1)] by (auto simp: pmap_def)
  have at: "opost not_uaf (Some (ctx_at m' a)) (\<lambda>_. True)" if "served R a ?m (k, m')" for k m'
    using that pairedD(1) [of R m' a] a(1) by (auto simp: served_def ctx_at_def pmap_def)
  have app: "opost not_uaf (Some (sm3t__vec_append (vec_alloc P (ls_dead s)) (ls_dead s) (Some a)))
      (\<lambda>(_, vec'). vec_inv vec' \<and> vec_elems vec' = vec_elems (ls_dead s) @ [a])"
    using vec_append_safe [OF v room] by simp
  show ?thesis
    unfolding dispatch_ctx_def
    using c
    by (auto simp: ctx_at_def [of "ls_mach s"] Let_def
        loop_inv_keep [OF inv _ _ p] loop_inv_dead [OF inv _ _ p a remove_poll_moved]
        intro!: opost_obind [OF handler [OF R' o' a(1)]] opost_obind [OF at] opost_obind [OF app])
qed

end

text \<open>The two TCP modes keep the contract; no other mode ever has a context in use.\<close>

lemma tcp_handler_contract:
  assumes "paired R m" and "owned e sock R m" and "a \<in> R"
  shows "post not_uaf (sm3t__tcp_ctx_handler A env (Some a) e m) (\<lambda>(k, m'). served R a m (k, m') \<and> owned e sock R m')"
  by (rule post_weaken [OF post_conj [OF tcp_ctx_handler_served [OF assms(1,3)] handler_owned [OF assms(1,3,2)]]]) auto

interpretation transparent: served_mode P SM3T__MODE_TRANSPARENT e sock for P :: "'l plat" and e sock
  by unfold_locales (simp add: vtable_def tcp_handler_contract)

interpretation forward: served_mode P SM3T__MODE_FORWARD e sock for P :: "'l plat" and e sock
  by unfold_locales (simp add: vtable_def tcp_handler_contract)

lemma dispatch_ctx_safe:
  assumes inv: "loop_inv e sock mode R s" and a: "a \<in> R" "a \<notin> set (vec_elems (ls_dead s))" and room: "0 < vec_free (ls_dead s)"
  shows "opost not_uaf (dispatch_ctx P e mode a evs s) (\<lambda>s'. loop_inv e sock mode R s'
           \<and> set (vec_elems (ls_dead s')) \<subseteq> insert a (set (vec_elems (ls_dead s)))
           \<and> length (vec_elems (ls_dead s')) \<le> Suc (length (vec_elems (ls_dead s))))"
proof -
  have "mode = SM3T__MODE_TRANSPARENT \<or> mode = SM3T__MODE_FORWARD"
    using inv a(1) by (auto simp: loop_inv_def tcp_mode_def)
  then show ?thesis
    using transparent.dispatch_safe [of e sock R s a P evs] forward.dispatch_safe [of e sock R s a P evs] inv a room by auto
qed

lemma grown_inv:
  assumes "loop_inv e sock mode R s" and "grown P F e sock mode R (ls_mach s) m"
    and R': "R \<subseteq> R'" "R' = R \<or> tcp_mode mode" "paired R' m" "owned e sock R' m"
  shows "loop_inv e sock mode R' (s\<lparr>ls_mach := m, ls_ups := q\<rparr>)"
proof -
  have "pmap m x = pmap (ls_mach s) x" if "x \<in> set (vec_elems (ls_dead s))" for x
    using assms that by (auto simp: grown_def kept_def loop_inv_def)
  then show ?thesis using assms(1) R' by (auto simp: loop_inv_def)
qed

lemma grown_set:
  assumes "grown P F e sock mode R m m'"
  obtains R' where "R \<subseteq> R'" "R' = R \<or> tcp_mode mode" "paired R' m'" "owned e sock R' m'"
  using assms unfolding grown_def by blast

lemma accept_loop_inv:
  assumes P: "alloc_fresh P" "fd_ok (p_env P)" and inv: "loop_inv e sock mode R s"
  shows "post not_uaf (accept_client P e l mode (ls_ups s) (ls_mach s)) (\<lambda>(q, m).
           \<exists>R'. R \<subseteq> R' \<and> loop_inv e sock mode R' (s\<lparr>ls_mach := m, ls_ups := q\<rparr>))"
proof -
  have R: "paired R (ls_mach s)" "owned e sock R (ls_mach s)" using inv by (simp_all add: loop_inv_def)
  have "\<exists>R'. R \<subseteq> R' \<and> loop_inv e sock mode R' (s\<lparr>ls_mach := m, ls_ups := q\<rparr>)"
    if "grown P {} e sock mode R (ls_mach s) m" for q m
    using grown_set [OF that] grown_inv [OF inv that] by metis
  then show ?thesis by (intro post_weaken [OF accept_client_grown [OF P no_clash_empty R]]) auto
qed

section \<open>Releasing the dead\<close>

lemma cleanup_owned:
  assumes "owned e sock R m" and "x \<in> R"
  shows "post (\<lambda>_. True) (sm3t__cleanup_ctx A env m (Some x)) (owned e sock (R - {x}))"
proof -
  obtain fd c where fd: "0 < fd" "fdmap m x = Some fd" and c: "m_heap m x = Some c" "c_fd c = fd"
    using ownedD(1) [OF assms] by (auto simp: fdmap_def)
  have "owned e sock (R - {x}) (m'\<lparr>m_trace := m_trace m @ [(Sys_Close fd, r)], m_heap := (m_heap m)(x := None)\<rparr>)"
    for m' :: "'a mach" and r
    using assms(1) fd(2) by (fastforce simp: owned_def fdmap_def split: if_splits)
  then show ?thesis
    using c fd(1) by (auto simp: sm3t__cleanup_ctx_def ctx_at_def Let_def msys_pair split: option.splits)
qed

lemma release_dead_post:
  assumes step: "\<And>R m x. \<lbrakk> I R m; paired R m; x \<in> R; pmap m x = Some None \<rbrakk> \<Longrightarrow>
      post (\<lambda>_. True) (sm3t__cleanup_ctx (p_lua P) (p_env P) m (Some x)) (I (R - {x}))"
    and "I R (ls_mach s)" and "loop_inv e sock mode R s"
  shows "post not_uaf (release_dead P s) (\<lambda>s'. \<exists>R'\<subseteq>R. I R' (ls_mach s') \<and> paired R' (ls_mach s')
           \<and> vec_inv (ls_dead s') \<and> vec_elems (ls_dead s') = [])"
proof -
  have v: "vec_inv (ls_dead s)" using assms(3) by (simp add: loop_inv_def)
  let ?run = "run_steps (\<lambda>s a. sm3t__cleanup_ctx (p_lua P) (p_env P) s (Some a)) (ls_mach s) (vec_elems (ls_dead s))"
  let ?R = "R - set (vec_elems (ls_dead s))"
  obtain vec' where c: "sm3t__cleanup_vec (sm3t__cleanup_ctx (p_lua P) (p_env P)) (ls_dead s) (ls_mach s) =
      cbind ?run (\<lambda>s'. Inr (s', vec'))" and v': "vec_inv vec'" "vec_elems vec' = []"
    using cleanup_vec_runs [OF v, of "sm3t__cleanup_ctx (p_lua P) (p_env P)" "ls_mach s"] by (elim exE conjE) (rule that)
  have "post not_uaf ?run (\<lambda>m. I ?R m \<and> paired ?R m)"
    using assms(3) by (intro cleanup_run_post [where I = I, OF step assms(2)]) (auto simp: loop_inv_def)
  then show ?thesis
    unfolding release_dead_def c using v' by (cases ?run) (auto intro: exI [of _ ?R])
qed

lemma release_dead_safe:
  assumes "loop_inv e sock mode R s"
  shows "post not_uaf (release_dead P s) (\<lambda>s'. (\<exists>R'. loop_inv e sock mode R' s') \<and> vec_elems (ls_dead s') = [])"
  by (rule post_weaken [OF release_dead_post [where I = "owned e sock", OF cleanup_owned _ assms]])
    (use assms in \<open>auto simp: loop_inv_def\<close>)

text \<open>
  A batch: the listening socket or contexts in use, no context twice, and none that is already
  collected for release.
\<close>

definition fresh_events :: "addr set \<Rightarrow> int \<Rightarrow> addr set \<Rightarrow> epoll_event list \<Rightarrow> bool" where
  "fresh_events R sock D evs \<longleftrightarrow>
     (\<forall>ev\<in>set evs. ev_fd ev \<noteq> sock \<longrightarrow> ev_data ev \<in> R - D)
     \<and> distinct (map ev_data (filter (\<lambda>ev. ev_fd ev \<noteq> sock) evs))"

lemma fresh_events_Cons:
  assumes "fresh_events R sock D (ev # evs)"
  shows "ev_fd ev = sock \<Longrightarrow> R \<subseteq> R' \<Longrightarrow> fresh_events R' sock D evs"
    and "ev_fd ev \<noteq> sock \<Longrightarrow> ev_data ev \<in> R - D"
    and "ev_fd ev \<noteq> sock \<Longrightarrow> D' \<subseteq> insert (ev_data ev) D \<Longrightarrow> fresh_events R sock D' evs"
proof -
  show "ev_fd ev = sock \<Longrightarrow> R \<subseteq> R' \<Longrightarrow> fresh_events R' sock D evs" "ev_fd ev \<noteq> sock \<Longrightarrow> ev_data ev \<in> R - D"
    using assms by (auto simp: fresh_events_def)
  assume ev: "ev_fd ev \<noteq> sock" and D': "D' \<subseteq> insert (ev_data ev) D"
  have "ev_data ev \<notin> ev_data ` {x \<in> set evs. ev_fd x \<noteq> sock}" using assms ev by (simp add: fresh_events_def)
  then have "ev_data x \<noteq> ev_data ev" if "x \<in> set evs" "ev_fd x \<noteq> sock" for x using that by (metis (mono_tags, lifting) imageI mem_Collect_eq)
  then show "fresh_events R sock D' evs" using assms ev D' by (fastforce simp: fresh_events_def)
qed

section \<open>What the kernel reports\<close>

text \<open>What the kernel reports is a batch of contexts in use.\<close>

lemma reported_fresh:
  assumes o: "owned e sock R m" and "list_all2 (\<lambda>ev fd. epoll_set e (m_trace m) fd = Some (ev_data ev)) evs fds" and "distinct fds"
  shows "fresh_events R sock {} evs"
proof -
  have "(\<forall>ev\<in>set evs. ev_fd ev \<noteq> sock \<longrightarrow> ev_data ev \<in> R \<and> fdmap m (ev_data ev) \<in> Some ` set fds)
      \<and> distinct (map ev_data (filter (\<lambda>ev. ev_fd ev \<noteq> sock) evs))"
    using assms(2,3)
  proof (induction rule: list_all2_induct)
    case (Cons ev evs fd fds)
    have ev: "ev_data ev \<in> R \<and> fdmap m (ev_data ev) = Some fd" if "ev_fd ev \<noteq> sock"
      using ownedD(2) [OF o Cons.hyps(1)] that by (simp add: ev_fd_data)
    have "ev_data ev \<noteq> ev_data x" if "ev_fd ev \<noteq> sock" "x \<in> set evs" "ev_fd x \<noteq> sock" for x
    proof
      assume eq: "ev_data ev = ev_data x"
      have "Some fd \<in> Some ` set fds" using Cons that ev [OF that(1)] eq by auto
      then show False using Cons.prems by auto
    qed
    then show ?case using Cons ev by auto
  qed simp
  then show ?thesis by (auto simp: fresh_events_def)
qed

lemma loop_inv_sys:
  assumes "loop_inv e sock mode R s" and "moved e {} (m_trace (ls_mach s)) tr"
  shows "loop_inv e sock mode R (s\<lparr>ls_mach := (ls_mach s)\<lparr>m_trace := tr\<rparr>\<rparr>)"
proof -
  let ?m = "(ls_mach s)\<lparr>m_trace := tr\<rparr>"
  have p: "pmap ?m = pmap (ls_mach s)" by (simp add: pmap_simps)
  moreover have "owned e sock R ?m"
    using assms(1) owned_sys [OF _ assms(2)] by (simp add: loop_inv_def)
  ultimately show ?thesis using assms(1) paired_cong [OF p] by (simp add: loop_inv_def)
qed

section \<open>Invariants of the loop\<close>

text \<open>
  The events of a batch are admissible one after the other: each satisfies \<open>ok\<close> in the state in
  which it is handled.
\<close>

primrec fair_events ::
  "'l plat \<Rightarrow> int \<Rightarrow> int \<Rightarrow> int \<Rightarrow> (addr \<Rightarrow> 32 word \<Rightarrow> 'l loop_state \<Rightarrow> bool) \<Rightarrow> epoll_event list \<Rightarrow> 'l loop_state \<Rightarrow> bool" where
  "fair_events P e sock mode ok [] s = True"
| "fair_events P e sock mode ok (ev # evs) s =
     ((ev_fd ev = sock \<or> ok (ev_data ev) (ev_events ev) s) \<and>
      (case handle_event P e sock mode ev s of Some (Inr s') \<Rightarrow> fair_events P e sock mode ok evs s' | _ \<Rightarrow> True))"

text \<open>
  The states the loop reaches, round by round: wait, handle the reported events, admissible each when
  its turn comes, and release what was collected.
\<close>

inductive serving ::
  "'l plat \<Rightarrow> int \<Rightarrow> int \<Rightarrow> int \<Rightarrow> (addr \<Rightarrow> 32 word \<Rightarrow> 'l loop_state \<Rightarrow> bool) \<Rightarrow> 'l loop_state \<Rightarrow> 'l loop_state \<Rightarrow> bool"
  for P e sock mode ok s0 where
  start: "serving P e sock mode ok s0 s0"
| round: "\<lbrakk> serving P e sock mode ok s0 s; wait_events P e s = (Some evs, s1); fair_events P e sock mode ok evs s1;
            serve_batch P e sock mode evs s1 = Some (Inr s2) \<rbrakk> \<Longrightarrow> serving P e sock mode ok s0 s2"

lemma serving_first:
  assumes "wait_events P e s0 = (Some evs, s1)" and "fair_events P e sock mode ok evs s1"
    and "serve_batch P e sock mode evs s1 = Some (Inr s2)" and "serving P e sock mode ok s2 s"
  shows "serving P e sock mode ok s0 s"
  using assms(4) by induction (auto intro: serving.round [OF serving.start assms(1-3)] serving.round)

lemma fair_True: "fair_events P e sock mode (\<lambda>_ _ _. True) evs s"
  by (induction evs arbitrary: s) (auto split: option.splits sum.splits)

text \<open>The loop of the program ends in a state it reached, when waiting fails there.\<close>

lemma serve_loop_serving:
  assumes "serve_loop P e sock mode s0 = Some (Inr s')"
  shows "\<exists>s. serving P e sock mode (\<lambda>_ _ _. True) s0 s \<and> wait_events P e s = (None, s')"
proof -
  let ?S = "\<lambda>P e sock mode. serving P e sock mode (\<lambda>_ _ _. True)"
  let ?Q = "\<lambda>((((P, e), sock), mode), s0) r. \<forall>s'. r = Inr s' \<longrightarrow> (\<exists>s. ?S P e sock mode s0 s \<and> wait_events P e s = (None, s'))"
  have "?Q ((((P, e), sock), mode), s0) r" if "serve_loop P e sock mode s0 = Some r" for r
  proof (rule serve_loop.raw_induct [where Pa = ?Q, OF _ that])
    fix loop P e sock mode s0 r
    assume ih: "\<And>P e sock mode s r. loop P e sock mode s = Some r \<Longrightarrow> ?Q ((((P, e), sock), mode), s) r"
      and body: "(case wait_events P e s0 of (None, s) \<Rightarrow> Some (Inr s) | (Some evs, s) \<Rightarrow>
          (case serve_batch P e sock mode evs s of None \<Rightarrow> None | Some (Inl e) \<Rightarrow> Some (Inl e)
           | Some (Inr s) \<Rightarrow> loop P e sock mode s)) = Some r"
    have "\<exists>s. ?S P e sock mode s0 s \<and> wait_events P e s = (None, s')" if r: "r = Inr s'" for s'
    proof (cases "wait_events P e s0")
      case (Pair evs s1)
      show ?thesis
      proof (cases evs)
        case None
        then show ?thesis using body Pair r by (auto intro!: exI [of _ s0] serving.start)
      next
        case (Some es)
        then obtain s2 where "serve_batch P e sock mode es s1 = Some (Inr s2)" "loop P e sock mode s2 = Some r"
          using body Pair r by (auto split: option.splits sum.splits)
        then show ?thesis using ih [of P e sock mode s2 r] r Pair Some serving_first [OF _ fair_True] by fastforce
      qed
    qed
    then show "?Q ((((P, e), sock), mode), s0) r" by auto
  qed
  from this [OF assms] show ?thesis by simp
qed

text \<open>Between two batches.\<close>

definition idle :: "(addr set \<Rightarrow> 'l loop_state \<Rightarrow> bool) \<Rightarrow> 'l loop_state \<Rightarrow> bool" where
  "idle I s \<longleftrightarrow> (\<exists>R. I R s) \<and> vec_elems (ls_dead s) = []"

text \<open>
  An invariant of the loop on the contexts in use: it includes \<open>loop_inv\<close>, and waiting, accepting,
  dispatching an admissible event and releasing the collected contexts keep it. Then every round of
  the loop keeps it.
\<close>

locale loop_invariant =
  fixes P :: "'l plat" and e :: int and sock :: int and mode :: int
    and I :: "addr set \<Rightarrow> 'l loop_state \<Rightarrow> bool" and ok :: "addr \<Rightarrow> 32 word \<Rightarrow> 'l loop_state \<Rightarrow> bool"
  assumes base: "I R s \<Longrightarrow> loop_inv e sock mode R s"
    and wait: "I R s \<Longrightarrow> I R (s\<lparr>ls_mach := snd (msys (p_env P) (Sys_Epoll_Wait e n) (ls_mach s))\<rparr>)"
    and accept: "I R s \<Longrightarrow> post not_uaf (accept_client P e sock mode (ls_ups s) (ls_mach s))
      (\<lambda>(q, m). \<exists>R'. R \<subseteq> R' \<and> I R' (s\<lparr>ls_mach := m, ls_ups := q\<rparr>))"
    and dispatch: "\<lbrakk> I R s; a \<in> R; a \<notin> set (vec_elems (ls_dead s)); 0 < vec_free (ls_dead s); ok a evs s \<rbrakk> \<Longrightarrow>
      opost not_uaf (dispatch_ctx P e mode a evs s) (\<lambda>s'. I R s'
        \<and> set (vec_elems (ls_dead s')) \<subseteq> insert a (set (vec_elems (ls_dead s)))
        \<and> length (vec_elems (ls_dead s')) \<le> Suc (length (vec_elems (ls_dead s))))"
    and release: "I R s \<Longrightarrow> post not_uaf (release_dead P s) (\<lambda>s'. (\<exists>R'. I R' s') \<and> vec_elems (ls_dead s') = [])"
begin

lemma events:
  assumes inv: "I R s" and evs: "fresh_events R sock (set (vec_elems (ls_dead s))) evs"
    and room: "length evs \<le> vec_free (ls_dead s)" and fair: "fair_events P e sock mode ok evs s"
  shows "opost not_uaf (handle_events P e sock mode evs s) (\<lambda>s'. \<exists>R'. I R' s')"
  using inv evs room fair
proof (induction evs arbitrary: R s)
  case (Cons ev evs)
  note fresh = fresh_events_Cons [OF Cons.prems(2)]
  have fair: "fair_events P e sock mode ok evs s'" if "handle_event P e sock mode ev s = Some (Inr s')" for s'
    using Cons.prems(4) that by simp
  show ?case
  proof (cases "ev_fd ev = sock")
    case True
    have "opost not_uaf (handle_event P e sock mode ev s) (\<lambda>s'. ls_dead s' = ls_dead s \<and> (\<exists>R'. R \<subseteq> R' \<and> I R' s'))"
      using True accept [OF Cons.prems(1)]
      by (auto simp: handle_event_def opost_def obind_def split: sum.splits prod.splits)
    then show ?thesis
      unfolding handle_events.simps
      by (rule opost_obind_eq) (use Cons.IH Cons.prems(3) fresh(1) [OF True] fair in auto)
  next
    case False
    have "opost not_uaf (handle_event P e sock mode ev s) (\<lambda>s'. I R s'
           \<and> set (vec_elems (ls_dead s')) \<subseteq> insert (ev_data ev) (set (vec_elems (ls_dead s)))
           \<and> length (vec_elems (ls_dead s')) \<le> Suc (length (vec_elems (ls_dead s))))"
      using False dispatch [OF Cons.prems(1), of "ev_data ev"] fresh(2) [OF False] Cons.prems(3,4)
      by (simp add: handle_event_def)
    then show ?thesis
      unfolding handle_events.simps
      by (rule opost_obind_eq) (use Cons.IH Cons.prems(3) fresh(3) [OF False] fair in \<open>auto simp: vec_free_def\<close>)
  qed
qed auto

lemma batch:
  assumes "I R s" and "vec_elems (ls_dead s) = []" and "fresh_events R sock {} evs" and "int (length evs) \<le> SM3T_MAX_EVENT"
    and "fair_events P e sock mode ok evs s"
  shows "opost not_uaf (serve_batch P e sock mode evs s) (idle I)"
proof -
  have "length evs \<le> vec_free (ls_dead s)"
    using assms(2,4) by (simp add: vec_free_def VEC_LIMIT_def SM3T_MAX_EVENT_def)
  then have "opost not_uaf (handle_events P e sock mode evs s) (\<lambda>s'. \<exists>R'. I R' s')"
    using assms(2,3) by (intro events [OF assms(1) _ _ assms(5)]) auto
  then show ?thesis
    unfolding serve_batch_def by (rule opost_obind) (auto simp: idle_def [abs_def] intro: release)
qed

lemma one_round:
  assumes ok: "epoll_ok (p_env P)" and "idle I s" and w: "wait_events P e s = (evs, s1)"
  shows "idle I s1"
    and "evs = Some es \<Longrightarrow> fair_events P e sock mode ok es s1 \<Longrightarrow> opost not_uaf (serve_batch P e sock mode es s1) (idle I)"
proof -
  define r where "r = p_env P (m_trace (ls_mach s)) (Sys_Epoll_Wait e SM3T_MAX_EVENT)"
  obtain R where inv: "I R s" and d: "vec_elems (ls_dead s) = []" using assms(2) by (auto simp: idle_def)
  have s1: "s1 = s\<lparr>ls_mach := snd (msys (p_env P) (Sys_Epoll_Wait e SM3T_MAX_EVENT) (ls_mach s))\<rparr>"
    using w by (auto simp: wait_events_def Let_def split: prod.splits)
  have inv1: "I R s1" unfolding s1 by (rule wait [OF inv])
  then show "idle I s1" using d by (auto simp: idle_def s1)
  assume es: "evs = Some es" and fair: "fair_events P e sock mode ok es s1"
  have r: "sr_ret r \<noteq> SM3T__ERR" "es = take (nat (sr_ret r)) (sr_events r)"
    using w es by (auto simp: wait_events_def msys_pair Let_def r_def split: if_splits)
  obtain fds where k: "length (sr_events r) = nat (sr_ret r)" "sr_ret r \<le> SM3T_MAX_EVENT" "distinct fds"
    "list_all2 (\<lambda>ev fd. epoll_set e (m_trace (ls_mach s)) fd = Some (ev_data ev)) (sr_events r) fds"
    using epoll_okD [OF ok, of SM3T_MAX_EVENT] r(1) by (auto simp: r_def SM3T_MAX_EVENT_def)
  have "fresh_events R sock {} es"
    using base [OF inv] k r(2) by (intro reported_fresh [of e sock R "ls_mach s" es fds]) (auto simp: loop_inv_def)
  then show "opost not_uaf (serve_batch P e sock mode es s1) (idle I)"
    using d k r by (intro batch [OF inv1 _ _ _ fair]) (auto simp: s1 SM3T_MAX_EVENT_def)
qed

lemma reached:
  assumes "serving P e sock mode ok s0 s" and "epoll_ok (p_env P)" and "idle I s0"
  shows "idle I s"
  using assms(1)
proof (induction rule: serving.induct)
  case (round s evs s1 s2)
  from one_round(2) [OF assms(2) round.IH round.hyps(2) refl round.hyps(3)] round.hyps(4) show ?case by simp
qed (rule assms(3))

end

section \<open>Memory safety of the loop\<close>

definition safe_inv :: "'l plat \<Rightarrow> int \<Rightarrow> int \<Rightarrow> int \<Rightarrow> addr set \<Rightarrow> 'l loop_state \<Rightarrow> bool" where
  "safe_inv P e sock mode R s \<longleftrightarrow> alloc_fresh P \<and> fd_ok (p_env P) \<and> loop_inv e sock mode R s"

lemma wait_loop_inv:
  "loop_inv e sock mode R s \<Longrightarrow> loop_inv e sock mode R (s\<lparr>ls_mach := snd (msys env (Sys_Epoll_Wait e n) (ls_mach s))\<rparr>)"
  by (simp add: msys_pair loop_inv_sys)

interpretation safe: loop_invariant P e sock mode "safe_inv P e sock mode" "\<lambda>_ _ _. True" for P :: "'l plat" and e sock mode
proof unfold_locales
  fix R and s :: "'l loop_state" and n a evs
  assume inv: "safe_inv P e sock mode R s"
  then have P: "alloc_fresh P" "fd_ok (p_env P)" and l: "loop_inv e sock mode R s" by (simp_all add: safe_inv_def)
  show "loop_inv e sock mode R s" by fact
  show "safe_inv P e sock mode R (s\<lparr>ls_mach := snd (msys (p_env P) (Sys_Epoll_Wait e n) (ls_mach s))\<rparr>)"
    using P wait_loop_inv [OF l] by (simp add: safe_inv_def)
  show "post not_uaf (accept_client P e sock mode (ls_ups s) (ls_mach s))
      (\<lambda>(q, m). \<exists>R'. R \<subseteq> R' \<and> safe_inv P e sock mode R' (s\<lparr>ls_mach := m, ls_ups := q\<rparr>))"
    using P accept_loop_inv [OF P l] by (simp add: safe_inv_def)
  show "post not_uaf (release_dead P s) (\<lambda>s'. (\<exists>R'. safe_inv P e sock mode R' s') \<and> vec_elems (ls_dead s') = [])"
    by (rule post_weaken [OF release_dead_safe [OF l]]) (use P in \<open>auto simp: safe_inv_def\<close>)
  assume a: "a \<in> R" "a \<notin> set (vec_elems (ls_dead s))" "0 < vec_free (ls_dead s)"
  show "opost not_uaf (dispatch_ctx P e mode a evs s) (\<lambda>s'. safe_inv P e sock mode R s'
        \<and> set (vec_elems (ls_dead s')) \<subseteq> insert a (set (vec_elems (ls_dead s)))
        \<and> length (vec_elems (ls_dead s')) \<le> Suc (length (vec_elems (ls_dead s))))"
    using dispatch_ctx_safe [OF l a] P by (simp add: safe_inv_def)
qed

lemma serve_loop_safe:
  assumes "epoll_ok (p_env P)" and "idle (safe_inv P e sock mode) s"
  shows "opost not_uaf (serve_loop P e sock mode s) (idle (safe_inv P e sock mode))"
proof -
  let ?I = "\<lambda>P e sock mode. idle (safe_inv P e sock mode)"
  let ?Q = "\<lambda>((((P, e), sock), mode), s) r. epoll_ok (p_env P) \<and> ?I P e sock mode s \<longrightarrow> post not_uaf r (?I P e sock mode)"
  have "?Q ((((P, e), sock), mode), s) r" if "serve_loop P e sock mode s = Some r" for r
  proof (rule serve_loop.raw_induct [where Pa = ?Q, OF _ that])
    fix loop P e sock mode s r
    assume ih: "\<And>P e sock mode s r. loop P e sock mode s = Some r \<Longrightarrow> ?Q ((((P, e), sock), mode), s) r"
      and body: "(case wait_events P e s of (None, s) \<Rightarrow> Some (Inr s) | (Some evs, s) \<Rightarrow>
          (case serve_batch P e sock mode evs s of None \<Rightarrow> None | Some (Inl e) \<Rightarrow> Some (Inl e)
           | Some (Inr s) \<Rightarrow> loop P e sock mode s)) = Some r"
    have "post not_uaf r (?I P e sock mode)" if P: "epoll_ok (p_env P)" and s: "?I P e sock mode s"
    proof -
      obtain evs s1 where w: "wait_events P e s = (evs, s1)" by fastforce
      note batch = safe.one_round(1) [OF P s w] safe.one_round(2) [OF P s w _ fair_True]
      show ?thesis
        using body w batch ih P by (auto split: option.splits sum.splits)
    qed
    then show "?Q ((((P, e), sock), mode), s) r" by auto
  qed
  then show ?thesis using assms by (cases "serve_loop P e sock mode s") auto
qed

section \<open>The whole server\<close>

lemma as_int_safe: "post not_uaf (as_int v) (\<lambda>_. True)"
  by (simp add: as_int_def split: sm3t_value_t.splits)

lemma enqueue_safe: "post not_uaf (sm3t__enqueue b q v) (\<lambda>_. True)"
proof -
  have "post not_uaf (queue_grow b q) (\<lambda>_. True)" for q :: "'a sm3t_queue_t"
    by (auto simp: queue_grow_def Let_def intro!: post_cbind [OF post_i32])
  moreover have "post not_uaf (queue_store q x) (\<lambda>_. True)" for q and x :: 'a
    by (auto simp: queue_store_def Let_def intro!: post_cbind [OF post_slot_put] post_cbind [OF post_i32] post_cbind [OF post_c_rem])
  ultimately show ?thesis by (auto simp: sm3t__enqueue_def Let_def split: option.splits intro!: post_cbind)
qed

abbreviation good_sock :: "sm3t_server_t \<Rightarrow> bool" where
  "good_sock s \<equiv> 0 < srv_sock s \<and> srv_sock s < 2 ^ 31"

lemma try_bind_safe:
  assumes "fd_ok (p_env P)"
  shows "post not_uaf (try_bind P t m) (\<lambda>(r, _). \<forall>s. r = Bind_Done s \<longrightarrow> good_sock s)"
  using fd_okD [OF assms, of "Sys_Socket (sa_family t)" "sa_family t" "m_trace m"] unfolding try_bind_def
  by (auto simp: msys_pair Let_def intro!: post_cbind [OF get_conf_value_safe] post_cbind [OF as_int_safe])

lemma bind_loop_safe:
  assumes "fd_ok (p_env P)"
  shows "opost not_uaf (bind_loop P host host m) (\<lambda>(srv, _). \<forall>s. srv = Some s \<longrightarrow> good_sock s)"
  by (rule bind_loop_post [where I = "\<lambda>_. True"], rule post_weaken [OF try_bind_safe [OF assms]])
     (auto split: bind_result.splits)

lemma listen_on_sock: "fst (listen_on env server m) = Some s \<Longrightarrow> s = server"
  by (auto simp: listen_on_def Let_def split: prod.splits if_splits)

lemma init_server_safe:
  assumes "fd_ok (p_env P)"
  shows "opost not_uaf (sm3t__init_server P m) (\<lambda>(srv, _). \<forall>s. srv = Some s \<longrightarrow> good_sock s)"
proof -
  have conf: "opost not_uaf (Some (sm3t__get_conf_value A mem L path ty out)) (\<lambda>_. True)" for A :: "'a lua_api" and mem L path ty out
    using get_conf_value_safe by simp
  have num: "opost not_uaf (Some (as_int v)) (\<lambda>_. True)" for v using as_int_safe by simp
  show ?thesis
    unfolding sm3t__init_server_def
    by (auto simp: msys_pair Let_def dest!: arg_cong [where f = fst] listen_on_sock split: option.splits
        intro!: opost_obind [OF conf] opost_obind [OF num] opost_obind [OF bind_loop_safe [OF assms]])
qed

lemma data_fd_sock: "0 < sock \<Longrightarrow> sock < 2 ^ 31 \<Longrightarrow> data_fd (ucast (word_of_int sock :: 32 word)) = sock"
  unfolding data_fd_def by transfer (simp add: take_bit_int_eq_self signed_take_bit_int_eq_self)

text \<open>The loop starts with an instance that watches the listening socket only, and no context.\<close>

definition fresh_loop :: "int \<Rightarrow> int \<Rightarrow> 'l loop_state \<Rightarrow> bool" where
  "fresh_loop e sock s \<longleftrightarrow> ls_dead s = None \<and> (\<forall>d\<in>ran (epoll_set e (m_trace (ls_mach s))). data_fd d = sock)"

lemma fresh_loop_inv: "fresh_loop e sock s \<Longrightarrow> loop_inv e sock mode {} s"
  by (auto simp: fresh_loop_def loop_inv_def paired_def owned_def ran_def)

lemma server_fresh_loop:
  assumes "good_sock server" and "sr_ret r = e"
  shows "fresh_loop e (srv_sock server) \<lparr>ls_mach = m\<lparr>m_trace := tr @ [(Sys_Epoll_Create n, r),
     (Sys_Epoll_Ctl EPOLL_CTL_ADD e (srv_sock server)
        (Some \<lparr>ev_events = EPOLLIN, ev_data = ucast (word_of_int (srv_sock server) :: 32 word)\<rparr>), r2)], m_lua := L\<rparr>,
     ls_dead = None, ls_ups = q\<rparr>"
proof -
  have "epoll_set e (tr @ [(Sys_Epoll_Create n, r), x]) = epoll_step e x Map.empty" for x
    using assms(2) by simp
  then show ?thesis
    using assms data_fd_sock [of "srv_sock server"] by (auto simp: fresh_loop_def)
qed

lemma shut_down_safe:
  assumes "loop_inv e sock mode R s"
  shows "post not_uaf (shut_down P e server s) (\<lambda>_. True)"
proof -
  let ?tr = "m_trace (sm3t__close_server (p_env P) (Some server) (snd (msys (p_env P) (Sys_Close e) (ls_mach s))))"
  have "moved e {} (m_trace (ls_mach s)) ?tr" by (simp add: sm3t__close_server_def msys_pair)
  from loop_inv_sys [OF assms this]
  have "loop_inv e sock mode R (s\<lparr>ls_mach := (ls_mach s)\<lparr>m_trace := ?tr\<rparr>, ls_ups := q\<rparr>)" for q by (simp add: loop_inv_def)
  then show ?thesis
    unfolding shut_down_def Let_def
    by (auto simp: sm3t__close_server_def msys_pair intro!: post_cbind [OF release_dead_safe])
qed

text \<open>From a fresh loop to the end.\<close>

lemma loop_then_shut_down:
  assumes P: "alloc_fresh P" "fd_ok (p_env P)" "epoll_ok (p_env P)" and "fresh_loop e sock s"
  shows "opost not_uaf (obind (serve_loop P e sock mode s) (\<lambda>s. obind (Some (shut_down P e server s)) (\<lambda>s. Some (Inr (ls_mach s))))) (\<lambda>_. True)"
proof -
  have "idle (safe_inv P e sock mode) s"
    using P fresh_loop_inv [OF assms(4)] assms(4) by (auto simp: idle_def safe_inv_def fresh_loop_def)
  note loop = serve_loop_safe [OF P(3) this]
  have "opost not_uaf (Some (shut_down P e server s)) (\<lambda>_. True)" if "idle (safe_inv P e sock mode) s" for s
    using that shut_down_safe by (auto simp: idle_def safe_inv_def)
  then show ?thesis by (intro opost_obind [OF loop] opost_obind) simp_all
qed

lemma start_server_fresh:
  assumes "fd_ok (p_env P)"
  shows "opost not_uaf (start_server P m) (\<lambda>r. \<forall>server e mode s. r = Started server e mode s \<longrightarrow> fresh_loop e (srv_sock server) s)"
proof -
  have conf: "opost not_uaf (Some (sm3t__get_conf_value A mem L path ty out)) (\<lambda>_. True)" for A :: "'a lua_api" and mem L path ty out
    using get_conf_value_safe by simp
  have num: "opost not_uaf (Some (as_int v)) (\<lambda>_. True)" for v using as_int_safe by simp
  have enq: "opost not_uaf (if b then Some (sm3t__enqueue k q v) else Some (Inr (False, None))) (\<lambda>_. True)"
    for b k and q :: upstreams and v
    using enqueue_safe [of k q v] by simp
  show ?thesis
    unfolding start_server_def
    by (auto simp: msys_pair Let_def sm3t__append_poll_def sys_def split: option.splits
        intro!: opost_obind [OF init_server_safe [OF assms]] opost_obind [OF conf] opost_obind [OF num] opost_obind [OF enq]
          server_fresh_loop)
qed

lemma run_server_safe:
  assumes P: "alloc_fresh P" "fd_ok (p_env P)" "epoll_ok (p_env P)"
  shows "opost not_uaf (sm3t__run_server P L m) (\<lambda>_. True)"
  unfolding sm3t__run_server_def
  by (auto split: option.splits started.splits intro!: opost_obind [OF start_server_fresh [OF P(2)]] loop_then_shut_down [OF P])

end
