(* ===== verification/Sm3t_Service.thy ===== *)
theory Sm3t_Service
  imports Sm3t_Loop
begin

unbundle bit_operations_syntax

text \<open>
  What the server does for its configuration and for a client: where it listens, what becomes of a
  client that a hook refuses or that has no upstream, and what the fields that \<open>sm3t__new_ctx\<close> leaves
  uninitialised do to a connection.
\<close>

section \<open>Where the server listens\<close>

text \<open>
  \<open>bound s H us\<close>: the calls \<open>us\<close> bound the socket of \<open>s\<close> to an address of \<open>H\<close>.
\<close>

definition bound :: "sm3t_server_t \<Rightarrow> sockaddr list \<Rightarrow> trace \<Rightarrow> bool" where
  "bound s H us \<longleftrightarrow> (\<exists>h\<in>set H. \<exists>r. (Sys_Bind (srv_sock s) h, r) \<in> set us \<and> sr_ret r \<noteq> SM3T__ERR)"

definition longer :: "'l mach \<Rightarrow> (trace \<Rightarrow> bool) \<Rightarrow> 'l mach \<Rightarrow> bool" where
  "longer m Q m' \<longleftrightarrow> (\<exists>us. m_trace m' = m_trace m @ us \<and> Q us)"

lemma longer_trans:
  "longer m Q m1 \<Longrightarrow> longer m1 Q' m2 \<Longrightarrow> (\<And>us us'. Q us \<Longrightarrow> Q' us' \<Longrightarrow> Q'' (us @ us')) \<Longrightarrow> longer m Q'' m2"
  by (fastforce simp: longer_def)

lemma longer_now [simp]: "Q [] \<Longrightarrow> longer m Q m"
  by (simp add: longer_def)

lemma bound_append: "bound s H us \<or> bound s H us' \<Longrightarrow> bound s H (us @ us')"
  by (auto simp: bound_def)

lemma try_bind_bound:
  assumes "t \<in> set H"
  shows "post (\<lambda>_. True) (try_bind P t m) (\<lambda>(r, m'). longer m (\<lambda>us. \<forall>s. r = Bind_Done s \<longrightarrow> bound s H us) m')"
  using assms unfolding try_bind_def
  by (auto simp: msys_pair Let_def longer_def bound_def intro!: post_cbind [OF post_any])

lemma bind_loop_bound:
  "opost (\<lambda>_. True) (bind_loop P H H m) (\<lambda>(srv, m'). longer m (\<lambda>us. \<forall>s. srv = Some s \<longrightarrow> bound s H us) m')"
proof (rule bind_loop_post [where I = "longer m (\<lambda>_. True)"])
  fix t m1 assume t: "t \<in> set H" and m1: "longer m (\<lambda>_. True) m1"
  show "post (\<lambda>_. True) (try_bind P t m1) (\<lambda>(r, m'). case r of Bind_Retry \<Rightarrow> longer m (\<lambda>_. True) m'
      | Bind_Null \<Rightarrow> (case (None, m') of (srv, m') \<Rightarrow> longer m (\<lambda>us. \<forall>s. srv = Some s \<longrightarrow> bound s H us) m')
      | Bind_Done s \<Rightarrow> (case (Some s, m') of (srv, m') \<Rightarrow> longer m (\<lambda>us. \<forall>s. srv = Some s \<longrightarrow> bound s H us) m'))"
    by (rule post_weaken [OF try_bind_bound [OF t]])
       (auto split: bind_result.splits elim!: longer_trans [OF m1] intro: bound_append)
qed (auto simp: longer_def)

lemma listen_on_trace:
  "longer m (\<lambda>us. \<forall>s. fst (listen_on env server m) = Some s \<longrightarrow>
     (\<exists>r. (Sys_Listen (srv_sock s) SM3T_BACKLOG, r) \<in> set us \<and> sr_ret r \<noteq> SM3T__ERR)) (snd (listen_on env server m))"
  by (auto simp: listen_on_def sm3t__set_nonblocking_def sys_def msys_pair Let_def longer_def sm3t__close_server_def)

lemma listening_bound:
  assumes "longer m (\<lambda>us. bound s H us) m1" and "listen_on env s m1 = (srv, m')"
  shows "longer m (\<lambda>us. \<forall>s. srv = Some s \<longrightarrow> bound s H us \<and>
      (\<exists>r. (Sys_Listen (srv_sock s) SM3T_BACKLOG, r) \<in> set us \<and> sr_ret r \<noteq> SM3T__ERR)) m'"
  by (rule longer_trans [OF assms(1)], use listen_on_trace [of m1 env s] assms(2) in simp)
     (use listen_on_sock [of env s m1] assms(2) in \<open>auto intro: bound_append\<close>)

text \<open>
  C13. The server listens where it is told to. With the configured port in range the first thing
  \<open>sm3t__init_server\<close> does is to resolve this port, and a server it returns has a socket that was bound
  to one of the resolved addresses and put into the listening state. With the port out of range it
  returns no server and makes no system call.
\<close>

theorem init_server_listens:
  assumes A: "lua_ok (p_lua P)" and mem: "\<And>n. p_mem P n"
    and port: "conf_lookup (p_lua P) (m_lua m) ''tcp.listen.port'' SM3T_CINT = Inr (Some (As_int p))"
    and ret: "sm3t__init_server P m = Some (Inr (srv, m'))"
  shows "if 0 < p \<and> p \<le> UINT16_MAX
         then \<exists>r us. m_trace m' = m_trace m @ (Sys_Getaddrinfo (decimal (nat p)), r) # us
           \<and> (\<forall>s. srv = Some s \<longrightarrow> bound s (sr_hosts r) us
                \<and> (\<exists>r'. (Sys_Listen (srv_sock s) SM3T_BACKLOG, r') \<in> set us \<and> sr_ret r' \<noteq> SM3T__ERR))
         else srv = None \<and> m_trace m' = m_trace m"
proof -
  obtain L' where get: "sm3t__get_conf_value (p_lua P) (p_mem P) (m_lua m) ''tcp.listen.port'' SM3T_CINT (As_int 0)
      = Inr (True, L', As_int p)"
    using get_conf_value_lookup [OF A, where mem = "p_mem P" and L = "m_lua m" and path = "''tcp.listen.port''" and type = SM3T_CINT
        and out = "As_int 0"] mem port
    by auto
  have out: "srv = None \<and> m_trace m' = m_trace m" if "\<not> (0 < p \<and> p \<le> UINT16_MAX)"
    using ret that by (auto simp: sm3t__init_server_def get obind_def as_int_def Let_def)
  define m1 where "m1 = m\<lparr>m_lua := L'\<rparr>"
  define r where "r = p_env P (m_trace m) (Sys_Getaddrinfo (decimal (nat p)))"
  define m2 where "m2 = m1\<lparr>m_trace := m_trace m @ [(Sys_Getaddrinfo (decimal (nat p)), r)]\<rparr>"
  have body: "(if sr_ret r \<noteq> 0 then Some (Inr (None, m2))
      else obind (bind_loop P (sr_hosts r) (sr_hosts r) m2) (\<lambda>(server, m).
        case server of None \<Rightarrow> Some (Inr (None, m)) | Some s \<Rightarrow> Some (Inr (listen_on (p_env P) s m)))) = Some (Inr (srv, m'))" if p: "0 < p" "p \<le> UINT16_MAX"
    using ret p by (simp add: sm3t__init_server_def get as_int_def Let_def msys_pair r_def m1_def m2_def not_le not_less split: if_splits)
  have "longer m2 (\<lambda>us. \<forall>s. srv = Some s \<longrightarrow> bound s (sr_hosts r) us
      \<and> (\<exists>r'. (Sys_Listen (srv_sock s) SM3T_BACKLOG, r') \<in> set us \<and> sr_ret r' \<noteq> SM3T__ERR)) m'" if "0 < p" "p \<le> UINT16_MAX"
    using body [OF that] bind_loop_bound [of P "sr_hosts r" m2]
    by (auto simp: obind_def split: if_splits option.splits sum.splits intro: listening_bound [unfolded SM3T_ERR_neg] elim!: longer_trans [OF _ longer_now])
  then show ?thesis using out by (auto simp: longer_def m2_def)
qed

section \<open>Clients that are turned away\<close>

lemma cleanup_ctx_effect:
  assumes "m_heap m a = Some c" and "0 < c_fd c"
  shows "\<exists>m' r. sm3t__cleanup_ctx A env m (Some a) = Inr m' \<and> m_heap m' = (m_heap m)(a := None)
           \<and> m_trace m' = m_trace m @ [(Sys_Close (c_fd c), r)]"
  using assms by (auto simp: sm3t__cleanup_ctx_def ctx_at_def Let_def msys_pair split: option.splits)

lemma set_peer_meta_effect:
  "post (\<lambda>_. True) (sm3t__set_peer_meta P a addr m) (\<lambda>m'. m_trace m' = m_trace m
     \<and> (\<forall>x. x \<noteq> a \<longrightarrow> m_heap m' x = m_heap m x) \<and> fdmap m' = fdmap m \<and> pmap m' = pmap m)"
  unfolding sm3t__set_peer_meta_def
  by (auto simp: Let_def tr_simps mach_simps fdmap_simps pmap_simps split: option.splits intro!: post_cbind [OF post_any])

text \<open>
  C14. A client that the \<open>on_connect\<close> hook refuses is closed and released at once: no upstream is drawn
  or contacted, nothing is registered, and all other contexts are as they were.
\<close>

theorem refused_client_closed:
  assumes c: "m_heap m a = Some c" "0 < c_fd c"
    and meta: "sm3t__set_peer_meta P a addr m = Inr m1"
    and refused: "fst (sm3t__hook_on_connect (p_lua P) (Some (m_lua m1)) a) = SM3T_HOOK_DROP"
  shows "\<exists>m' r. greet_client P e mode a (c_fd c) addr q m = Inr (q, m') \<and> m_heap m' = (m_heap m)(a := None)
           \<and> m_trace m' = m_trace m @ [(Sys_Close (c_fd c), r)]"
proof -
  have m1: "m_trace m1 = m_trace m" "\<And>x. x \<noteq> a \<Longrightarrow> m_heap m1 x = m_heap m x" "fdmap m1 = fdmap m"
    using post_InrD [OF set_peer_meta_effect meta] by auto
  obtain c1 where c1: "m_heap m1 a = Some c1" "c_fd c1 = c_fd c"
    using fun_cong [OF m1(3), of a] c by (auto simp: fdmap_def)
  obtain L where h: "sm3t__hook_on_connect (p_lua P) (Some (m_lua m1)) a = (SM3T_HOOK_DROP, L)"
    using refused by (cases "sm3t__hook_on_connect (p_lua P) (Some (m_lua m1)) a") simp
  let ?m = "case L of None \<Rightarrow> m1 | Some L \<Rightarrow> m1\<lparr>m_lua := L\<rparr>"
  have heap: "m_heap ?m = m_heap m1" "m_trace ?m = m_trace m1" by (simp_all split: option.splits)
  obtain m' r where "sm3t__cleanup_ctx (p_lua P) (p_env P) ?m (Some a) = Inr m'" "m_heap m' = (m_heap ?m)(a := None)"
      "m_trace m' = m_trace ?m @ [(Sys_Close (c_fd c1), r)]"
    using cleanup_ctx_effect [of ?m a c1 "p_lua P" "p_env P"] c1 c(2) heap by auto
  then show ?thesis
    using m1 c1 heap by (auto simp: greet_client_def meta h fun_eq_iff)
qed

text \<open>
  C15. In a mode without a relay, \<open>SM3T__MODE_SOCKS5\<close> among them, a client is dropped as soon as it is
  accepted, and with it an upstream context whose descriptor was never set: the server closes
  whatever descriptor the fresh memory happens to hold.
\<close>

theorem unserved_client_closes_stray_fd:
  assumes P: "alloc_fresh P" "p_ctx P m = Some (b, junk)" "0 < c_fd junk"
    and c: "m_heap m a = Some c" "0 < c_fd c" and mode: "mode \<notin> {SM3T__MODE_TRANSPARENT, SM3T__MODE_FORWARD}"
  shows "\<exists>m' r1 r2. connect_client P e mode a (c_fd c) q m = Inr (q, m') \<and> m_heap m' = (m_heap m)(a := None)
           \<and> m_trace m' = m_trace m @ [(Sys_Close (c_fd c), r1), (Sys_Close (c_fd junk), r2)]"
proof -
  have b: "m_heap m b = None" "b \<noteq> a" using P c by (auto simp: alloc_fresh_def)
  let ?m = "m\<lparr>m_heap := (m_heap m)(b \<mapsto> junk)\<rparr>"
  obtain m1 r1 where m1: "sm3t__cleanup_ctx (p_lua P) (p_env P) ?m (Some a) = Inr m1" "m_heap m1 = (m_heap ?m)(a := None)"
      "m_trace m1 = m_trace ?m @ [(Sys_Close (c_fd c), r1)]"
    using cleanup_ctx_effect [of ?m a c "p_lua P" "p_env P"] b c by auto
  obtain m2 r2 where m2: "sm3t__cleanup_ctx (p_lua P) (p_env P) m1 (Some b) = Inr m2" "m_heap m2 = (m_heap m1)(b := None)"
      "m_trace m2 = m_trace m1 @ [(Sys_Close (c_fd junk), r2)]"
    using cleanup_ctx_effect [of m1 b junk "p_lua P" "p_env P"] b P(3) m1(2) by auto
  have "pick_upstream P mode (c_fd c) q ?m = Inr (None, q, ?m)" using mode by (simp add: pick_upstream_def)
  then have "connect_client P e mode a (c_fd c) q m = Inr (q, m2)"
    using P(2) m1(1) m2(1) by (simp add: connect_client_def sm3t__new_ctx_def drop_both_def)
  moreover have "m_heap m2 = (m_heap m)(a := None)" using m1(2) m2(2) b by (auto simp: fun_eq_iff)
  ultimately show ?thesis using m1(3) m2(3) by simp
qed

section \<open>Fields that are never set\<close>

text \<open>A new pair: the upstream's \<open>wpartial\<close> is what the memory held.\<close>

lemma set_peer_meta_flags:
  "post (\<lambda>_. True) (sm3t__set_peer_meta P a addr m) (\<lambda>m'. \<forall>x. map_option c_wpartial (m_heap m' x) = map_option c_wpartial (m_heap m x))"
  unfolding sm3t__set_peer_meta_def
  by (auto simp: Let_def mach_simps option.map_comp comp_def split: option.splits intro!: post_cbind [OF post_any])

lemma pick_upstream_heap:
  "post (\<lambda>_. True) (pick_upstream P mode fd q m) (\<lambda>(_, _, m'). m_heap m' = m_heap m)"
  by (auto simp: pick_upstream_def msys_pair Let_def intro!: post_cbind [OF post_any])

lemma cleanup_ctx_heap:
  "post (\<lambda>_. True) (sm3t__cleanup_ctx A env m (Some a)) (\<lambda>m'. m_heap m' = (m_heap m)(a := None))"
  by (auto simp: sm3t__cleanup_ctx_def Let_def msys_pair split: option.splits intro!: post_cbind [OF post_any])

lemma connect_upstream_heap: "sm3t__connect_upstream env addr m = (fd, m') \<Longrightarrow> m_heap m' = m_heap m"
  by (auto simp: sm3t__connect_upstream_def msys_pair Let_def split: if_splits)

definition flagged :: "addr \<Rightarrow> addr \<Rightarrow> bool \<Rightarrow> 'l mach \<Rightarrow> bool" where
  "flagged a b w m \<longleftrightarrow> m_heap m b = None \<or>
     (\<exists>ca cb. m_heap m a = Some ca \<and> c_peer ca = Some b \<and> m_heap m b = Some cb \<and> c_wpartial cb = w)"

lemma link_flagged:
  assumes "\<forall>x. map_option c_wpartial (m_heap m x) = map_option c_wpartial ((h(b \<mapsto> junk)) x)" and "h a = Some c" and "b \<noteq> a"
  shows "flagged a b (c_wpartial junk) (link_ctxs env e a fa b fb (upd_ctx b (\<lambda>c. c\<lparr>c_fd := fb\<rparr>) m))"
  using assms(1) [rule_format, of a] assms(1) [rule_format, of b] assms(2,3)
  by (auto simp: flagged_def link_ctxs_def Let_def mach_simps)

lemma connect_client_flags:
  assumes P: "alloc_fresh P" "p_ctx P m = Some (b, junk)" and c: "m_heap m a = Some c"
  shows "post (\<lambda>_. True) (connect_client P e mode a fa q m) (\<lambda>(_, m'). flagged a b (c_wpartial junk) m')"
proof -
  have b: "b \<noteq> a" using P c by (auto simp: alloc_fresh_def)
  have drop: "post (\<lambda>_. True) (cbind (drop_both P a b m1) (\<lambda>m. Inr (q', m))) (\<lambda>(_, m'). flagged a b w m')" for m1 q' w
  proof (rule post_cbind [where R = "\<lambda>m. m_heap m b = None"])
    show "post (\<lambda>_. True) (drop_both P a b m1) (\<lambda>m. m_heap m b = None)"
      unfolding drop_both_def by (intro post_cbind [OF post_any] post_weaken [OF cleanup_ctx_heap]) simp
  qed (simp add: flagged_def)
  show ?thesis
    unfolding connect_client_def using P(2)
    by (auto simp: sm3t__new_ctx_def Let_def split: option.splits prod.splits dest!: connect_upstream_heap
        intro!: post_cbind [OF pick_upstream_heap] post_cbind [OF set_peer_meta_flags] drop link_flagged [where h = "m_heap m", OF _ c b])
qed


end
