(* ===== verification/Sm3t_Options.thy ===== *)
theory Sm3t_Options
  imports Sm3t_Lua
begin

text \<open>
  The option table of the argument parser (\<open>lib/args.h\<close>): the data types, the functions that define
  options, and the conversion of an option's value. A C string is the list of its bytes without the
  end mark. The linked list of options is a list; a pointer to the option just defined is the last
  position. A fatal error of the library prints a message and exits: \<open>Exit_Failure\<close>.

  From the C library the parser takes \<open>strtol\<close> with base 0, translated here, and the conversions of
  floating-point numbers, which are members of the record \<open>args_env\<close> beside the allocator.
\<close>

section \<open>The C library\<close>

record args_env =
  ae_mem :: "nat \<Rightarrow> bool"                          \<comment> \<open>an allocation of so many bytes succeeds\<close>
  ae_strtof :: "string \<Rightarrow> cdouble \<times> string"       \<comment> \<open>the number and the rest of the string\<close>
  ae_3f :: "cdouble \<Rightarrow> string"                     \<comment> \<open>the conversion \<open>%.3f\<close>\<close>

text \<open>The character classes in the C locale.\<close>

definition c_code :: "char \<Rightarrow> nat" where "c_code c = of_char c"

definition c_isdigit :: "char \<Rightarrow> bool" where
  "c_isdigit c \<longleftrightarrow> 48 \<le> c_code c \<and> c_code c \<le> 57"

definition c_isalpha :: "char \<Rightarrow> bool" where
  "c_isalpha c \<longleftrightarrow> 65 \<le> c_code c \<and> c_code c \<le> 90 \<or> 97 \<le> c_code c \<and> c_code c \<le> 122"

definition c_isalnum :: "char \<Rightarrow> bool" where
  "c_isalnum c \<longleftrightarrow> c_isdigit c \<or> c_isalpha c"

definition c_isprint :: "char \<Rightarrow> bool" where
  "c_isprint c \<longleftrightarrow> 32 \<le> c_code c \<and> c_code c \<le> 126"

definition c_isspace :: "char \<Rightarrow> bool" where
  "c_isspace c \<longleftrightarrow> c_code c = 32 \<or> 9 \<le> c_code c \<and> c_code c \<le> 13"

definition c_tolower :: "char \<Rightarrow> char" where
  "c_tolower c = (if 65 \<le> c_code c \<and> c_code c \<le> 90 then char_of (c_code c + 32) else c)"

definition c_strcasecmp_eq :: "string \<Rightarrow> string \<Rightarrow> bool" where
  "c_strcasecmp_eq s t \<longleftrightarrow> map c_tolower s = map c_tolower t"

text \<open>Both strings end with a zero byte, which differs from every other byte.\<close>

fun c_strncmp :: "nat \<Rightarrow> string \<Rightarrow> string \<Rightarrow> int" where
  "c_strncmp 0 s t = 0"
| "c_strncmp (Suc n) [] [] = 0"
| "c_strncmp (Suc n) [] (y # t) = - 1"
| "c_strncmp (Suc n) (x # s) [] = 1"
| "c_strncmp (Suc n) (x # s) (y # t) =
     (if x = y then c_strncmp n s t else int (c_code x) - int (c_code y))"

fun c_strrchr :: "char \<Rightarrow> string \<Rightarrow> string option" where
  "c_strrchr c [] = None"
| "c_strrchr c (x # s) =
     (case c_strrchr c s of Some r \<Rightarrow> Some r | None \<Rightarrow> if x = c then Some (x # s) else None)"

text \<open>
  \<open>strtol\<close> with base 0: white space, a sign, a prefix that gives the base (\<open>0x\<close>, \<open>0b\<close> since C23, \<open>0\<close>),
  digits; the value is limited to the range of \<open>long\<close>. Without a digit nothing is consumed.
\<close>

definition digit_value :: "char \<Rightarrow> nat" where
  "digit_value c =
     (if c_isdigit c then c_code c - 48
      else if c_isalpha c then c_code (c_tolower c) - 87 else 36)"

definition strtol_sign :: "string \<Rightarrow> bool \<times> string" where
  "strtol_sign s =
     (case s of [] \<Rightarrow> (False, s)
      | c # r \<Rightarrow> if c = CHR ''-'' then (True, r) else if c = CHR ''+'' then (False, r) else (False, s))"

definition strtol_base :: "string \<Rightarrow> nat \<times> string" where
  "strtol_base s =
     (if \<not> (s \<noteq> [] \<and> hd s = CHR ''0'') then (10, s)
      else (case tl s of
              x # d # r \<Rightarrow>
                if c_tolower x = CHR ''x'' \<and> digit_value d < 16 then (16, d # r)
                else if c_tolower x = CHR ''b'' \<and> digit_value d < 2 then (2, d # r)
                else (8, s)
            | _ \<Rightarrow> (8, s)))"

definition digits_value :: "nat \<Rightarrow> string \<Rightarrow> nat" where
  "digits_value base ds = foldl (\<lambda>n c. n * base + digit_value c) 0 ds"

definition clamp_long :: "int \<Rightarrow> int" where
  "clamp_long n = max (- INT64_MAX - 1) (min INT64_MAX n)"

definition c_strtol :: "string \<Rightarrow> int \<times> string" where
  "c_strtol s =
     (let (neg, s1) = strtol_sign (dropWhile c_isspace s);
          (base, s2) = strtol_base s1;
          ds = takeWhile (\<lambda>c. digit_value c < base) s2 in
      if ds = [] then (0, s)
      else (clamp_long (if neg then - int (digits_value base ds) else int (digits_value base ds)),
            drop (length ds) s2))"

section \<open>Types\<close>

datatype Args__Type = ARGS__TYPE_LONG | ARGS__TYPE_FLOAT | ARGS__TYPE_STRING | ARGS__TYPE_PATH
  | ARGS__TYPE_BOOL | ARGS__TYPE_ENUM_INDEX | ARGS__TYPE_ENUM_STRING

text \<open>The two unions of an option, with the member in use.\<close>

datatype opt_default = D_none | D_long int | D_float cdouble | D_string string | D_enum string

datatype opt_value = V_long int | V_float cdouble | V_string "string option"
  | V_bool (vb_value: bool) (vb_early_exit: bool) (vb_is_help: bool) (vb_is_version: bool)
  | V_enum_index "string list" nat
  | V_enum_string "string list" "string option"

record Args__Option =
  opt_long_name :: string
  opt_description :: "string option"
  opt_short_name :: char
  opt_is_required :: bool
  opt_is_set :: bool
  opt_is_matching :: bool
  opt_is_hidden :: bool
  opt_type :: Args__Type
  opt_default :: opt_default
  opt_as :: opt_value

text \<open>The version string: the null pointer, a string, or a string that has been freed.\<close>

datatype version_ptr = Ver_Null | Ver_Live string | Ver_Freed

record Args =
  a_options :: "Args__Option list"
  a_positional :: "string list option"
  a_are_parsed :: bool
  a_have_short :: bool
  a_max_name_length :: nat
  a_has_help :: bool
  a_version :: version_ptr

definition zero_args :: Args where
  "zero_args = \<lparr>a_options = [], a_positional = None, a_are_parsed = False, a_have_short = False,
     a_max_name_length = 0, a_has_help = False, a_version = Ver_Null\<rparr>"

definition NUL :: char where "NUL = CHR 0x00"

definition zero_value :: "Args__Type \<Rightarrow> opt_value" where
  "zero_value type =
     (case type of ARGS__TYPE_LONG \<Rightarrow> V_long 0 | ARGS__TYPE_FLOAT \<Rightarrow> V_float (Fin 0)
      | ARGS__TYPE_STRING \<Rightarrow> V_string None | ARGS__TYPE_PATH \<Rightarrow> V_string None
      | ARGS__TYPE_BOOL \<Rightarrow> V_bool False False False False
      | ARGS__TYPE_ENUM_INDEX \<Rightarrow> V_enum_index [] 0 | ARGS__TYPE_ENUM_STRING \<Rightarrow> V_enum_string [] None)"

text \<open>An option that is neither required, set nor hidden.\<close>

definition an_option :: "string \<Rightarrow> char \<Rightarrow> Args__Type \<Rightarrow> opt_value \<Rightarrow> Args__Option" where
  "an_option name c type v = \<lparr>opt_long_name = name, opt_description = None, opt_short_name = c,
     opt_is_required = False, opt_is_set = False, opt_is_matching = False, opt_is_hidden = False,
     opt_type = type, opt_default = D_none, opt_as = v\<rparr>"

section \<open>Defining options\<close>

definition args__strdup :: "args_env \<Rightarrow> string \<Rightarrow> string cres" where
  "args__strdup E s = (if ae_mem E (length s + 1) then Inr s else Inl Exit_Failure)"

definition args__basename :: "string \<Rightarrow> string" where
  "args__basename path = (case c_strrchr CHR ''/'' path of None \<Rightarrow> path | Some f \<Rightarrow> tl f)"

fun long_name_chars :: "bool \<Rightarrow> string \<Rightarrow> bool" where
  "long_name_chars first [] = True"
| "long_name_chars first (c # cs) =
     ((c_isalnum c \<or> c = CHR ''_'' \<or> c = CHR ''+'' \<or> c = CHR ''-'' \<and> \<not> first) \<and> long_name_chars False cs)"

definition description_char :: "char \<Rightarrow> bool" where
  "description_char c \<longleftrightarrow> c = CHR 0x0A \<or> c_isprint c"

definition args__new_option ::
  "args_env \<Rightarrow> Args \<Rightarrow> string option \<Rightarrow> string option \<Rightarrow> char \<Rightarrow> bool \<Rightarrow> bool \<Rightarrow> Args__Type \<Rightarrow> Args cres" where
  "args__new_option E a long_name description short_name is_required is_hidden type =
     (if a_are_parsed a then Inl Exit_Failure
      else if short_name \<noteq> NUL \<and> \<not> c_isalnum short_name then Inl Exit_Failure
      else (case long_name of None \<Rightarrow> Inl Exit_Failure
        | Some name \<Rightarrow>
          if \<not> long_name_chars True name then Inl Exit_Failure
          else if (case description of None \<Rightarrow> False | Some d \<Rightarrow> \<not> list_all description_char d)
          then Inl Exit_Failure
          else if \<not> ae_mem E 72 then Inl Exit_Failure
          else cbind (args__strdup E name) (\<lambda>name.
               cbind (case description of None \<Rightarrow> Inr None
                      | Some d \<Rightarrow> cbind (args__strdup E d) (\<lambda>d. Inr (Some d))) (\<lambda>description.
                 let option = \<lparr>opt_long_name = name, opt_description = description, opt_short_name = short_name,
                       opt_is_required = is_required, opt_is_set = False, opt_is_matching = False,
                       opt_is_hidden = is_hidden, opt_type = type, opt_default = D_none,
                       opt_as = zero_value type\<rparr>;
                     a = (if \<not> is_hidden
                          then a\<lparr>a_max_name_length := max (a_max_name_length a) (length name),
                                 a_have_short := (a_have_short a \<or> short_name \<noteq> NUL)\<rparr>
                          else a)
                 in Inr (a\<lparr>a_options := a_options a @ [option]\<rparr>)))))"

text \<open>A write through the pointer to the option just appended.\<close>

definition set_last :: "(Args__Option \<Rightarrow> Args__Option) \<Rightarrow> Args \<Rightarrow> Args" where
  "set_last f a = a\<lparr>a_options := butlast (a_options a) @ [f (last (a_options a))]\<rparr>"

record 'd opt_args =
  oa_short_name :: char
  oa_hidden :: bool
  oa_required :: bool
  oa_default :: 'd

definition args__option_long ::
  "args_env \<Rightarrow> int opt_args \<Rightarrow> Args \<Rightarrow> string option \<Rightarrow> string option \<Rightarrow> Args cres" where
  "args__option_long E args a long_name description =
     cbind (args__new_option E a long_name description (oa_short_name args) (oa_required args) (oa_hidden args)
              ARGS__TYPE_LONG) (\<lambda>a.
       Inr (set_last (\<lambda>o'. o'\<lparr>opt_default := D_long (oa_default args), opt_as := V_long (oa_default args)\<rparr>) a))"

definition args__option_float ::
  "args_env \<Rightarrow> cdouble opt_args \<Rightarrow> Args \<Rightarrow> string option \<Rightarrow> string option \<Rightarrow> Args cres" where
  "args__option_float E args a long_name description =
     cbind (args__new_option E a long_name description (oa_short_name args) (oa_required args) (oa_hidden args)
              ARGS__TYPE_FLOAT) (\<lambda>a.
       Inr (set_last (\<lambda>o'. o'\<lparr>opt_default := D_float (oa_default args), opt_as := V_float (oa_default args)\<rparr>) a))"

definition args__option_string ::
  "args_env \<Rightarrow> string option opt_args \<Rightarrow> Args__Type \<Rightarrow> Args \<Rightarrow> string option \<Rightarrow> string option \<Rightarrow> Args cres" where
  "args__option_string E args type a long_name description =
     (if type \<noteq> ARGS__TYPE_STRING \<and> type \<noteq> ARGS__TYPE_PATH then Inl Exit_Failure
      else cbind (args__new_option E a long_name description (oa_short_name args) (oa_required args) (oa_hidden args)
              type) (\<lambda>a.
        case oa_default args of None \<Rightarrow> Inr a
        | Some d \<Rightarrow>
            cbind (args__strdup E d) (\<lambda>d1. cbind (args__strdup E d) (\<lambda>d2.
              Inr (set_last (\<lambda>o'. o'\<lparr>opt_default := D_string d1, opt_as := V_string (Some d2)\<rparr>) a)))))"

definition args__option_flag ::
  "args_env \<Rightarrow> bool opt_args \<Rightarrow> Args \<Rightarrow> string option \<Rightarrow> string option \<Rightarrow> Args cres" where
  "args__option_flag E args a long_name description =
     cbind (args__new_option E a long_name description (oa_short_name args) False (oa_hidden args) ARGS__TYPE_BOOL) (\<lambda>a.
       Inr (set_last (\<lambda>o'. o'\<lparr>opt_as := V_bool False (oa_default args) False False\<rparr>) a))"

text \<open>The copy of the array of an enumeration's values, with the check of their characters.\<close>

fun copy_enum_values :: "args_env \<Rightarrow> string list \<Rightarrow> string list cres" where
  "copy_enum_values E [] = Inr []"
| "copy_enum_values E (v # vs) =
     (if \<not> list_all c_isprint v then Inl Exit_Failure
      else cbind (args__strdup E v) (\<lambda>c. cbind (copy_enum_values E vs) (\<lambda>cs. Inr (c # cs))))"

definition args__set_enum_values :: "args_env \<Rightarrow> string list \<Rightarrow> string list cres" where
  "args__set_enum_values E values =
     (if \<not> ae_mem E (8 * length values) then Inl Exit_Failure else copy_enum_values E values)"

definition args__option_enum ::
  "args_env \<Rightarrow> nat opt_args \<Rightarrow> Args \<Rightarrow> string option \<Rightarrow> string option \<Rightarrow> string list \<Rightarrow> Args cres" where
  "args__option_enum E args a long_name description values =
     cbind (args__new_option E a long_name description (oa_short_name args) (oa_required args) (oa_hidden args)
              ARGS__TYPE_ENUM_INDEX) (\<lambda>a.
     cbind (args__set_enum_values E values) (\<lambda>vs.
     cbind (if oa_default args < length vs
            then cbind (args__strdup E (values ! oa_default args)) (\<lambda>d. Inr (D_enum d)) else Inr D_none) (\<lambda>d.
       Inr (set_last (\<lambda>o'. o'\<lparr>opt_default := d, opt_as := V_enum_index vs (oa_default args)\<rparr>) a))))"

definition args__option_enum_string ::
  "args_env \<Rightarrow> string option opt_args \<Rightarrow> Args \<Rightarrow> string option \<Rightarrow> string option \<Rightarrow> string list \<Rightarrow> Args cres" where
  "args__option_enum_string E args a long_name description values =
     cbind (args__new_option E a long_name description (oa_short_name args) (oa_required args) (oa_hidden args)
              ARGS__TYPE_ENUM_STRING) (\<lambda>a.
     cbind (case oa_default args of None \<Rightarrow> Inr None
            | Some d \<Rightarrow> cbind (args__strdup E d) (\<lambda>d. Inr (Some d))) (\<lambda>d.
     cbind (args__set_enum_values E values) (\<lambda>vs.
       Inr (set_last (\<lambda>o'. o'\<lparr>opt_default := (case d of None \<Rightarrow> D_none | Some d \<Rightarrow> D_enum d),
                               opt_as := V_enum_string vs d\<rparr>) a))))"

definition option_help :: "args_env \<Rightarrow> Args \<Rightarrow> Args cres" where
  "option_help E a =
     (if a_are_parsed a then Inl Exit_Failure
      else cbind (args__new_option E (a\<lparr>a_has_help := True\<rparr>) (Some ''help'') (Some ''Show help'') CHR ''h'' False False
              ARGS__TYPE_BOOL) (\<lambda>a.
        Inr (set_last (\<lambda>o'. o'\<lparr>opt_as := V_bool False False True False\<rparr>) a)))"

definition option_version :: "args_env \<Rightarrow> Args \<Rightarrow> string \<Rightarrow> Args cres" where
  "option_version E a version_string =
     (if a_are_parsed a then Inl Exit_Failure
      else cbind (args__strdup E version_string) (\<lambda>v.
        cbind (args__new_option E (a\<lparr>a_version := Ver_Live v\<rparr>) (Some ''version'') (Some ''Print version'') CHR ''v''
                 False False ARGS__TYPE_BOOL) (\<lambda>a.
          Inr (set_last (\<lambda>o'. o'\<lparr>opt_as := V_bool False False False True\<rparr>) a))))"

text \<open>
  The macros a program defines its options with. The named arguments are designated initialisers: the
  fields that are not named are zero, and of two for one field the later one holds.
\<close>

definition zero_or_designated :: "'d \<Rightarrow> ('d opt_args \<Rightarrow> 'd opt_args) list \<Rightarrow> 'd opt_args" where
  "zero_or_designated z designations =
     fold (\<lambda>d args. d args) designations
       \<lparr>oa_short_name = NUL, oa_hidden = False, oa_required = False, oa_default = z\<rparr>"

definition option_long ::
  "args_env \<Rightarrow> Args \<Rightarrow> string option \<Rightarrow> string option \<Rightarrow> (int opt_args \<Rightarrow> int opt_args) list \<Rightarrow> Args cres" where
  "option_long E a long_name description ds =
     args__option_long E (zero_or_designated 0 ds) a long_name description"

definition option_float ::
  "args_env \<Rightarrow> Args \<Rightarrow> string option \<Rightarrow> string option \<Rightarrow> (cdouble opt_args \<Rightarrow> cdouble opt_args) list \<Rightarrow> Args cres" where
  "option_float E a long_name description ds =
     args__option_float E (zero_or_designated (Fin 0) ds) a long_name description"

definition option_string ::
  "args_env \<Rightarrow> Args \<Rightarrow> string option \<Rightarrow> string option \<Rightarrow>
     (string option opt_args \<Rightarrow> string option opt_args) list \<Rightarrow> Args cres" where
  "option_string E a long_name description ds =
     args__option_string E (zero_or_designated None ds) ARGS__TYPE_STRING a long_name description"

definition option_path ::
  "args_env \<Rightarrow> Args \<Rightarrow> string option \<Rightarrow> string option \<Rightarrow>
     (string option opt_args \<Rightarrow> string option opt_args) list \<Rightarrow> Args cres" where
  "option_path E a long_name description ds =
     args__option_string E (zero_or_designated None ds) ARGS__TYPE_PATH a long_name description"

definition option_flag ::
  "args_env \<Rightarrow> Args \<Rightarrow> string option \<Rightarrow> string option \<Rightarrow> (bool opt_args \<Rightarrow> bool opt_args) list \<Rightarrow> Args cres" where
  "option_flag E a long_name description ds =
     args__option_flag E (zero_or_designated False ds) a long_name description"

definition option_enum ::
  "args_env \<Rightarrow> Args \<Rightarrow> string option \<Rightarrow> string option \<Rightarrow> string list \<Rightarrow>
     (nat opt_args \<Rightarrow> nat opt_args) list \<Rightarrow> Args cres" where
  "option_enum E a long_name description values ds =
     args__option_enum E (zero_or_designated 0 ds) a long_name description values"

definition option_enum_string ::
  "args_env \<Rightarrow> Args \<Rightarrow> string option \<Rightarrow> string option \<Rightarrow> string list \<Rightarrow>
     (string option opt_args \<Rightarrow> string option opt_args) list \<Rightarrow> Args cres" where
  "option_enum_string E a long_name description values ds =
     args__option_enum_string E (zero_or_designated None ds) a long_name description values"

section \<open>Values\<close>

fun find_index_eq :: "string \<Rightarrow> string list \<Rightarrow> nat \<Rightarrow> nat option" where
  "find_index_eq value [] i = None"
| "find_index_eq value (v # vs) i =
     (if c_strcasecmp_eq v value then Some i else find_index_eq value vs (i + 1))"

definition args__parse_value :: "args_env \<Rightarrow> Args__Option \<Rightarrow> string \<Rightarrow> Args__Option cres" where
  "args__parse_value E option value =
     (case opt_type option of
        ARGS__TYPE_LONG \<Rightarrow>
          let (n, rest) = c_strtol value in
          if rest \<noteq> [] then Inl Exit_Failure else Inr (option\<lparr>opt_as := V_long n\<rparr>)
      | ARGS__TYPE_FLOAT \<Rightarrow>
          let (x, rest) = ae_strtof E value in
          if rest \<noteq> [] then Inl Exit_Failure else Inr (option\<lparr>opt_as := V_float x\<rparr>)
      | ARGS__TYPE_BOOL \<Rightarrow> Inl Exit_Failure
      | ARGS__TYPE_ENUM_INDEX \<Rightarrow>
          (case opt_as option of
             V_enum_index vs _ \<Rightarrow>
               (case find_index_eq value vs 0 of None \<Rightarrow> Inl Exit_Failure
                | Some i \<Rightarrow> Inr (option\<lparr>opt_as := V_enum_index vs i\<rparr>))
           | _ \<Rightarrow> Inl Bad_Conversion)
      | ARGS__TYPE_ENUM_STRING \<Rightarrow>
          (case opt_as option of
             V_enum_string vs _ \<Rightarrow>
               (case find_index_eq value vs 0 of None \<Rightarrow> Inl Exit_Failure
                | Some i \<Rightarrow> Inr (option\<lparr>opt_as := V_enum_string vs (Some (vs ! i))\<rparr>))
           | _ \<Rightarrow> Inl Bad_Conversion)
      | _ \<Rightarrow> cbind (args__strdup E value) (\<lambda>s. Inr (option\<lparr>opt_as := V_string (Some s)\<rparr>)))"

text \<open>
  \<open>free_args\<close> releases the options and the positional arguments and clears the pointers to them; the
  version string is released, but the pointer is kept.
\<close>

definition free_args :: "Args \<Rightarrow> Args cres" where
  "free_args a =
     (case a_version a of
        Ver_Freed \<Rightarrow> Inl Use_After_Free
      | v \<Rightarrow> Inr (a\<lparr>a_options := [], a_positional := None,
                    a_version := (case v of Ver_Live _ \<Rightarrow> Ver_Freed | _ \<Rightarrow> v)\<rparr>))"

section \<open>Numbers\<close>

lemma c_code_char_of: "n < 256 \<Longrightarrow> c_code (char_of n) = n"
  by (simp add: c_code_def)

lemma decimal_step: "10 \<le> n \<Longrightarrow> decimal n = decimal (n div 10) @ [char_of (48 + n mod 10)]"
  by (subst decimal.simps) simp

lemma decimal_digit: "n < 10 \<Longrightarrow> decimal n = [char_of (48 + n)]"
  by (subst decimal.simps) simp

lemma digit_value_char: "d < 10 \<Longrightarrow> digit_value (char_of (48 + d)) = d \<and> c_isdigit (char_of (48 + d))"
  by (simp add: digit_value_def c_isdigit_def c_code_char_of)

lemma decimal_digits: "c \<in> set (decimal n) \<Longrightarrow> c_isdigit c"
proof (induction n rule: decimal.induct)
  case (1 n)
  then show ?case
    by (cases "n < 10") (auto simp: decimal_digit decimal_step digit_value_char)
qed

lemma digits_value_snoc: "digits_value b (ds @ [c]) = digits_value b ds * b + digit_value c"
  by (simp add: digits_value_def)

lemma digits_value_decimal: "digits_value 10 (decimal n) = n"
proof (induction n rule: decimal.induct)
  case (1 n)
  then show ?case
    by (cases "n < 10")
       (simp_all add: decimal_digit decimal_step digits_value_snoc digit_value_char digits_value_def [of _ "[_]"])
qed

lemma decimal_not_Nil: "decimal n \<noteq> []"
  by (cases "n < 10") (simp_all add: decimal_digit decimal_step)

lemma hd_decimal: "0 < n \<Longrightarrow> hd (decimal n) \<noteq> CHR ''0''"
proof (induction n rule: decimal.induct)
  case (1 n)
  show ?case
  proof (cases "n < 10")
    case True
    have "c_code (char_of (48 + n)) = 48 + n" using True by (simp add: c_code_char_of)
    moreover have "c_code CHR ''0'' = 48" by code_simp
    ultimately have "char_of (48 + n) \<noteq> CHR ''0''" using 1(2) by (metis add_cancel_right_right less_numeral_extra(3))
    then show ?thesis using True by (simp add: decimal_digit)
  next
    case False
    then show ?thesis using 1 by (simp add: decimal_step decimal_not_Nil)
  qed
qed

lemma digit_not_space: "c_isdigit c \<Longrightarrow> \<not> c_isspace c \<and> c \<noteq> CHR ''-'' \<and> c \<noteq> CHR ''+''"
  by (auto simp: c_isdigit_def c_isspace_def c_code_def)

lemma digit_value_less: "c_isdigit c \<Longrightarrow> digit_value c < 10"
  by (auto simp: digit_value_def c_isdigit_def)

lemma strtol_decimal:
  assumes "int n \<le> INT64_MAX"
  shows "c_strtol (decimal n) = (int n, [])"
proof (cases "n = 0")
  case True
  have "decimal 0 = ''0''" by code_simp
  moreover have "c_strtol ''0'' = (0, [])" by code_simp
  ultimately show ?thesis using True by simp
next
  case False
  let ?s = "decimal n"
  obtain c r where s: "?s = c # r" using decimal_not_Nil by (cases ?s) auto
  have c: "c_isdigit c" "c \<noteq> CHR ''0''" using decimal_digits [of c n] hd_decimal [of n] False s by simp_all
  have sign: "strtol_sign (dropWhile c_isspace ?s) = (False, ?s)"
    using s digit_not_space [OF c(1)] by (simp add: strtol_sign_def)
  have base: "strtol_base ?s = (10, ?s)" using s c(2) by (simp add: strtol_base_def)
  have all: "takeWhile (\<lambda>c. digit_value c < 10) ?s = ?s"
    using decimal_digits digit_value_less by (auto simp: takeWhile_eq_all_conv)
  have "clamp_long (int n) = int n" using assms by (simp add: clamp_long_def INT64_MAX_def)
  then show ?thesis
    by (simp only: c_strtol_def sign base Let_def prod.case all) (simp add: decimal_not_Nil digits_value_decimal)
qed

text \<open>
  C31. An integer option reads back every number written in decimal, up to the largest \<open>long\<close>, and the
  text of the number alone is enough: nothing else of the option changes.
\<close>

theorem long_option_reads_decimal:
  assumes "opt_type option = ARGS__TYPE_LONG" and "int n \<le> INT64_MAX"
  shows "args__parse_value E option (decimal n) = Inr (option\<lparr>opt_as := V_long (int n)\<rparr>)"
  using assms by (simp add: args__parse_value_def strtol_decimal)

theorem long_option_reads_decimal_witness:
  "opt_type (an_option ''port'' CHR ''p'' ARGS__TYPE_LONG (V_long 8080)) = ARGS__TYPE_LONG \<and> int 443 \<le> INT64_MAX
   \<and> args__parse_value \<lparr>ae_mem = \<lambda>_. True, ae_strtof = \<lambda>s. (Fin 0, s), ae_3f = \<lambda>_. []\<rparr>
        (an_option ''port'' CHR ''p'' ARGS__TYPE_LONG (V_long 8080)) ''443''
       = Inr (an_option ''port'' CHR ''p'' ARGS__TYPE_LONG (V_long 443))"
proof -
  have "decimal 443 = ''443''" by code_simp
  then show ?thesis
    using long_option_reads_decimal [of "an_option ''port'' CHR ''p'' ARGS__TYPE_LONG (V_long 8080)" 443
      "\<lparr>ae_mem = \<lambda>_. True, ae_strtof = \<lambda>s. (Fin 0, s), ae_3f = \<lambda>_. []\<rparr>"]
    by (simp add: an_option_def INT64_MAX_def)
qed

text \<open>An empty value passes as the number 0, because \<open>strtol\<close> then leaves \<open>end\<close> at the end mark.\<close>

lemma empty_value_is_zero:
  "opt_type option = ARGS__TYPE_LONG \<Longrightarrow> args__parse_value E option [] = Inr (option\<lparr>opt_as := V_long 0\<rparr>)"
  by (simp add: args__parse_value_def c_strtol_def strtol_sign_def strtol_base_def)

end
