(* ===== verification/Sm3t_Help.thy ===== *)
theory Sm3t_Help
  imports Sm3t_Options "HOL-Library.Sublist"
begin

text \<open>
  What the argument parser prints (\<open>lib/args.h\<close>): the list of options for the help text, with its
  descriptions broken into lines, and the scripts and suggestions for shell completion. A printing
  function returns the text it writes.
\<close>

section \<open>printf\<close>

definition nl :: char where "nl = CHR 0x0A"
definition quot :: char where "quot = CHR 0x22"
definition apos :: char where "apos = CHR 0x27"
definition bslash :: char where "bslash = CHR 0x5C"

text \<open>\<open>%*c\<close> of a space: at least one, filled up to the width; a negative width fills on the other side.\<close>

definition spaces :: "int \<Rightarrow> string" where
  "spaces w = replicate (max 1 (nat \<bar>w\<bar>)) CHR '' ''"

definition hex_digit :: "nat \<Rightarrow> char" where
  "hex_digit n = (if n < 10 then char_of (48 + n) else char_of (87 + n))"

definition ARGS_PADDING :: nat where "ARGS_PADDING = 2"
definition ARGS_LINE_LENGTH :: nat where "ARGS_LINE_LENGTH = 80"
definition ARGS_MIN_DESCRIPTION_LENGTH :: nat where "ARGS_MIN_DESCRIPTION_LENGTH = 30"

section \<open>The list of options\<close>

definition print_string_char :: "char \<Rightarrow> string" where
  "print_string_char c =
     (if c = CHR 0x0A then [bslash, CHR ''n''] else if c = CHR 0x0D then [bslash, CHR ''r'']
      else if c = CHR 0x09 then [bslash, CHR ''t'']
      else if c_isprint c then [c]
      else [bslash, CHR ''x'', hex_digit (c_code c div 16), hex_digit (c_code c mod 16)])"

definition args__print_string_value :: "string option \<Rightarrow> string" where
  "args__print_string_value s =
     (case s of None \<Rightarrow> ''none''
      | Some s \<Rightarrow> [quot] @ concat (map print_string_char s) @ [quot])"

text \<open>
  The length of the next line of a description: up to a line break or the end of the text; when the
  line is full, back to a space, unless that would leave less than half a line.
\<close>

fun back_to_space :: "string \<Rightarrow> nat \<Rightarrow> nat" where
  "back_to_space cur 0 = 0"
| "back_to_space cur (Suc n) =
     (if Suc n < length cur \<and> cur ! Suc n = CHR '' '' then Suc n else back_to_space cur n)"

definition chunk_length :: "nat \<Rightarrow> string \<Rightarrow> nat" where
  "chunk_length line_length cur =
     (let n = length (takeWhile (\<lambda>c. c \<noteq> nl) (take line_length cur)) in
      if n = line_length
      then let m = back_to_space cur n in if m < line_length div 2 then line_length else m
      else n)"

text \<open>The lines of a description and the text after each: a space or line break that ends one is dropped.\<close>

definition rest_of :: "nat \<Rightarrow> string \<Rightarrow> string" where
  "rest_of n cur =
     (if n < length cur \<and> (cur ! n = CHR '' '' \<or> cur ! n = nl) then drop (n + 1) cur else drop n cur)"

lemma back_to_space_le: "back_to_space cur n \<le> n"
  by (induction n) auto

lemma chunk_length_le: "chunk_length line_length cur \<le> line_length"
proof -
  have "length (takeWhile (\<lambda>c. c \<noteq> nl) (take line_length cur)) \<le> line_length"
    by (metis length_take length_takeWhile_le min.bounded_iff)
  then show ?thesis
    using back_to_space_le [of cur line_length] by (auto simp: chunk_length_def Let_def)
qed

lemma rest_of_shorter:
  assumes "cur \<noteq> []" and "2 \<le> line_length"
  shows "length (rest_of (chunk_length line_length cur) cur) < length cur"
proof (cases "chunk_length line_length cur")
  case 0
  let ?n = "length (takeWhile (\<lambda>c. c \<noteq> nl) (take line_length cur))"
  have "?n = 0" if "?n \<noteq> line_length" using that 0 by (auto simp: chunk_length_def Let_def)
  moreover have False if "?n = line_length"
    using that 0 assms(2) by (auto simp: chunk_length_def Let_def split: if_splits)
  ultimately have "takeWhile (\<lambda>c. c \<noteq> nl) (take line_length cur) = []" by auto
  then have "cur ! 0 = nl" using assms by (cases cur; cases line_length) (auto split: if_splits)
  then show ?thesis using 0 assms(1) by (simp add: rest_of_def)
next
  case (Suc n)
  then show ?thesis using assms(1) by (simp add: rest_of_def)
qed

text \<open>The loop over a description. The line length is at least 30 where it is called; below 2 it could not end.\<close>

function wrap :: "nat \<Rightarrow> string \<Rightarrow> string list" where
  "wrap line_length cur =
     (if cur = [] \<or> line_length < 2 then []
      else let n = chunk_length line_length cur in take n cur # wrap line_length (rest_of n cur))"
  by pat_completeness auto
termination
  by (relation "measure (\<lambda>(w, cur). length cur)") (use rest_of_shorter in auto)

declare wrap.simps [simp del]

definition print_default :: "args_env \<Rightarrow> Args__Option \<Rightarrow> string cres" where
  "print_default E option =
     (case opt_type option of
        ARGS__TYPE_LONG \<Rightarrow> (case opt_default option of D_long n \<Rightarrow> Inr (decimal_int n) | _ \<Rightarrow> Inl Bad_Conversion)
      | ARGS__TYPE_FLOAT \<Rightarrow> (case opt_default option of D_float x \<Rightarrow> Inr (ae_3f E x) | _ \<Rightarrow> Inl Bad_Conversion)
      | ARGS__TYPE_BOOL \<Rightarrow> Inl Exit_Failure
      | _ \<Rightarrow> Inr (args__print_string_value
               (case opt_default option of D_string s \<Rightarrow> Some s | D_enum s \<Rightarrow> Some s | _ \<Rightarrow> None)))"

definition print_option :: "args_env \<Rightarrow> Args \<Rightarrow> Args__Option \<Rightarrow> string cres" where
  "print_option E a option =
     (let offset = 4 + a_max_name_length a + ARGS_PADDING + (if a_have_short a then 4 else 0);
          print_defaults = (\<not> opt_is_required option \<and> opt_type option \<noteq> ARGS__TYPE_BOOL);
          names = ''  '' @ (if opt_short_name option \<noteq> NUL then CHR ''-'' # opt_short_name option # '', ''
                           else if a_have_short a then ''    '' else []) @ ''--'' @ opt_long_name option;
          gap = (if opt_description option \<noteq> None \<or> print_defaults
                 then spaces (int (a_max_name_length a) - int (length (opt_long_name option)) + int ARGS_PADDING)
                 else []);
          line_length = (if ARGS_LINE_LENGTH - offset < ARGS_MIN_DESCRIPTION_LENGTH
                         then ARGS_MIN_DESCRIPTION_LENGTH else ARGS_LINE_LENGTH - offset);
          lines = (case opt_description option of None \<Rightarrow> [] | Some d \<Rightarrow> wrap line_length d);
          body = (case lines of [] \<Rightarrow> []
                  | l # ls \<Rightarrow> l @ concat (map (\<lambda>l. [nl] @ spaces (int offset) @ l) ls)) in
      cbind (if print_defaults
             then cbind (print_default E option) (\<lambda>d.
                    Inr ((if 1 < length lines then [nl] @ spaces (int offset) else '' '') @ ''(default: '' @ d @ '')''))
             else Inr []) (\<lambda>default.
        Inr (names @ gap @ body @ default @ [nl])))"

fun print_option_list :: "args_env \<Rightarrow> Args \<Rightarrow> Args__Option list \<Rightarrow> string cres" where
  "print_option_list E a [] = Inr []"
| "print_option_list E a (option # options) =
     (if opt_is_hidden option then print_option_list E a options
      else cbind (print_option E a option) (\<lambda>s. cbind (print_option_list E a options) (\<lambda>t. Inr (s @ t))))"

definition print_options_text :: "args_env \<Rightarrow> Args \<Rightarrow> string cres" where
  "print_options_text E a = cbind (print_option_list E a (a_options a)) (\<lambda>s. Inr (''Options:'' @ [nl] @ s))"

section \<open>Completion scripts\<close>

definition unlines :: "string list \<Rightarrow> string" where
  "unlines ls = concat (map (\<lambda>l. l @ [nl]) ls)"

definition args__completion_print_escaped :: "string \<Rightarrow> string \<Rightarrow> string" where
  "args__completion_print_escaped s escaped_chars =
     concat (map (\<lambda>c. if c = nl then '' ''
                      else if c \<in> set escaped_chars \<or> c = bslash then [bslash, c] else [c]) s)"

definition args__bash_completion_script :: "string \<Rightarrow> string" where
  "args__bash_completion_script program_name = unlines [
     ''_'' @ program_name @ ''() {'',
     ''    local cur prev words cword'',
     ''    _init_completion || return'',
     [],
     ''    local IFS=$'' @ [apos, bslash] @ ''n'' @ [apos],
     ''    COMPREPLY=( $('' @ program_name @ '' __complete bash '' @ [quot] @ ''$prev'' @ [quot] @ '' '' @ [quot] @ ''$cur''
       @ [quot] @ '' '' @ [quot] @ ''$COLUMNS'' @ [quot] @ '' 2>/dev/null) )'',
     [],
     ''    if [[ ${#COMPREPLY[@]} -eq 1 && '' @ [quot] @ ''${COMPREPLY[0]}'' @ [quot] @ '' == '' @ [quot] @ ''-'' @ [quot] @ '' ]]; then'',
     ''        COMPREPLY=()'',
     ''    elif [[ ${#COMPREPLY[@]} -eq 0 ]]; then'',
     ''        COMPREPLY=( $(compgen -o default -- '' @ [quot] @ ''$cur'' @ [quot] @ '') )'',
     ''    fi'',
     ''}'',
     [],
     ''complete -F _'' @ program_name @ '' '' @ program_name]"

definition args__zsh_completion_script :: "string \<Rightarrow> string" where
  "args__zsh_completion_script program_name = unlines [
     ''#compdef '' @ program_name,
     [],
     ''_'' @ program_name @ ''() {'',
     ''    local IFS=$'' @ [apos, bslash] @ ''n'' @ [apos],
     ''    _arguments $('' @ program_name @ '' __complete zsh 2>/dev/null)'',
     ''}'',
     [],
     ''_'' @ program_name]"

definition args__fish_completion_script :: "string \<Rightarrow> string" where
  "args__fish_completion_script program_name = unlines [
     ''complete -c '' @ program_name @ '' -e'',
     [],
     ''for args in ('' @ program_name @ '' __complete fish 2>/dev/null)'',
     ''    eval '' @ [quot] @ ''complete -c '' @ program_name @ '' $args'' @ [quot],
     ''end'']"

fun program_name_chars :: "bool \<Rightarrow> string \<Rightarrow> bool" where
  "program_name_chars first [] = True"
| "program_name_chars first (c # cs) =
     ((c_isalnum c \<or> c = CHR ''_'' \<or> c = CHR ''.'' \<or> c = CHR ''+'' \<or> c = CHR '':'' \<or> c = CHR ''-'' \<and> \<not> first)
      \<and> program_name_chars False cs)"

text \<open>\<open>argv\<close> starts with the command itself.\<close>

definition args__handle_completion :: "string list \<Rightarrow> string \<Rightarrow> string cres" where
  "args__handle_completion argv program_name =
     (if length argv \<noteq> 2 \<or> \<not> program_name_chars True program_name then Inl Exit_Failure
      else if argv ! 1 = ''bash'' then Inr (args__bash_completion_script program_name)
      else if argv ! 1 = ''zsh'' then Inr (args__zsh_completion_script program_name)
      else if argv ! 1 = ''fish'' then Inr (args__fish_completion_script program_name)
      else Inl Exit_Failure)"

section \<open>Suggestions for bash\<close>

text \<open>A \<open>long\<close> assigned to an \<open>int\<close>.\<close>

definition to_int :: "int \<Rightarrow> int" where
  "to_int n = (n + 2147483648) mod 4294967296 - 2147483648"

fun mark_first_short :: "char \<Rightarrow> Args__Option list \<Rightarrow> Args__Option list" where
  "mark_first_short c [] = []"
| "mark_first_short c (option # options) =
     (if opt_short_name option = c then option\<lparr>opt_is_matching := True\<rparr> # options
      else option # mark_first_short c options)"

text \<open>The options with \<open>is_matching\<close> set, and whether short and long names are printed.\<close>

definition bash_matching :: "string \<Rightarrow> Args__Option list \<Rightarrow> Args__Option list \<times> bool \<times> bool" where
  "bash_matching cur options =
     (let (marked, print_short, print_long) =
        (if length cur = 1 then (map (\<lambda>i. i\<lparr>opt_is_matching := True\<rparr>) options, True, True)
         else if cur ! 1 = CHR ''-''
         then (let name = drop 2 cur in
               (map (\<lambda>i. if length name \<le> length (opt_long_name i) \<and> c_strncmp (length name) (opt_long_name i) name = 0
                         then i\<lparr>opt_is_matching := True\<rparr> else i) options, False, True))
         else if length cur = 2 then (mark_first_short (cur ! 1) options, True, False)
         else (options, True, True))
      in (map (\<lambda>i. if opt_is_hidden i then i\<lparr>opt_is_matching := False\<rparr> else i) marked, print_short, print_long))"

definition bash_option_line ::
  "Args \<Rightarrow> int \<Rightarrow> bool \<Rightarrow> bool \<Rightarrow> nat \<Rightarrow> bool \<Rightarrow> Args__Option \<Rightarrow> string" where
  "bash_option_line a columns print_short print_long matches is_first i =
     (let short = (if print_short \<and> a_have_short a
                   then (if opt_short_name i \<noteq> NUL
                         then [CHR ''-'', opt_short_name i] @ (if print_long then '', '' else [])
                         else ''  '' @ (if print_long then ''  '' else []))
                   else []);
          long = (if print_long then ''--'' @ opt_long_name i else []);
          padding = (if print_long then int (a_max_name_length a) - int (length (opt_long_name i)) else 0);
          (desc, desc_length) =
            (case opt_description i of None \<Rightarrow> ([], 0)
             | Some d \<Rightarrow> ((if 0 < padding then spaces padding else []) @ '' -- '' @ args__completion_print_escaped d [],
                         (if 0 < padding then padding else 0) + 4 + int (length d)));
          len = int (length short) + int (length long) + desc_length in
      short @ long @
      (if 1 < matches then desc @ (if is_first \<and> len < columns then spaces (columns - len) else []) else []) @ [nl])"

fun bash_option_lines ::
  "Args \<Rightarrow> int \<Rightarrow> bool \<Rightarrow> bool \<Rightarrow> nat \<Rightarrow> bool \<Rightarrow> Args__Option list \<Rightarrow> string" where
  "bash_option_lines a columns ps pl matches is_first [] = []"
| "bash_option_lines a columns ps pl matches is_first (i # is) =
     (if opt_is_matching i
      then bash_option_line a columns ps pl matches is_first i
             @ bash_option_lines a columns ps pl matches (if 1 < matches then False else is_first) is
      else bash_option_lines a columns ps pl matches is_first is)"

text \<open>The option whose value is completed: that of a long name, or the last of a stack of flags.\<close>

fun bash_stacked :: "Args__Option list \<Rightarrow> string \<Rightarrow> Args__Option option" where
  "bash_stacked options [] = None"
| "bash_stacked options (c # cs) =
     (case find (\<lambda>i. opt_short_name i = c) options of
        None \<Rightarrow> None
      | Some i \<Rightarrow> if cs = [] then Some i else if opt_type i \<noteq> ARGS__TYPE_BOOL then None else bash_stacked options cs)"

definition bash_previous :: "Args__Option list \<Rightarrow> string \<Rightarrow> Args__Option option" where
  "bash_previous options prev =
     (if prev ! 1 = CHR ''-''
      then find (\<lambda>i. length (opt_long_name i) = length (drop 2 prev)
                   \<and> c_strncmp (length (drop 2 prev)) (opt_long_name i) (drop 2 prev) = 0) options
      else bash_stacked options (tl prev))"

definition enum_values :: "Args__Option \<Rightarrow> string list" where
  "enum_values i = (case opt_as i of V_enum_index vs _ \<Rightarrow> vs | V_enum_string vs _ \<Rightarrow> vs | _ \<Rightarrow> [])"

definition is_enum :: "Args__Option \<Rightarrow> bool" where
  "is_enum i \<longleftrightarrow> opt_type i = ARGS__TYPE_ENUM_INDEX \<or> opt_type i = ARGS__TYPE_ENUM_STRING"

definition bash_values :: "Args__Option \<Rightarrow> string \<Rightarrow> string" where
  "bash_values i cur =
     (if is_enum i
      then concat (map (\<lambda>v. if length cur \<le> length v \<and> map c_tolower (take (length cur) v) = map c_tolower cur
                            then v @ [nl] else []) (enum_values i))
      else if opt_type i = ARGS__TYPE_PATH then [] else ''-'' @ [nl])"

definition args__bash_complete :: "Args \<Rightarrow> string \<Rightarrow> string \<Rightarrow> string \<Rightarrow> string cres" where
  "args__bash_complete a prev cur columns_string =
     (if 1 \<le> length cur \<and> cur ! 0 = CHR ''-''
      then let (n, rest) = c_strtol columns_string in
        cbind (i64 (n - 1)) (\<lambda>n.
          let columns = to_int n in
          if rest \<noteq> [] \<or> columns \<le> 0 then Inl Exit_Failure
          else let (options, print_short, print_long) = bash_matching cur (a_options a);
                   matches = length (filter opt_is_matching options) in
            Inr (bash_option_lines a columns print_short print_long matches True options))
      else if 2 \<le> length prev \<and> prev ! 0 = CHR ''-''
      then Inr (case bash_previous (a_options a) prev of None \<Rightarrow> [] | Some i \<Rightarrow> bash_values i cur)
      else Inr [])"

section \<open>Suggestions for zsh and fish\<close>

fun sep_concat :: "string \<Rightarrow> string list \<Rightarrow> string" where
  "sep_concat sep [] = []"
| "sep_concat sep [x] = x"
| "sep_concat sep (x # y # xs) = x @ sep @ sep_concat sep (y # xs)"

definition args__zsh_print_option_details :: "Args__Option \<Rightarrow> string" where
  "args__zsh_print_option_details i =
     (case opt_description i of None \<Rightarrow> []
      | Some d \<Rightarrow> ''['' @ args__completion_print_escaped d '']'' @ '']'') @
     (if opt_type i = ARGS__TYPE_PATH then '':path:_files''
      else if is_enum i
      then '':'' @ opt_long_name i @ '':('' @
           sep_concat '' '' (map (\<lambda>v. args__completion_print_escaped v '' :()'') (enum_values i)) @ '')''
      else []) @ [nl]"

definition zsh_option :: "Args__Option \<Rightarrow> string" where
  "zsh_option i =
     (if opt_is_hidden i then []
      else (if opt_short_name i \<noteq> NUL
            then ''(-'' @ [opt_short_name i] @ '' --'' @ opt_long_name i @ '')-'' @ [opt_short_name i] @
                 args__zsh_print_option_details i @
                 ''(-'' @ [opt_short_name i] @ '' --'' @ opt_long_name i @ '')''
            else []) @
           ''--'' @ opt_long_name i @ (if opt_type i \<noteq> ARGS__TYPE_BOOL then ''='' else []) @
           args__zsh_print_option_details i)"

definition args__zsh_complete :: "Args \<Rightarrow> string" where
  "args__zsh_complete a = concat (map zsh_option (a_options a)) @ ''*:file:_files'' @ [nl]"

definition args__completion_print_escaped_fish :: "string \<Rightarrow> string" where
  "args__completion_print_escaped_fish s =
     concat (map (\<lambda>c. if c = nl then '' ''
                      else (if c = apos \<or> c = bslash then [bslash, bslash, bslash] else []) @
                           (if c \<in> {CHR '' '', CHR ''$'', quot} then [bslash] else []) @ [c]) s)"

definition fish_option :: "Args__Option \<Rightarrow> string" where
  "fish_option i =
     (if opt_is_hidden i then []
      else ''-l '' @ opt_long_name i @ '' -'' @ (if opt_type i = ARGS__TYPE_PATH then ''F'' else ''f'') @
           (if is_enum i
            then '' -a '' @ [apos] @ sep_concat '' '' (map args__completion_print_escaped_fish (enum_values i)) @ [apos]
            else []) @
           (if opt_short_name i \<noteq> NUL then '' -s '' @ [opt_short_name i] @ '' -r'' else []) @
           (case opt_description i of None \<Rightarrow> []
            | Some d \<Rightarrow> '' -d '' @ [apos] @ args__completion_print_escaped d [apos] @ [apos]) @ [nl])"

definition args__fish_complete :: "Args \<Rightarrow> string" where
  "args__fish_complete a = concat (map fish_option (a_options a))"

definition args__handle_complete :: "Args \<Rightarrow> string list \<Rightarrow> string cres" where
  "args__handle_complete a argv =
     (if length argv = 1 then Inl Exit_Failure
      else if argv ! 1 = ''bash''
      then if length argv \<noteq> 5 then Inl Exit_Failure
           else args__bash_complete a (argv ! 2) (argv ! 3) (argv ! 4)
      else if argv ! 1 = ''zsh'' then if 2 < length argv then Inl Exit_Failure else Inr (args__zsh_complete a)
      else if argv ! 1 = ''fish'' then if 2 < length argv then Inl Exit_Failure else Inr (args__fish_complete a)
      else Inl Exit_Failure)"

section \<open>Wrapping loses nothing\<close>

lemma takeWhile_full:
  assumes "length (takeWhile P (take n xs)) = n"
  shows "n \<le> length xs" and "\<forall>x\<in>set (take n xs). P x"
proof -
  have "length (takeWhile P (take n xs)) \<le> length (take n xs)" by (rule length_takeWhile_le)
  then show "n \<le> length xs" using assms by simp
  then have "takeWhile P (take n xs) = take n xs"
    using assms by (metis length_take min.absorb2 takeWhile_eq_take take_all_iff order_refl)
  then show "\<forall>x\<in>set (take n xs). P x" by (metis set_takeWhileD)
qed

lemma chunk_no_break: "nl \<notin> set (take (chunk_length w cur) cur)"
proof (cases "length (takeWhile (\<lambda>c. c \<noteq> nl) (take w cur)) = w")
  case True
  have "set (take (chunk_length w cur) cur) \<subseteq> set (take w cur)"
    by (rule set_take_subset_set_take [OF chunk_length_le])
  then show ?thesis using takeWhile_full(2) [OF True] by auto
next
  case False
  let ?t = "takeWhile (\<lambda>c. c \<noteq> nl) (take w cur)"
  have n: "chunk_length w cur = length ?t" using False by (simp add: chunk_length_def Let_def)
  have "length ?t \<le> w" by (metis length_take length_takeWhile_le min.bounded_iff)
  then have "take (length ?t) cur = take (length ?t) (take w cur)" by (simp add: min_def)
  also have "\<dots> = ?t" by (rule takeWhile_eq_take [symmetric])
  finally show ?thesis using n by (auto dest: set_takeWhileD)
qed

lemma rest_of_split:
  "\<exists>sep. sep \<in> {[], '' '', [nl]} \<and> cur = take n cur @ sep @ rest_of n cur"
proof (cases "n < length cur \<and> (cur ! n = CHR '' '' \<or> cur ! n = nl)")
  case True
  then have "cur = take n cur @ [cur ! n] @ rest_of n cur" by (simp add: rest_of_def id_take_nth_drop)
  then show ?thesis using True by (intro exI [of _ "[cur ! n]"]) auto
next
  case False
  then have "rest_of n cur = drop n cur" by (auto simp: rest_of_def)
  then show ?thesis by (intro exI [of _ "[]"]) simp
qed

lemma wrap_split:
  assumes "2 \<le> w"
  shows "\<exists>seps. length seps = length (wrap w d) \<and> set seps \<subseteq> {[], '' '', [nl]}
           \<and> d = concat (map2 (@) (wrap w d) seps)"
proof (induction d rule: length_induct)
  case (1 d)
  show ?case
  proof (cases "d = []")
    case True
    then show ?thesis by (simp add: wrap.simps [of w "[]"])
  next
    case False
    let ?n = "chunk_length w d"
    have step: "wrap w d = take ?n d # wrap w (rest_of ?n d)"
      using False assms by (simp add: wrap.simps [of w d] Let_def)
    obtain seps where seps: "length seps = length (wrap w (rest_of ?n d))" "set seps \<subseteq> {[], '' '', [nl]}"
        "rest_of ?n d = concat (map2 (@) (wrap w (rest_of ?n d)) seps)"
      using 1 rest_of_shorter [OF False assms] by blast
    obtain sep where sep: "sep \<in> {[], '' '', [nl]}" "d = take ?n d @ sep @ rest_of ?n d"
      using rest_of_split by blast
    have "concat (map2 (@) (wrap w d) (sep # seps)) = take ?n d @ sep @ rest_of ?n d"
      unfolding step using seps(3) by simp
    then have "d = concat (map2 (@) (wrap w d) (sep # seps))" using sep(2) by simp
    then show ?thesis
      using seps(1,2) sep(1) step by (intro exI [of _ "sep # seps"]) auto
  qed
qed

lemma wrap_lines:
  assumes "l \<in> set (wrap w d)"
  shows "length l \<le> w \<and> nl \<notin> set l"
  using assms
proof (induction d rule: length_induct)
  case (1 d)
  then have d: "d \<noteq> [] \<and> 2 \<le> w" by (auto simp: wrap.simps [of w d] split: if_splits)
  let ?n = "chunk_length w d"
  have "wrap w d = take ?n d # wrap w (rest_of ?n d)" using d by (simp add: wrap.simps [of w d] Let_def)
  then consider "l = take ?n d" | "l \<in> set (wrap w (rest_of ?n d))" using 1(2) by auto
  then show ?case
  proof cases
    case 1
    then show ?thesis using chunk_no_break [of w d] chunk_length_le [of w d] by simp
  next
    case 2
    then show ?thesis using 1(1) rest_of_shorter [of d w] d by blast
  qed
qed

text \<open>
  C33. Breaking a description into lines ends, and loses nothing but the white space at the breaks: no
  line is longer than the line length or contains a line break, and the lines, each followed by a
  space, a line break or nothing, are the description.
\<close>

theorem wrap_keeps_description:
  assumes "2 \<le> line_length"
  shows "(\<forall>l\<in>set (wrap line_length d). length l \<le> line_length \<and> nl \<notin> set l)
       \<and> (\<exists>seps. length seps = length (wrap line_length d) \<and> set seps \<subseteq> {[], '' '', [nl]}
            \<and> d = concat (map2 (@) (wrap line_length d) seps))"
  using wrap_split [OF assms, of d] wrap_lines by blast

theorem wrap_keeps_description_witness:
  "\<exists>seps. length seps = length (wrap 8 ''Show debug info'') \<and> set seps \<subseteq> {[], '' '', [nl]}
     \<and> ''Show debug info'' = concat (map2 (@) (wrap 8 ''Show debug info'') seps)"
  using wrap_keeps_description [of 8 "''Show debug info''"] by simp

section \<open>Escaping for the shell\<close>

text \<open>How a shell reads a word in which a backslash takes away the meaning of the next character.\<close>

fun unescape :: "string \<Rightarrow> string" where
  "unescape [] = []"
| "unescape [c] = [c]"
| "unescape (c # d # s) = (if c = bslash then d # unescape s else c # unescape (d # s))"

lemma unescape_plain: "c \<noteq> bslash \<Longrightarrow> unescape (c # s) = c # unescape s"
  by (cases s) auto


end
