(* ===== verification/Sm3t_Args.thy ===== *)
theory Sm3t_Args
  imports Sm3t_Help
begin

text \<open>
  Parsing of the command line (\<open>parse_args\<close> of \<open>lib/args.h\<close>). The arguments are first turned into a
  vector of parsed options without looking at their values; then flags that end the program early are
  looked for; then the values are converted and stored.

  The text of the help callback is an argument. Parsing ends the process with an error
  (\<open>Exit_Failure\<close>), ends it successfully after printing something, or returns.
\<close>

section \<open>Parsed options\<close>

text \<open>
  A parsed option: a short name, or a long name given as the bytes from its start on and its length;
  the argument it stands in, and its value.
\<close>

record Args__ParsedOption =
  po_is_short :: bool
  po_short_name :: char
  po_start :: string
  po_length :: nat
  po_arg :: string
  po_value :: "string option"

definition short_option :: "char \<Rightarrow> string \<Rightarrow> string option \<Rightarrow> Args__ParsedOption" where
  "short_option c arg value = \<lparr>po_is_short = True, po_short_name = c, po_start = [], po_length = 0,
     po_arg = arg, po_value = value\<rparr>"

definition long_option :: "string \<Rightarrow> nat \<Rightarrow> string \<Rightarrow> string option \<Rightarrow> Args__ParsedOption" where
  "long_option start n arg value = \<lparr>po_is_short = False, po_short_name = NUL, po_start = start,
     po_length = n, po_arg = arg, po_value = value\<rparr>"

record Args__ParsedOptionVec =
  pv_data :: "Args__ParsedOption list"
  pv_capacity :: nat

definition zero_vec :: Args__ParsedOptionVec where
  "zero_vec = \<lparr>pv_data = [], pv_capacity = 0\<rparr>"

text \<open>An element takes 40 bytes.\<close>

definition args__parsed_vec_push ::
  "args_env \<Rightarrow> Args__ParsedOptionVec \<Rightarrow> Args__ParsedOption \<Rightarrow> Args__ParsedOptionVec cres" where
  "args__parsed_vec_push E vec element =
     (if pv_capacity vec \<le> length (pv_data vec)
      then let capacity = (if pv_capacity vec = 0 then 8 else pv_capacity vec * 2) in
        if \<not> ae_mem E (capacity * 40) then Inl Exit_Failure
        else Inr \<lparr>pv_data = pv_data vec @ [element], pv_capacity = capacity\<rparr>
      else Inr (vec\<lparr>pv_data := pv_data vec @ [element]\<rparr>))"

definition option_matches :: "Args__ParsedOption \<Rightarrow> Args__Option \<Rightarrow> bool" where
  "option_matches p i \<longleftrightarrow>
     (if po_is_short p then opt_short_name i = po_short_name p
      else c_strncmp (po_length p) (opt_long_name i) (po_start p) = 0)"

definition args__find_option :: "Args__Option list \<Rightarrow> Args__ParsedOption \<Rightarrow> Args__Option option" where
  "args__find_option options p = find (option_matches p) options"

section \<open>The first pass\<close>

text \<open>The characters of an argument after a single dash, and the arguments behind it.\<close>

fun parse_short ::
  "args_env \<Rightarrow> Args__Option list \<Rightarrow> string \<Rightarrow> string \<Rightarrow> string list \<Rightarrow> Args__ParsedOptionVec
     \<Rightarrow> (string list \<times> Args__ParsedOptionVec) cres" where
  "parse_short E options full_arg [] argv vec = Inr (argv, vec)"
| "parse_short E options full_arg (ch # arg) argv vec =
     (let needs_value = (case args__find_option options (short_option ch full_arg None) of
                           None \<Rightarrow> True | Some i \<Rightarrow> opt_type i \<noteq> ARGS__TYPE_BOOL) in
      if needs_value \<and> arg \<noteq> []
      then cbind (args__parsed_vec_push E vec (short_option ch full_arg (Some arg))) (\<lambda>vec. Inr (argv, vec))
      else if needs_value \<and> argv \<noteq> []
      then cbind (args__parsed_vec_push E vec (short_option ch full_arg (Some (hd argv)))) (\<lambda>vec. Inr (tl argv, vec))
      else cbind (args__parsed_vec_push E vec (short_option ch full_arg None)) (\<lambda>vec.
             parse_short E options full_arg arg argv vec))"

definition parse_long ::
  "args_env \<Rightarrow> Args__Option list \<Rightarrow> string \<Rightarrow> string list \<Rightarrow> Args__ParsedOptionVec
     \<Rightarrow> (string list \<times> Args__ParsedOptionVec) cres" where
  "parse_long E options full_arg argv vec =
     (let arg = drop 2 full_arg; name = takeWhile (\<lambda>c. c \<noteq> CHR ''='') arg in
      if length name < length arg
      then cbind (args__parsed_vec_push E vec
                    (long_option arg (length name) full_arg (Some (drop (length name + 1) arg)))) (\<lambda>vec. Inr (argv, vec))
      else let cur = long_option arg (length name) full_arg None in
        if argv \<noteq> [] \<and> (case args__find_option options cur of None \<Rightarrow> False | Some i \<Rightarrow> opt_type i \<noteq> ARGS__TYPE_BOOL)
        then cbind (args__parsed_vec_push E vec (cur\<lparr>po_value := Some (hd argv)\<rparr>)) (\<lambda>vec. Inr (tl argv, vec))
        else cbind (args__parsed_vec_push E vec cur) (\<lambda>vec. Inr (argv, vec)))"

definition parse_dashed ::
  "args_env \<Rightarrow> Args__Option list \<Rightarrow> string \<Rightarrow> string list \<Rightarrow> Args__ParsedOptionVec
     \<Rightarrow> (string list \<times> Args__ParsedOptionVec) cres" where
  "parse_dashed E options arg argv vec =
     (if arg ! 1 = CHR ''-'' then parse_long E options arg argv vec
      else parse_short E options arg (tl arg) argv vec)"

lemma parse_short_rest: "parse_short E options full arg argv vec = Inr (argv', vec') \<Longrightarrow> suffix argv' argv"
  by (induction arg arbitrary: vec) (auto simp: cbind_eq_Inr Let_def suffix_def split: if_splits intro: exI [of _ "[hd argv]"])

lemma parse_dashed_shorter:
  assumes "parse_dashed E options arg argv vec = Inr (argv', vec')"
  shows "length argv' \<le> length argv"
  using assms parse_short_rest [of E options arg "tl arg" argv vec argv' vec']
  by (auto simp: parse_dashed_def parse_long_def cbind_eq_Inr Let_def split: if_splits dest: suffix_length_le)

function parse_loop ::
  "args_env \<Rightarrow> Args__Option list \<Rightarrow> string list \<Rightarrow> string list \<Rightarrow> Args__ParsedOptionVec
     \<Rightarrow> (string list \<times> Args__ParsedOptionVec) cres" where
  "parse_loop E options [] positional vec = Inr (positional, vec)"
| "parse_loop E options (arg # argv) positional vec =
     (if length arg \<le> 1 \<or> arg ! 0 \<noteq> CHR ''-''
      then parse_loop E options argv (positional @ [arg]) vec
      else cbind (parse_dashed E options arg argv vec) (\<lambda>(argv, vec). parse_loop E options argv positional vec))"
  by pat_completeness auto
termination
  by (relation "measure (\<lambda>(E, options, argv, p, v). length argv)")
     (auto dest: parse_dashed_shorter simp: less_Suc_eq_le)

section \<open>The other passes\<close>

fun duplicate_options :: "Args__Option list \<Rightarrow> bool" where
  "duplicate_options [] = False"
| "duplicate_options (i # options) =
     (list_ex (\<lambda>j. opt_short_name i = opt_short_name j \<and> opt_short_name i \<noteq> NUL
                 \<or> opt_long_name i = opt_long_name j) options
      \<or> duplicate_options options)"

datatype early = Early_Exit string | Early_Return "Args__Option list" | Go_On

text \<open>A write through the pointer to the first option that matches.\<close>

fun update_first :: "(Args__Option \<Rightarrow> bool) \<Rightarrow> (Args__Option \<Rightarrow> Args__Option) \<Rightarrow> Args__Option list \<Rightarrow> Args__Option list" where
  "update_first P f [] = []"
| "update_first P f (i # options) = (if P i then f i # options else i # update_first P f options)"

fun check_early ::
  "(Args \<Rightarrow> string \<Rightarrow> string cres) \<Rightarrow> Args \<Rightarrow> string \<Rightarrow> Args__ParsedOption list \<Rightarrow> early cres" where
  "check_early help a program_name [] = Inr Go_On"
| "check_early help a program_name (p # ps) =
     (case args__find_option (a_options a) p of
        None \<Rightarrow> check_early help a program_name ps
      | Some i \<Rightarrow>
          (case opt_as i of
             V_bool value early_exit is_help is_version \<Rightarrow>
               if opt_type i \<noteq> ARGS__TYPE_BOOL then check_early help a program_name ps
               else if is_help
               then if \<not> a_has_help a then Inl Exit_Failure
                    else cbind (help a program_name) (\<lambda>s. Inr (Early_Exit s))
               else if is_version
               then (case a_version a of Ver_Live v \<Rightarrow> Inr (Early_Exit (v @ [nl])) | _ \<Rightarrow> Inl Exit_Failure)
               else if early_exit
               then Inr (Early_Return (update_first (option_matches p)
                      (\<lambda>i. i\<lparr>opt_as := V_bool True early_exit is_help is_version\<rparr>) (a_options a)))
               else check_early help a program_name ps
           | _ \<Rightarrow> check_early help a program_name ps))"

definition set_option :: "args_env \<Rightarrow> Args__ParsedOption \<Rightarrow> Args__Option \<Rightarrow> Args__Option cres" where
  "set_option E cur option =
     (if opt_is_set option then Inl Exit_Failure
      else let option = option\<lparr>opt_is_set := True\<rparr> in
        if opt_type option = ARGS__TYPE_BOOL
        then (case po_value cur of Some _ \<Rightarrow> Inl Exit_Failure
              | None \<Rightarrow> (case opt_as option of
                  V_bool _ e h v \<Rightarrow> Inr (option\<lparr>opt_as := V_bool True e h v\<rparr>) | _ \<Rightarrow> Inl Bad_Conversion))
        else (case po_value cur of None \<Rightarrow> Inl Exit_Failure | Some value \<Rightarrow> args__parse_value E option value))"

fun store_option :: "args_env \<Rightarrow> Args__ParsedOption \<Rightarrow> Args__Option list \<Rightarrow> Args__Option list cres" where
  "store_option E cur [] = Inl Exit_Failure"
| "store_option E cur (i # options) =
     (if option_matches cur i then cbind (set_option E cur i) (\<lambda>i. Inr (i # options))
      else cbind (store_option E cur options) (\<lambda>options. Inr (i # options)))"

fun store_options :: "args_env \<Rightarrow> Args__ParsedOption list \<Rightarrow> Args__Option list \<Rightarrow> Args__Option list cres" where
  "store_options E [] options = Inr options"
| "store_options E (cur # ps) options = cbind (store_option E cur options) (store_options E ps)"

text \<open>Completion is requested by the first argument: \<open>Some\<close> the text to be printed.\<close>

definition completion :: "Args \<Rightarrow> string list \<Rightarrow> string \<Rightarrow> string option cres" where
  "completion a argv program_name =
     (if argv \<noteq> [] \<and> argv ! 0 = ''completion''
      then cbind (args__handle_completion argv program_name) (\<lambda>s. Inr (Some s))
      else if argv \<noteq> [] \<and> argv ! 0 = ''__complete''
      then cbind (args__handle_complete a argv) (\<lambda>s. Inr (Some s))
      else Inr None)"

datatype parse_outcome = Exit_Success string | Returned nat "string list" Args

text \<open>What follows the first pass.\<close>

definition finish_args ::
  "args_env \<Rightarrow> (Args \<Rightarrow> string \<Rightarrow> string cres) \<Rightarrow> Args \<Rightarrow> string \<Rightarrow> string list \<Rightarrow> Args__ParsedOption list
     \<Rightarrow> parse_outcome cres" where
  "finish_args E help a program_name positional ps =
     cbind (check_early help a program_name ps) (\<lambda>r.
       case r of
         Early_Exit s \<Rightarrow> cbind (free_args a) (\<lambda>_. Inr (Exit_Success s))
       | Early_Return options \<Rightarrow> Inr (Returned (length positional) positional (a\<lparr>a_options := options\<rparr>))
       | Go_On \<Rightarrow>
           cbind (store_options E ps (a_options a)) (\<lambda>options.
             if list_ex (\<lambda>i. opt_is_required i \<and> \<not> opt_is_set i) options then Inl Exit_Failure
             else Inr (Returned (length positional) positional (a\<lparr>a_options := options\<rparr>))))"

definition parse_args ::
  "args_env \<Rightarrow> (Args \<Rightarrow> string \<Rightarrow> string cres) \<Rightarrow> Args \<Rightarrow> string list \<Rightarrow> parse_outcome cres" where
  "parse_args E help a argv =
     (case argv of [] \<Rightarrow> Inl Exit_Failure
      | arg0 # argv \<Rightarrow>
        let a = a\<lparr>a_are_parsed := True\<rparr>; program_name = args__basename arg0 in
        if duplicate_options (a_options a) then Inl Exit_Failure
        else cbind (completion a argv program_name) (\<lambda>printed.
          case printed of Some s \<Rightarrow> cbind (free_args a) (\<lambda>_. Inr (Exit_Success s))
          | None \<Rightarrow>
            if \<not> ae_mem E (8 * length argv) then Inl Exit_Failure
            else cbind (parse_loop E (a_options a) argv [] zero_vec) (\<lambda>(positional, vec).
              finish_args E help (a\<lparr>a_positional := Some positional\<rparr>) program_name positional (pv_data vec))))"

section \<open>Which option is meant\<close>

lemma c_strncmp_prefix: "n \<le> length t \<Longrightarrow> c_strncmp n s t = 0 \<longleftrightarrow> prefix (take n t) s"
proof (induction n s t rule: c_strncmp.induct)
  case (5 n x s y t)
  have "int (c_code x) - int (c_code y) \<noteq> 0" if "x \<noteq> y"
    using that by (auto simp: c_code_def of_char_eq_iff)
  then show ?case using 5 by auto
qed auto

text \<open>
  C32. A long option on the command line means the first option, in the order of definition, whose name
  starts with it: every abbreviation is accepted, also one that fits several options, and the bare
  \<open>--\<close> (as well as \<open>--=\<dots>\<close>) means the first option of all.
\<close>

theorem long_option_by_prefix:
  assumes "n \<le> length start"
  shows "args__find_option options (long_option start n arg value)
           = find (\<lambda>i. prefix (take n start) (opt_long_name i)) options
       \<and> args__find_option (i # options) (long_option start 0 arg value) = Some i"
proof -
  have "option_matches (long_option start n arg value) = (\<lambda>i. prefix (take n start) (opt_long_name i))"
    using c_strncmp_prefix [OF assms] by (auto simp: option_matches_def long_option_def)
  then show ?thesis by (simp add: args__find_option_def option_matches_def long_option_def)
qed

theorem long_option_by_prefix_witness:
  "args__find_option [an_option ''mode'' CHR ''m'' ARGS__TYPE_BOOL (V_bool False False False False),
      an_option ''port'' CHR ''p'' ARGS__TYPE_LONG (V_long 0)] (long_option ''po=1'' 2 ''--po=1'' None)
     = Some (an_option ''port'' CHR ''p'' ARGS__TYPE_LONG (V_long 0))
   \<and> args__find_option [an_option ''port'' CHR ''p'' ARGS__TYPE_LONG (V_long 0)] (long_option ''po=1'' 0 ''--po=1'' None)
     = Some (an_option ''port'' CHR ''p'' ARGS__TYPE_LONG (V_long 0))"
  using long_option_by_prefix [of 2 "''po=1''" "[an_option ''mode'' CHR ''m'' ARGS__TYPE_BOOL (V_bool False False False False),
      an_option ''port'' CHR ''p'' ARGS__TYPE_LONG (V_long 0)]" "''--po=1''" None]
    long_option_by_prefix [of 2 "''po=1''" "[]" "''--po=1''" None "an_option ''port'' CHR ''p'' ARGS__TYPE_LONG (V_long 0)"]
  by (simp add: numeral_eq_Suc an_option_def)

section \<open>What parsing keeps\<close>

text \<open>The members that only the definition of an option sets, and values within their range.\<close>

definition same_option :: "Args__Option \<Rightarrow> Args__Option \<Rightarrow> bool" where
  "same_option i j \<longleftrightarrow> opt_long_name j = opt_long_name i \<and> opt_description j = opt_description i
     \<and> opt_short_name j = opt_short_name i \<and> opt_is_required j = opt_is_required i
     \<and> opt_is_hidden j = opt_is_hidden i \<and> opt_type j = opt_type i \<and> opt_default j = opt_default i
     \<and> enum_values j = enum_values i"

definition value_ok :: "Args__Option \<Rightarrow> bool" where
  "value_ok i \<longleftrightarrow>
     (case opt_as i of
        V_long n \<Rightarrow> opt_type i = ARGS__TYPE_LONG \<and> in_i64 n
      | V_float x \<Rightarrow> opt_type i = ARGS__TYPE_FLOAT
      | V_string s \<Rightarrow> opt_type i = ARGS__TYPE_STRING \<or> opt_type i = ARGS__TYPE_PATH
      | V_bool b e h v \<Rightarrow> opt_type i = ARGS__TYPE_BOOL
      | V_enum_index vs k \<Rightarrow> opt_type i = ARGS__TYPE_ENUM_INDEX \<and> k < length vs
      | V_enum_string vs s \<Rightarrow> opt_type i = ARGS__TYPE_ENUM_STRING \<and> (\<forall>x. s = Some x \<longrightarrow> x \<in> set vs))"

definition option_kept :: "Args__Option \<Rightarrow> Args__Option \<Rightarrow> bool" where
  "option_kept i j \<longleftrightarrow> (value_ok i \<longrightarrow> same_option i j \<and> value_ok j)"

lemma option_kept_refl [simp]: "option_kept i i" by (simp add: option_kept_def same_option_def)

lemma option_kept_trans: "option_kept i j \<Longrightarrow> option_kept j k \<Longrightarrow> option_kept i k"
  by (auto simp: option_kept_def same_option_def)

lemma find_index_eq_bounds: "find_index_eq s vs i = Some k \<Longrightarrow> i \<le> k \<and> k < i + length vs"
  by (induction vs arbitrary: i) (fastforce split: if_splits)+

lemma clamp_long_range: "in_i64 (clamp_long n)"
  by (simp add: clamp_long_def int_range)

lemma strtol_range: "c_strtol s = (n, r) \<Longrightarrow> in_i64 n"
  using clamp_long_range by (auto simp: c_strtol_def Let_def split: prod.splits if_splits) (simp add: int_range)

lemma option_keptI:
  assumes "value_ok i \<Longrightarrow> enum_values (i\<lparr>opt_as := v\<rparr>) = enum_values i \<and> value_ok (i\<lparr>opt_as := v\<rparr>)"
  shows "option_kept i (i\<lparr>opt_as := v\<rparr>)"
  using assms by (simp add: option_kept_def same_option_def)

lemma parse_enum_kept:
  assumes "is_enum i" and "args__parse_value E i s = Inr j"
  shows "option_kept i j"
proof -
  obtain vs k where "find_index_eq s vs 0 = Some k"
    "(\<exists>x. opt_as i = V_enum_index vs x) \<and> j = i\<lparr>opt_as := V_enum_index vs k\<rparr>
     \<or> (\<exists>x. opt_as i = V_enum_string vs x) \<and> j = i\<lparr>opt_as := V_enum_string vs (Some (vs ! k))\<rparr>"
    using assms by (auto simp: is_enum_def args__parse_value_def split: opt_value.splits option.splits)
  then show ?thesis
    using find_index_eq_bounds [of s vs 0 k] by (auto intro!: option_keptI simp: enum_values_def value_ok_def)
qed

lemma parse_value_kept:
  assumes "args__parse_value E i s = Inr j"
  shows "option_kept i j"
proof (cases "is_enum i")
  case True
  then show ?thesis using parse_enum_kept assms by blast
next
  case False
  then have old: "value_ok i \<Longrightarrow> enum_values i = []"
    by (auto simp: value_ok_def enum_values_def is_enum_def split: opt_value.splits)
  obtain v where j: "j = i\<lparr>opt_as := v\<rparr>" and
    v: "opt_type i = ARGS__TYPE_LONG \<and> (\<exists>n. v = V_long n \<and> in_i64 n) \<or> opt_type i = ARGS__TYPE_FLOAT \<and> (\<exists>x. v = V_float x)
      \<or> (opt_type i = ARGS__TYPE_STRING \<or> opt_type i = ARGS__TYPE_PATH) \<and> (\<exists>x. v = V_string x)"
    using assms False strtol_range [of s]
    by (cases "opt_type i")
       (auto simp: args__parse_value_def is_enum_def cbind_eq_Inr split: prod.splits if_splits)
  then show ?thesis using old by (auto intro!: option_keptI simp: enum_values_def value_ok_def)
qed

lemma value_ok_is_set [simp]: "value_ok (i\<lparr>opt_is_set := b\<rparr>) = value_ok i"
  by (cases "opt_as i") (simp_all add: value_ok_def)

lemma enum_values_is_set [simp]: "enum_values (i\<lparr>opt_is_set := b\<rparr>) = enum_values i"
  by (simp add: enum_values_def)

lemma set_option_kept:
  assumes "set_option E cur i = Inr j"
  shows "option_kept i j"
proof (cases "opt_type i = ARGS__TYPE_BOOL")
  case True
  then obtain b e h v where "opt_as i = V_bool b e h v" "j = i\<lparr>opt_is_set := True, opt_as := V_bool True e h v\<rparr>"
    using assms by (auto simp: set_option_def Let_def split: if_splits option.splits opt_value.splits)
  then show ?thesis by (simp add: option_kept_def same_option_def value_ok_def enum_values_def)
next
  case False
  then obtain s where "args__parse_value E (i\<lparr>opt_is_set := True\<rparr>) s = Inr j"
    using assms by (auto simp: set_option_def Let_def split: if_splits option.splits)
  from parse_value_kept [OF this] show ?thesis by (simp add: option_kept_def same_option_def)
qed

lemma options_kept_refl: "list_all2 option_kept options options"
  by (simp add: list_all2_refl)

lemma store_option_kept: "store_option E cur options = Inr options' \<Longrightarrow> list_all2 option_kept options options'"
  by (induction options arbitrary: options')
     (auto simp: cbind_eq_Inr options_kept_refl split: if_splits dest: set_option_kept)

lemma store_options_kept: "store_options E ps options = Inr options' \<Longrightarrow> list_all2 option_kept options options'"
proof (induction ps arbitrary: options)
  case (Cons p ps)
  then obtain options1 where "store_option E p options = Inr options1" "store_options E ps options1 = Inr options'"
    by (auto simp: cbind_eq_Inr)
  then have "list_all2 option_kept options options1" "list_all2 option_kept options1 options'"
    using store_option_kept Cons.IH by simp_all
  then show ?case using list_all2_trans [of option_kept option_kept option_kept] option_kept_trans by blast
qed (simp add: options_kept_refl)

lemma update_first_kept:
  assumes "find P options = Some i" and "option_kept i (f i)"
  shows "list_all2 option_kept options (update_first P f options)"
  using assms by (induction options) (auto simp: options_kept_refl split: if_splits)

lemma check_early_kept:
  "check_early help a prog ps = Inr (Early_Return options') \<Longrightarrow> list_all2 option_kept (a_options a) options'"
proof (induction ps)
  case (Cons p ps)
  show ?case
  proof (cases "\<exists>i b. find (option_matches p) (a_options a) = Some i \<and> opt_type i = ARGS__TYPE_BOOL
      \<and> opt_as i = V_bool b True False False")
    case True
    then obtain i b where i: "find (option_matches p) (a_options a) = Some i" "opt_type i = ARGS__TYPE_BOOL"
      "opt_as i = V_bool b True False False" by blast
    then have "options' = update_first (option_matches p) (\<lambda>i. i\<lparr>opt_as := V_bool True True False False\<rparr>) (a_options a)"
      using Cons.prems by (simp add: args__find_option_def)
    moreover have "option_kept i (i\<lparr>opt_as := V_bool True True False False\<rparr>)"
      using i by (simp add: option_kept_def same_option_def value_ok_def enum_values_def)
    ultimately show ?thesis using update_first_kept [OF i(1)] by simp
  next
    case False
    then have "check_early help a prog ps = Inr (Early_Return options')"
      using Cons.prems
      by (auto simp: args__find_option_def cbind_eq_Inr split: option.splits opt_value.splits if_splits version_ptr.splits)
    then show ?thesis by (rule Cons.IH)
  qed
qed simp

lemma finish_args_kept:
  assumes "finish_args E help a prog positional ps = Inr (Returned n positional' a')"
  shows "list_all2 option_kept (a_options a) (a_options a') \<and> n = length positional'"
proof -
  obtain r where r: "check_early help a prog ps = Inr r" using assms by (auto simp: finish_args_def cbind_eq_Inr)
  then show ?thesis
    using assms check_early_kept [of _ a prog ps]
    by (cases r) (auto simp: finish_args_def cbind_eq_Inr split: if_splits dest: store_options_kept)
qed

lemma parse_args_kept:
  assumes "parse_args E help a argv = Inr (Returned n positional a')" and "list_all value_ok (a_options a)"
  shows "list_all2 same_option (a_options a) (a_options a') \<and> list_all value_ok (a_options a') \<and> n = length positional"
proof -
  obtain b prog vec where fin: "finish_args E help b prog (fst vec) (snd vec) = Inr (Returned n positional a')"
      "a_options b = a_options a"
    using assms(1)
    by (fastforce simp: parse_args_def cbind_eq_Inr Let_def split: list.splits option.splits if_splits)
  from finish_args_kept [OF fin(1)] fin(2) show ?thesis
    using assms(2) by (auto simp: list_all2_conv_all_nth list_all_length option_kept_def)
qed

text \<open>
  C19. When parsing returns, the table of options is the one that was defined, with every value of the
  type of its option and within its range: an integer fits a \<open>long\<close>, an enumeration's index is below
  the number of its values, an enumeration's string is one of them. The count returned is that of the
  positional arguments.
\<close>

theorem parse_args_keeps_options:
  assumes "parse_args E help a argv = Inr (Returned n positional a')" and "list_all value_ok (a_options a)"
  shows "list_all2 same_option (a_options a) (a_options a') \<and> list_all value_ok (a_options a') \<and> n = length positional"
  by (rule parse_args_kept [OF assms])

text \<open>A flag and a number, and a C library for examples.\<close>

definition sample_args :: Args where
  "sample_args = zero_args\<lparr>a_options := [an_option ''debug'' CHR ''d'' ARGS__TYPE_BOOL (V_bool False False False False),
     an_option ''port'' CHR ''p'' ARGS__TYPE_LONG (V_long 8080)]\<rparr>"

definition sample_env :: args_env where
  "sample_env = \<lparr>ae_mem = \<lambda>_. True, ae_strtof = \<lambda>s. (Fin 0, s), ae_3f = \<lambda>_. []\<rparr>"

definition sample_parsed :: Args where
  "sample_parsed = sample_args\<lparr>a_are_parsed := True, a_positional := Some [''file''],
     a_options := [an_option ''debug'' CHR ''d'' ARGS__TYPE_BOOL (V_bool True False False False)\<lparr>opt_is_set := True\<rparr>,
       an_option ''port'' CHR ''p'' ARGS__TYPE_LONG (V_long 443)\<lparr>opt_is_set := True\<rparr>]\<rparr>"

lemma sample_run: "parse_args sample_env (\<lambda>_ _. Inr []) sample_args [''prog'', ''-dp443'', ''file'']
    = Inr (Returned 1 [''file''] sample_parsed)"
  by code_simp

theorem parse_args_keeps_options_witness:
  "list_all2 same_option (a_options sample_args) (a_options sample_parsed) \<and> list_all value_ok (a_options sample_parsed)
   \<and> 1 = length [''file'']"
proof -
  have "list_all value_ok (a_options sample_args)"
    by (simp add: sample_args_def an_option_def value_ok_def int_range)
  from parse_args_keeps_options [OF sample_run this] show ?thesis .
qed

section \<open>The first pass as a function of the arguments\<close>

text \<open>What the first pass does when memory never runs out: the parsed options and the arguments left.\<close>

definition needs_value :: "Args__Option list \<Rightarrow> char \<Rightarrow> bool" where
  "needs_value options c =
     (case find (\<lambda>i. opt_short_name i = c) options of None \<Rightarrow> True | Some i \<Rightarrow> opt_type i \<noteq> ARGS__TYPE_BOOL)"

fun short_pass :: "Args__Option list \<Rightarrow> string \<Rightarrow> string \<Rightarrow> string list \<Rightarrow> Args__ParsedOption list \<times> string list" where
  "short_pass options full [] argv = ([], argv)"
| "short_pass options full (c # cs) argv =
     (if needs_value options c
      then (if cs \<noteq> [] then ([short_option c full (Some cs)], argv)
            else case argv of [] \<Rightarrow> ([short_option c full None], []) | v # argv \<Rightarrow> ([short_option c full (Some v)], argv))
      else let (ps, argv') = short_pass options full cs argv in (short_option c full None # ps, argv'))"

lemma push_ok:
  assumes "\<And>n. ae_mem E n"
  shows "\<exists>vec'. args__parsed_vec_push E vec p = Inr vec' \<and> pv_data vec' = pv_data vec @ [p]"
  using assms by (simp add: args__parsed_vec_push_def Let_def)

lemma find_short: "args__find_option options (short_option c full v) = find (\<lambda>i. opt_short_name i = c) options"
proof -
  have "option_matches (short_option c full v) = (\<lambda>i. opt_short_name i = c)"
    by (auto simp: option_matches_def short_option_def)
  then show ?thesis by (simp add: args__find_option_def)
qed

lemma parse_short_pass:
  assumes mem: "\<And>n. ae_mem E n"
  shows "\<exists>vec'. parse_short E options full cs argv vec = Inr (snd (short_pass options full cs argv), vec')
           \<and> pv_data vec' = pv_data vec @ fst (short_pass options full cs argv)"
proof (induction cs arbitrary: vec)
  case (Cons c cs)
  have nv: "(case args__find_option options (short_option c full None) of None \<Rightarrow> True
      | Some i \<Rightarrow> opt_type i \<noteq> ARGS__TYPE_BOOL) = needs_value options c"
    by (simp add: needs_value_def find_short)
  obtain vec1 where v1: "args__parsed_vec_push E vec (short_option c full None) = Inr vec1"
      "pv_data vec1 = pv_data vec @ [short_option c full None]" using push_ok [OF mem] by blast
  show ?case
  proof (cases "needs_value options c \<and> (cs \<noteq> [] \<or> argv \<noteq> [])")
    case True
    then show ?thesis
      using push_ok [OF mem, of vec "short_option c full (Some (if cs \<noteq> [] then cs else hd argv))"]
      by (cases argv) (auto simp: Let_def nv)
  next
    case False
    then show ?thesis
      using v1 Cons [of vec1] by (cases "needs_value options c") (auto simp: Let_def nv split: prod.splits)
  qed
qed simp

lemma short_pass_flags:
  assumes "\<forall>f\<in>set fs. \<not> needs_value options f"
  shows "short_pass options full (fs @ cs) argv =
           (map (\<lambda>f. short_option f full None) fs @ fst (short_pass options full cs argv),
            snd (short_pass options full cs argv))"
  using assms by (induction fs) (auto split: prod.splits)

lemma short_pass_rest: "suffix (snd (short_pass options full cs argv)) argv"
  by (induction cs) (auto split: prod.splits list.splits intro: suffix_ConsI)

definition long_pass :: "Args__Option list \<Rightarrow> string \<Rightarrow> string list \<Rightarrow> Args__ParsedOption list \<times> string list" where
  "long_pass options full argv =
     (let arg = drop 2 full; name = takeWhile (\<lambda>c. c \<noteq> CHR ''='') arg; n = length name in
      if n < length arg then ([long_option arg n full (Some (drop (n + 1) arg))], argv)
      else if argv \<noteq> [] \<and> (case args__find_option options (long_option arg n full None) of
                             None \<Rightarrow> False | Some i \<Rightarrow> opt_type i \<noteq> ARGS__TYPE_BOOL)
      then ([long_option arg n full (Some (hd argv))], tl argv)
      else ([long_option arg n full None], argv))"

definition dashed_pass :: "Args__Option list \<Rightarrow> string \<Rightarrow> string list \<Rightarrow> Args__ParsedOption list \<times> string list" where
  "dashed_pass options arg argv =
     (if arg ! 1 = CHR ''-'' then long_pass options arg argv else short_pass options arg (tl arg) argv)"

lemma dashed_pass_shorter: "length (snd (dashed_pass options arg argv)) \<le> length argv"
  using suffix_length_le [OF short_pass_rest] by (simp add: dashed_pass_def long_pass_def Let_def)

function first_pass :: "Args__Option list \<Rightarrow> string list \<Rightarrow> string list \<times> Args__ParsedOption list" where
  "first_pass options [] = ([], [])"
| "first_pass options (arg # argv) =
     (if length arg \<le> 1 \<or> arg ! 0 \<noteq> CHR ''-''
      then apfst (Cons arg) (first_pass options argv)
      else apsnd (append (fst (dashed_pass options arg argv))) (first_pass options (snd (dashed_pass options arg argv))))"
  by pat_completeness auto
termination
  by (relation "measure (\<lambda>(options, argv). length argv)") (auto simp: less_Suc_eq_le dashed_pass_shorter)

lemma parse_dashed_pass:
  assumes mem: "\<And>n. ae_mem E n"
  shows "\<exists>vec'. parse_dashed E options arg argv vec = Inr (snd (dashed_pass options arg argv), vec')
           \<and> pv_data vec' = pv_data vec @ fst (dashed_pass options arg argv)"
proof (cases "arg ! 1 = CHR ''-''")
  case True
  have upd: "long_option s n full None\<lparr>po_value := v\<rparr> = long_option s n full v" for s n full v
    by (simp add: long_option_def)
  have "\<exists>p argv'. long_pass options arg argv = ([p], argv')" by (simp add: long_pass_def Let_def)
  then obtain p argv' where p: "long_pass options arg argv = ([p], argv')" by blast
  then have "parse_long E options arg argv vec = cbind (args__parsed_vec_push E vec p) (\<lambda>vec. Inr (argv', vec))"
    by (auto simp: long_pass_def parse_long_def Let_def upd split: if_splits)
  then show ?thesis using push_ok [OF mem, of vec p] p True by (auto simp: parse_dashed_def dashed_pass_def)
next
  case False
  then show ?thesis using parse_short_pass [OF mem] by (simp add: parse_dashed_def dashed_pass_def)
qed

lemma parse_loop_pass:
  assumes mem: "\<And>n. ae_mem E n"
  shows "\<exists>vec'. parse_loop E options argv positional vec = Inr (positional @ fst (first_pass options argv), vec')
           \<and> pv_data vec' = pv_data vec @ snd (first_pass options argv)"
proof (induction options argv arbitrary: positional vec rule: first_pass.induct)
  case (2 options arg argv)
  show ?case
  proof (cases "length arg \<le> 1 \<or> arg ! 0 \<noteq> CHR ''-''")
    case True
    then show ?thesis using 2(1) [of "positional @ [arg]" vec] by auto
  next
    case False
    obtain vec1 where "parse_dashed E options arg argv vec = Inr (snd (dashed_pass options arg argv), vec1)"
        "pv_data vec1 = pv_data vec @ fst (dashed_pass options arg argv)" using parse_dashed_pass [OF mem] by blast
    then show ?thesis using 2(2) [OF False, of positional vec1] False by auto
  qed
qed simp

section \<open>Spellings of the same command line\<close>

text \<open>
  What decides the meaning of a parsed option: not the argument it came from (error messages name it),
  nor what follows a long name.
\<close>

definition core :: "Args__ParsedOption \<Rightarrow> Args__ParsedOption" where
  "core p = p\<lparr>po_arg := [], po_start := take (po_length p) (po_start p)\<rparr>"

lemma c_strncmp_take: "c_strncmp n s (take n t) = c_strncmp n s t"
  by (induction n s t rule: c_strncmp.induct) auto

lemma option_matches_core [simp]: "option_matches (core p) = option_matches p"
  by (rule ext) (simp add: option_matches_def core_def c_strncmp_take)

lemma set_option_core [simp]: "set_option E (core p) i = set_option E p i"
proof -
  have "po_value (core p) = po_value p" by (simp add: core_def)
  then show ?thesis by (simp only: set_option_def)
qed

lemma store_option_core [simp]: "store_option E (core p) options = store_option E p options"
  by (induction options) simp_all

lemma store_options_core: "store_options E (map core ps) options = store_options E ps options"
  by (induction ps arbitrary: options) (simp_all cong: cbind_cong)

lemma check_early_core: "check_early help a prog (map core ps) = check_early help a prog ps"
  by (induction ps) (simp_all only: list.map check_early.simps args__find_option_def option_matches_core)

lemma finish_args_core:
  assumes "map core ps = map core qs"
  shows "finish_args E help a prog positional ps = finish_args E help a prog positional qs"
proof -
  have "check_early help a prog ps = check_early help a prog qs"
    using check_early_core assms by metis
  moreover have "store_options E ps = store_options E qs"
    using store_options_core assms by (metis ext)
  ultimately show ?thesis by (simp only: finish_args_def)
qed

lemma parse_args_pass:
  assumes "\<And>n. ae_mem E n" and "argv \<noteq> []" and "hd argv \<noteq> []" and "hd (hd argv) = CHR ''-''"
    and "first_pass (a_options a) argv = (positional, ps)"
  shows "parse_args E help a (prog # argv) =
     (if duplicate_options (a_options a) then Inl Exit_Failure
      else finish_args E help (a\<lparr>a_are_parsed := True, a_positional := Some positional\<rparr>) (args__basename prog) positional ps)"
proof -
  have "completion b argv pn = Inr None" for b pn
    using assms(2-4) by (cases argv) (auto simp: completion_def)
  then show ?thesis
    using parse_loop_pass [OF assms(1), of "a_options a" argv "[]" zero_vec] assms
    by (auto simp: parse_args_def zero_vec_def)
qed

text \<open>The two spellings lead to the same positional arguments and to equal parsed options.\<close>

lemma parse_args_same:
  assumes "\<And>n. ae_mem E n" and "argv \<noteq> []" "hd argv \<noteq> []" "hd (hd argv) = CHR ''-''"
    and "argv' \<noteq> []" "hd argv' \<noteq> []" "hd (hd argv') = CHR ''-''"
    and "apsnd (map core) (first_pass (a_options a) argv) = apsnd (map core) (first_pass (a_options a) argv')"
  shows "parse_args E help a (prog # argv) = parse_args E help a (prog # argv')"
proof -
  obtain positional ps qs where p: "first_pass (a_options a) argv = (positional, ps)"
      "first_pass (a_options a) argv' = (positional, qs)" "map core ps = map core qs"
    using assms(8) by (cases "first_pass (a_options a) argv", cases "first_pass (a_options a) argv'") auto
  show ?thesis
    using parse_args_pass [OF assms(1-4) p(1)] parse_args_pass [OF assms(1,5-7) p(2)] finish_args_core [OF p(3)] by simp
qed

lemma first_pass_flags:
  assumes "\<forall>f\<in>set fs. \<not> needs_value options f \<and> f \<noteq> CHR ''-''"
  shows "apsnd (map core) (first_pass options (map (\<lambda>f. [CHR ''-'', f]) fs @ argv))
           = apsnd ((@) (map (\<lambda>f. short_option f [] None) fs) \<circ> map core) (first_pass options argv)"
  using assms
proof (induction fs)
  case (Cons f fs)
  have "dashed_pass options [CHR ''-'', f] rest = ([short_option f [CHR ''-'', f] None], rest)" for rest
    using Cons.prems by (simp add: dashed_pass_def)
  then show ?case
    using Cons by (simp add: apsnd_def map_prod_def core_def short_option_def split: prod.splits)
qed (simp add: apsnd_def comp_def)

text \<open>
  C10. Options can be stacked: flags and a last option with its value in one argument
  (\<open>-dp8080\<close>) mean the same command line as the flags, the option and the value written as separate
  arguments (\<open>-d -p 8080\<close>), whatever follows, in every outcome: values, positional arguments, errors.
\<close>

theorem stacked_options_equivalent:
  assumes "\<forall>n. ae_mem E n" and "\<forall>f\<in>set fs. \<not> needs_value (a_options a) f \<and> f \<noteq> CHR ''-''"
    and "needs_value (a_options a) c" and "c \<noteq> CHR ''-''" and "v \<noteq> []"
  shows "parse_args E help a (prog # (CHR ''-'' # fs @ c # v) # argv)
           = parse_args E help a (prog # map (\<lambda>f. [CHR ''-'', f]) fs @ [CHR ''-'', c] # v # argv)"
proof -
  let ?o = "a_options a" and ?full = "CHR ''-'' # fs @ c # v"
  have "?full ! 1 \<noteq> CHR ''-''" using assms(2,4) by (cases fs) auto
  then have "dashed_pass ?o ?full argv
      = (map (\<lambda>f. short_option f ?full None) fs @ [short_option c ?full (Some v)], argv)"
    using assms short_pass_flags [of fs ?o ?full "c # v" argv] by (simp add: dashed_pass_def)
  then have stacked: "apsnd (map core) (first_pass ?o (?full # argv))
      = apsnd ((@) (map (\<lambda>f. short_option f [] None) fs @ [short_option c [] (Some v)]) \<circ> map core) (first_pass ?o argv)"
    using assms(5) by (auto simp: apsnd_def map_prod_def core_def short_option_def split: prod.splits)
  have "dashed_pass ?o [CHR ''-'', c] (v # argv) = ([short_option c [CHR ''-'', c] (Some v)], argv)"
    using assms(3,4) by (simp add: dashed_pass_def)
  then have separate: "apsnd (map core) (first_pass ?o (map (\<lambda>f. [CHR ''-'', f]) fs @ [CHR ''-'', c] # v # argv))
      = apsnd ((@) (map (\<lambda>f. short_option f [] None) fs @ [short_option c [] (Some v)]) \<circ> map core) (first_pass ?o argv)"
    using first_pass_flags [OF assms(2), of "[CHR ''-'', c] # v # argv"]
    by (auto simp: apsnd_def map_prod_def core_def short_option_def split: prod.splits)
  have "hd (map (\<lambda>f. [CHR ''-'', f]) fs @ [CHR ''-'', c] # v # argv) \<noteq> []"
    and "hd (hd (map (\<lambda>f. [CHR ''-'', f]) fs @ [CHR ''-'', c] # v # argv)) = CHR ''-''" by (cases fs; simp)+
  then show ?thesis
    using assms(1) stacked separate by (intro parse_args_same) simp_all
qed

theorem stacked_options_equivalent_witness:
  "parse_args sample_env (\<lambda>_ _. Inr []) sample_args [''prog'', ''-dp443'', ''file'']
     = parse_args sample_env (\<lambda>_ _. Inr []) sample_args [''prog'', ''-d'', ''-p'', ''443'', ''file'']"
  using stacked_options_equivalent [of sample_env "''d''" sample_args "CHR ''p''" "''443''" "\<lambda>_ _. Inr []" "''prog''" "[''file'']"]
  by (simp add: sample_env_def sample_args_def needs_value_def an_option_def)

text \<open>
  C11. The value of a long option that takes one can be joined to its name with \<open>=\<close> or be the next
  argument, also when the name is abbreviated: both command lines have the same outcome.
\<close>

theorem long_value_equivalent:
  assumes "\<forall>n. ae_mem E n" and "CHR ''='' \<notin> set name"
    and "find (\<lambda>i. prefix name (opt_long_name i)) (a_options a) = Some i" and "opt_type i \<noteq> ARGS__TYPE_BOOL"
  shows "parse_args E help a (prog # (''--'' @ name @ CHR ''='' # v) # argv)
           = parse_args E help a (prog # (''--'' @ name) # v # argv)"
proof -
  let ?o = "a_options a" and ?n = "length name"
  have names: "takeWhile (\<lambda>c. c \<noteq> CHR ''='') (name @ CHR ''='' # v) = name" "takeWhile (\<lambda>c. c \<noteq> CHR ''='') name = name"
    using assms(2) by (induction name) auto
  have joined: "dashed_pass ?o (''--'' @ name @ CHR ''='' # v) argv
      = ([long_option (name @ CHR ''='' # v) ?n (''--'' @ name @ CHR ''='' # v) (Some v)], argv)"
    by (simp add: dashed_pass_def long_pass_def names Let_def)
  have "option_matches (long_option name ?n full None) = (\<lambda>i. prefix name (opt_long_name i))" for full
    using c_strncmp_prefix [of ?n name] by (auto simp: option_matches_def long_option_def)
  then have apart: "dashed_pass ?o (''--'' @ name) (v # argv) = ([long_option name ?n (''--'' @ name) (Some v)], argv)"
    using assms(3,4) by (simp add: dashed_pass_def long_pass_def names args__find_option_def)
  have "apsnd (map core) (first_pass ?o ((''--'' @ name @ CHR ''='' # v) # argv))
      = apsnd (map core) (first_pass ?o ((''--'' @ name) # v # argv))"
    using joined apart by (auto simp: apsnd_def map_prod_def core_def long_option_def split: prod.splits)
  then show ?thesis using assms(1) by (intro parse_args_same) simp_all
qed

theorem long_value_equivalent_witness:
  "parse_args sample_env (\<lambda>_ _. Inr []) sample_args [''prog'', ''--po=443'', ''file'']
     = parse_args sample_env (\<lambda>_ _. Inr []) sample_args [''prog'', ''--po'', ''443'', ''file'']"
  using long_value_equivalent [of sample_env "''po''" sample_args
      "an_option ''port'' CHR ''p'' ARGS__TYPE_LONG (V_long 8080)" "\<lambda>_ _. Inr []" "''prog''" "''443''" "[''file'']"]
  by (simp add: sample_env_def sample_args_def an_option_def)

end
