(* ===== verification/Sm3t_Main.thy ===== *)
theory Sm3t_Main
  imports Sm3t_Server
begin

text \<open>
  The entry point (\<open>src/core/sm3tproxy.c\<close>): load the configuration, write the command line's port,
  debug flag and mode into it, run the server. The parsed options are an argument; the argument
  parser (\<open>lib/args.h\<close>) has already applied its defaults.

  A settings store is the contract of the configuration as \<open>main\<close> and the server use it.
\<close>

section \<open>The program\<close>

definition SM3T_DEFAULT_PORT :: int where "SM3T_DEFAULT_PORT = 8080"

record cmd_options =
  o_port :: int
  o_debug :: bool
  o_mode :: nat

definition default_options :: cmd_options where
  "default_options = \<lparr>o_port = SM3T_DEFAULT_PORT, o_debug = False, o_mode = 0\<rparr>"

text \<open>The three writes; their results are ignored.\<close>

definition apply_options :: "'l lua_api \<Rightarrow> (nat \<Rightarrow> bool) \<Rightarrow> cmd_options \<Rightarrow> 'l \<Rightarrow> 'l cres" where
  "apply_options A mem opts L =
     cbind (if o_port opts \<noteq> 0
            then sm3t__set_conf_value A mem L ''tcp.listen.port'' SM3T_CINT (As_int (o_port opts))
            else Inr (False, L)) (\<lambda>(_, L).
     cbind (sm3t__set_conf_value A mem L ''tcp.telemetry.enable'' SM3T_CBOOL (As_bool (o_debug opts))) (\<lambda>(_, L).
     cbind (sm3t__set_conf_value A mem L ''tcp.listen.mode'' SM3T_CINT (As_int (int (o_mode opts)))) (\<lambda>(_, L).
       Inr L)))"

definition sm3t_main ::
  "'l plat \<Rightarrow> (cdouble \<Rightarrow> cdouble) \<Rightarrow> cmd_options \<Rightarrow> int cres option" where
  "sm3t_main P flt opts =
     obind (Some (sm3t__init_conf (p_lua P) flt ''examples/conf.lua'')) (\<lambda>L.
       case L of None \<Rightarrow> Some (Inr 1)
       | Some L \<Rightarrow>
         if o_port opts > UINT16_MAX \<or> o_port opts \<le> 0 then Some (Inl Exit_Failure)
         else obind (Some (apply_options (p_lua P) (p_mem P) opts L)) (\<lambda>L.
           obind (sm3t__run_server P (Some L) \<lparr>m_heap = Map.empty, m_trace = [], m_lua = L\<rparr>) (\<lambda>_.
             Some (Inr 0))))"

section \<open>The contract of a settings store\<close>

locale settings =
  fixes get :: "'s \<Rightarrow> 'k \<Rightarrow> 'v cres"
    and put :: "'s \<Rightarrow> 'k \<Rightarrow> 'v \<Rightarrow> 's cres"
    and ok :: "'s \<Rightarrow> bool"
    and admissible :: "'k \<Rightarrow> 'v \<Rightarrow> bool"
  assumes put_get: "\<lbrakk> ok s; admissible k v \<rbrakk> \<Longrightarrow>
      \<exists>s'. put s k v = Inr s' \<and> ok s' \<and> get s' k = Inr v"
    and put_other: "\<lbrakk> ok s; admissible k v; admissible j w; j \<noteq> k; put s k v = Inr s' \<rbrakk> \<Longrightarrow> get s' j = get s j"
begin

lemma put_all:
  "\<lbrakk> ok s; distinct (map fst kvs); \<forall>(k, v)\<in>set kvs. admissible k v \<rbrakk> \<Longrightarrow>
     \<exists>s'. run_steps (\<lambda>s (k, v). put s k v) s kvs = Inr s' \<and> ok s' \<and> (\<forall>(k, v)\<in>set kvs. get s' k = Inr v)
        \<and> (\<forall>j w. admissible j w \<longrightarrow> j \<notin> fst ` set kvs \<longrightarrow> get s' j = get s j)"
proof (induction kvs arbitrary: s)
  case Nil
  then show ?case by simp
next
  case (Cons kv kvs)
  obtain k v where kv: "kv = (k, v)" by (cases kv)
  have kv': "admissible k v" and kvs: "distinct (map fst kvs)" "\<forall>(k, v)\<in>set kvs. admissible k v" "k \<notin> fst ` set kvs"
    using Cons.prems(2,3) kv by auto
  obtain s1 where s1: "put s k v = Inr s1" "ok s1" "get s1 k = Inr v"
    using put_get [OF Cons.prems(1) kv'] by (elim exE conjE) (rule that)
  obtain s2 where s2: "run_steps (\<lambda>s (k, v). put s k v) s1 kvs = Inr s2" "ok s2"
      "\<forall>(k, v)\<in>set kvs. get s2 k = Inr v" "\<forall>j w. admissible j w \<longrightarrow> j \<notin> fst ` set kvs \<longrightarrow> get s2 j = get s1 j"
    using Cons.IH [OF s1(2) kvs(1,2)] by (elim exE conjE) (rule that)
  have "get s2 k = Inr v" using s2(4) kv' kvs(3) s1(3) by auto
  moreover have "get s2 j = get s j" if "admissible j w" "j \<noteq> k" "j \<notin> fst ` set kvs" for j w
    using s2(4) that put_other [OF Cons.prems(1) kv' that(1,2) s1(1)] by auto
  ultimately show ?case using s1(1) s2(1-3) kv by auto
qed

end

section \<open>The configuration as a settings store\<close>

text \<open>
  The settings the program writes: a path and its type. The tables on the way to them are there and
  different.
\<close>

datatype setting = Listen_Port | Telemetry_Enable | Listen_Mode

fun setting_path :: "setting \<Rightarrow> string" where
  "setting_path Listen_Port = ''tcp.listen.port''"
| "setting_path Telemetry_Enable = ''tcp.telemetry.enable''"
| "setting_path Listen_Mode = ''tcp.listen.mode''"

fun setting_type :: "setting \<Rightarrow> sm3t_type_t" where
  "setting_type Listen_Port = SM3T_CINT"
| "setting_type Telemetry_Enable = SM3T_CBOOL"
| "setting_type Listen_Mode = SM3T_CINT"

definition conf_ready :: "'l lua_api \<Rightarrow> (nat \<Rightarrow> bool) \<Rightarrow> 'l \<Rightarrow> bool" where
  "conf_ready A mem L \<longleftrightarrow> lua_ok A \<and> (\<forall>n. mem n) \<and>
     (\<exists>t u w v. stack_at (l_stack A L) 1 = Some (LTable t) \<and> l_field A L t ''tcp'' = LTable u
        \<and> l_field A L u ''listen'' = LTable w \<and> l_field A L u ''telemetry'' = LTable v
        \<and> distinct [t, u, w, v])"

definition conf_get :: "'l lua_api \<Rightarrow> 'l \<Rightarrow> setting \<Rightarrow> sm3t_value_t option cres" where
  "conf_get A L k = conf_lookup A L (setting_path k) (setting_type k)"

definition conf_put :: "'l lua_api \<Rightarrow> (nat \<Rightarrow> bool) \<Rightarrow> 'l \<Rightarrow> setting \<Rightarrow> sm3t_value_t option \<Rightarrow> 'l cres" where
  "conf_put A mem L k v =
     (case v of None \<Rightarrow> Inl Null_Deref
      | Some v \<Rightarrow> cbind (sm3t__set_conf_value A mem L (setting_path k) (setting_type k) v) (\<lambda>(_, L). Inr L))"

definition conf_storable :: "setting \<Rightarrow> sm3t_value_t option \<Rightarrow> bool" where
  "conf_storable k v = (case v of None \<Rightarrow> False | Some v \<Rightarrow> storable (setting_type k) v)"

lemma setting_tokens:
  "tokens ''tcp.listen.port'' = [''tcp'', ''listen'', ''port'']"
  "tokens ''tcp.telemetry.enable'' = [''tcp'', ''telemetry'', ''enable'']"
  "tokens ''tcp.listen.mode'' = [''tcp'', ''listen'', ''mode'']"
  by (simp_all add: tokens.simps strtok_dot_def)

lemma setting_split_key:
  "split_key ''tcp.listen.port'' = ([''tcp'', ''listen''], ''port'')"
  "split_key ''tcp.telemetry.enable'' = ([''tcp'', ''telemetry''], ''enable'')"
  "split_key ''tcp.listen.mode'' = ([''tcp'', ''listen''], ''mode'')"
  by (simp_all add: split_key_def tokens.simps strtok_dot_def)

text \<open>A write to one of the settings is read back, and the other settings are as before.\<close>

lemma conf_put_effect:
  assumes ok: "conf_ready A mem L" and w: "conf_storable k v"
  shows "\<exists>L'. conf_put A mem L k v = Inr L' \<and> conf_ready A mem L' \<and> conf_get A L' k = Inr v
           \<and> (\<forall>j. j \<noteq> k \<longrightarrow> conf_get A L' j = conf_get A L j)"
proof -
  obtain t u l e where A: "lua_ok A" and mem: "\<And>n. mem n" and t: "stack_at (l_stack A L) 1 = Some (LTable t)"
    and f: "l_field A L t ''tcp'' = LTable u" "l_field A L u ''listen'' = LTable l"
      "l_field A L u ''telemetry'' = LTable e" and d: "distinct [t, u, l, e]"
    using ok by (auto simp: conf_ready_def)
  obtain x where x: "v = Some x" "storable (setting_type k) x" using w by (cases v) (auto simp: conf_storable_def)
  let ?p = "if k = Telemetry_Enable then e else l"
  define ks key where "ks = fst (split_key (setting_path k))" and "key = snd (split_key (setting_path k))"
  have sk: "split_key (setting_path k) = (ks, key)" by (simp add: ks_def key_def)
  have facts: "key \<noteq> []" "walk (l_field A L) (LTable t) ks = Some (LTable ?p)"
      "(?p, key) \<notin> set (walk_reads (l_field A L) (LTable t) ks)"
    using f d sk by (cases k; auto simp: setting_split_key)+
  have reads: "(?p, key) \<notin> set (walk_reads (l_field A L) (LTable t) (tokens (setting_path j)))" if "j \<noteq> k" for j
    using f d sk that by (cases k; cases j) (auto simp: setting_split_key setting_tokens)
  have "\<exists>L'. sm3t__set_conf_value A mem L (setting_path k) (setting_type k) x = Inr (True, L')
      \<and> l_stack A L' = l_stack A L \<and> (\<exists>y. l_field A L' = fld_upd (l_field A L) ?p key y)
      \<and> conf_lookup A L' (setting_path k) (setting_type k) = Inr (Some x)
      \<and> (\<forall>path' type'. (?p, key) \<notin> set (walk_reads (l_field A L) (LTable t) (tokens path'))
           \<longrightarrow> conf_lookup A L' path' type' = conf_lookup A L path' type')"
    by (rule lookup_after_set [OF A mem t sk facts x(2)])
  then obtain L' y where L': "sm3t__set_conf_value A mem L (setting_path k) (setting_type k) x = Inr (True, L')"
      "l_stack A L' = l_stack A L" "l_field A L' = fld_upd (l_field A L) ?p key y"
      "conf_lookup A L' (setting_path k) (setting_type k) = Inr (Some x)"
      "\<forall>path' type'. (?p, key) \<notin> set (walk_reads (l_field A L) (LTable t) (tokens path'))
           \<longrightarrow> conf_lookup A L' path' type' = conf_lookup A L path' type'"
    by (elim exE conjE) (rule that)
  have "conf_ready A mem L'"
    using A mem t f d L'(2,3) unfolding conf_ready_def
    by (intro conjI exI [of _ t] exI [of _ u] exI [of _ l] exI [of _ e]) (auto simp: fld_upd_def)
  moreover have "conf_get A L' j = conf_get A L j" if "j \<noteq> k" for j
    using L'(5) reads [OF that] by (simp add: conf_get_def)
  ultimately show ?thesis using L'(1,4) x(1) by (auto simp: conf_put_def conf_get_def)
qed

interpretation conf: settings "conf_get A" "conf_put A mem" "conf_ready A mem" conf_storable
  for A :: "'l lua_api" and mem
proof unfold_locales
  fix s :: 'l and k v j w s'
  assume "conf_ready A mem s" "conf_storable k v"
  from conf_put_effect [OF this] obtain s1 where s1: "conf_put A mem s k v = Inr s1" "conf_ready A mem s1"
      "conf_get A s1 k = Inr v" "\<forall>j. j \<noteq> k \<longrightarrow> conf_get A s1 j = conf_get A s j" by (elim exE conjE) (rule that)
  then show "\<exists>s'. conf_put A mem s k v = Inr s' \<and> conf_ready A mem s' \<and> conf_get A s' k = Inr v" by blast
  assume "j \<noteq> k" "conf_put A mem s k v = Inr s'"
  then show "conf_get A s' j = conf_get A s j" using s1 by simp
qed

lemma apply_options_puts:
  assumes "o_port opts \<noteq> 0"
  shows "apply_options A mem opts L = run_steps (\<lambda>L (k, v). conf_put A mem L k v) L
           [(Listen_Port, Some (As_int (o_port opts))), (Telemetry_Enable, Some (As_bool (o_debug opts))),
            (Listen_Mode, Some (As_int (int (o_mode opts))))]"
  using assms by (simp add: apply_options_def conf_put_def cbind_assoc case_prod_unfold)

lemma apply_options_effect:
  assumes "conf_ready A mem L" and "0 < o_port opts" and "o_port opts \<le> UINT16_MAX" and "o_mode opts < 3"
  shows "\<exists>L'. apply_options A mem opts L = Inr L' \<and> conf_ready A mem L'
           \<and> conf_lookup A L' ''tcp.listen.port'' SM3T_CINT = Inr (Some (As_int (o_port opts)))
           \<and> conf_lookup A L' ''tcp.telemetry.enable'' SM3T_CBOOL = Inr (Some (As_bool (o_debug opts)))
           \<and> conf_lookup A L' ''tcp.listen.mode'' SM3T_CINT = Inr (Some (As_int (int (o_mode opts))))"
proof -
  let ?kvs = "[(Listen_Port, Some (As_int (o_port opts))), (Telemetry_Enable, Some (As_bool (o_debug opts))),
     (Listen_Mode, Some (As_int (int (o_mode opts))))]"
  have "\<forall>(k, v)\<in>set ?kvs. conf_storable k v"
    using assms(2-4) by (auto simp: conf_storable_def UINT16_MAX_def)
  from conf.put_all [OF assms(1) _ this] obtain L' where
    "run_steps (\<lambda>L (k, v). conf_put A mem L k v) L ?kvs = Inr L'" "conf_ready A mem L'"
    "\<forall>(k, v)\<in>set ?kvs. conf_get A L' k = Inr v" by auto
  then show ?thesis
    using apply_options_puts [of opts A mem L] assms(2) by (auto simp: conf_get_def)
qed

text \<open>
  C20. With a configuration that has the tables on the way, the command line always wins: after the three
  writes the configuration holds the port, the debug flag and the mode of the command line (also when
  they are only defaults), and is still one that the program can read.
\<close>

theorem apply_options_stored:
  assumes "conf_ready A mem L" and "0 < o_port opts" and "o_port opts \<le> UINT16_MAX" and "o_mode opts < 3"
  shows "\<exists>L'. apply_options A mem opts L = Inr L' \<and> conf_ready A mem L'
           \<and> conf_lookup A L' ''tcp.listen.port'' SM3T_CINT = Inr (Some (As_int (o_port opts)))
           \<and> conf_lookup A L' ''tcp.telemetry.enable'' SM3T_CBOOL = Inr (Some (As_bool (o_debug opts)))
           \<and> conf_lookup A L' ''tcp.listen.mode'' SM3T_CINT = Inr (Some (As_int (int (o_mode opts))))"
  by (rule apply_options_effect [OF assms])

end
