(* ===== verification/Sm3t_Logger.thy ===== *)
theory Sm3t_Logger
  imports Sm3t_Prelude "HOL-Library.Sublist"
begin

text \<open>
  The logger (\<open>lib/logger.h\<close>): a table of at most 29 handlers, the first of which is the root handler.
  A message goes to the root handler when its level is high enough, and to every other handler whose
  level is exactly that of the message.

  The global variable \<open>L\<close> is the record \<open>logger\<close>; what a call writes, and the calls of the lock
  function, are a list of events. A function pointer is the name of the function it points to, or
  \<open>None\<close>. From outside come the text of the time (\<open>strftime\<close>), the files that can be opened, and the
  functions a user installs; the text of a message is given as \<open>vfprintf\<close> formats it.
\<close>

section \<open>Types\<close>

definition MAX_HANDLERS :: nat where "MAX_HANDLERS = 29"
definition LOG_TRACE :: nat where "LOG_TRACE = 0"
definition LOG_DEBUG :: nat where "LOG_DEBUG = 1"
definition LOG_INFO :: nat where "LOG_INFO = 2"
definition LOG_WARN :: nat where "LOG_WARN = 3"
definition LOG_ERROR :: nat where "LOG_ERROR = 4"
definition LOG_FATAL :: nat where "LOG_FATAL = 5"
definition ROOT_HANDLER_NAME :: string where "ROOT_HANDLER_NAME = ''root''"
definition DEFAULT_FILE_NAME :: string where "DEFAULT_FILE_NAME = ''logger/program.log''"
definition DEFAULT_FILE_MODE :: string where "DEFAULT_FILE_MODE = ''a''"
definition DEFAULT_DATE_FORMAT1 :: string where "DEFAULT_DATE_FORMAT1 = ''%H:%M:%S''"
definition DEFAULT_DATE_FORMAT3 :: string where "DEFAULT_DATE_FORMAT3 = ''%d/%m/%Y %H:%M:%S''"

datatype stream = Std_Err | Std_Out | File_Stream nat

datatype fmt_fn = Color_Fmt1 | Color_Fmt2 | No_Color_Fmt1 | No_Color_Fmt2 | User_Fmt nat

datatype dump_fn = Dump_Log | User_Dump nat

record log_rec =
  r_level :: nat
  r_file :: string
  r_line :: nat
  r_msg :: string
  r_hd_name :: "string option"
  r_hd_fmt_fn :: "fmt_fn option"
  r_hd_fp :: "stream option"
  r_hd_date_fmt :: "string option"

record log_handler_t =
  h_name :: "string option"
  h_dump_fn :: "dump_fn option"
  h_fmt_fn :: "fmt_fn option"
  h_fp :: "stream option"
  h_level :: nat
  h_quiet :: bool
  h_date_fmt :: "string option"

record logger_t =
  lg_lock :: "nat option"
  lg_handlers :: "log_handler_t list"
  lg_count :: nat

text \<open>The static initial value: every member zero.\<close>

definition zero_handler :: log_handler_t where
  "zero_handler = \<lparr>h_name = None, h_dump_fn = None, h_fmt_fn = None, h_fp = None, h_level = 0,
     h_quiet = False, h_date_fmt = None\<rparr>"

definition static_logger :: logger_t where
  "static_logger = \<lparr>lg_lock = None, lg_handlers = replicate MAX_HANDLERS zero_handler, lg_count = 0\<rparr>"

datatype log_event = Lock_Call nat bool "stream option" | Write_Text stream string

record log_env =
  le_time :: "string \<Rightarrow> string"                          \<comment> \<open>the local time in a format\<close>
  le_fopen :: "string \<Rightarrow> string \<Rightarrow> stream option"
  le_fmt :: "nat \<Rightarrow> log_rec \<Rightarrow> string \<Rightarrow> string"           \<comment> \<open>what a user's format function writes\<close>
  le_dump :: "nat \<Rightarrow> log_rec \<Rightarrow> log_event list"         \<comment> \<open>what a user's dump function writes\<close>

section \<open>Formatting\<close>

definition level_strings :: "string list" where
  "level_strings = [''TRACE'', ''DEBUG'', ''INFO'', ''WARN'', ''ERROR'', ''FATAL'']"

definition esc :: "string \<Rightarrow> string" where
  "esc s = CHR 0x1B # CHR ''['' # s @ ''m''"

definition level_colors :: "string list" where
  "level_colors = map esc [''94'', ''36'', ''32'', ''33'', ''31'', ''35'']"

text \<open>A table lookup by level, and the conversion \<open>%-5s\<close>.\<close>

definition by_level :: "string list \<Rightarrow> nat \<Rightarrow> string cres" where
  "by_level tab level = (if level < length tab then Inr (tab ! level) else Inl Out_Of_Bounds)"

definition left5 :: "string \<Rightarrow> string" where
  "left5 s = s @ replicate (5 - length s) CHR '' ''"

definition str_of :: "string option \<Rightarrow> string cres" where
  "str_of s = (case s of None \<Rightarrow> Inl Null_Deref | Some s \<Rightarrow> Inr s)"

definition color_fmt1 :: "log_rec \<Rightarrow> string \<Rightarrow> string cres" where
  "color_fmt1 rec time_buf =
     cbind (by_level level_colors (r_level rec)) (\<lambda>color.
     cbind (by_level level_strings (r_level rec)) (\<lambda>name.
       Inr (time_buf @ '' '' @ color @ left5 name @ esc ''0'' @ '' '')))"

definition color_fmt2 :: "log_rec \<Rightarrow> string \<Rightarrow> string cres" where
  "color_fmt2 rec time_buf =
     cbind (str_of (r_hd_name rec)) (\<lambda>hd_name.
     cbind (by_level level_colors (r_level rec)) (\<lambda>color.
     cbind (by_level level_strings (r_level rec)) (\<lambda>name.
       Inr (time_buf @ '' ('' @ hd_name @ '') '' @ color @ left5 name @ esc ''0'' @ '' '' @ esc ''90'' @ ''['' @
            r_file rec @ '':'' @ decimal (r_line rec) @ '']:'' @ esc ''0'' @ '' ''))))"

definition no_color_fmt1 :: "log_rec \<Rightarrow> string \<Rightarrow> string cres" where
  "no_color_fmt1 rec time_buf =
     cbind (by_level level_strings (r_level rec)) (\<lambda>name. Inr (time_buf @ '' '' @ left5 name @ '' ''))"

definition no_color_fmt2 :: "log_rec \<Rightarrow> string \<Rightarrow> string cres" where
  "no_color_fmt2 rec time_buf =
     cbind (str_of (r_hd_name rec)) (\<lambda>hd_name.
     cbind (by_level level_strings (r_level rec)) (\<lambda>name.
       Inr (time_buf @ '' ('' @ hd_name @ '') '' @ left5 name @ '' ['' @ r_file rec @ '':'' @
            decimal (r_line rec) @ '']: '')))"

fun call_fmt :: "log_env \<Rightarrow> fmt_fn \<Rightarrow> log_rec \<Rightarrow> string \<Rightarrow> string cres" where
  "call_fmt E Color_Fmt1 rec time_buf = color_fmt1 rec time_buf"
| "call_fmt E Color_Fmt2 rec time_buf = color_fmt2 rec time_buf"
| "call_fmt E No_Color_Fmt1 rec time_buf = no_color_fmt1 rec time_buf"
| "call_fmt E No_Color_Fmt2 rec time_buf = no_color_fmt2 rec time_buf"
| "call_fmt E (User_Fmt i) rec time_buf = Inr (le_fmt E i rec time_buf)"

text \<open>
  \<open>strftime\<close> has 32 bytes; when the text and its end do not fit, the contents of the buffer are
  indeterminate.
\<close>

definition dump_log :: "log_env \<Rightarrow> log_rec \<Rightarrow> log_event list cres" where
  "dump_log E rec =
     cbind (str_of (r_hd_date_fmt rec)) (\<lambda>date_fmt.
       let time_buf = le_time E date_fmt in
       if 32 \<le> length time_buf then Inl Uninit_Read
       else (case (r_hd_fmt_fn rec, r_hd_fp rec) of
               (Some f, Some fp) \<Rightarrow>
                 cbind (call_fmt E f rec time_buf) (\<lambda>head.
                   Inr [Write_Text fp (head @ r_msg rec @ [CHR 0x0A])])
             | _ \<Rightarrow> Inl Null_Deref))"

section \<open>The operations\<close>

definition log_set_lock :: "nat option \<Rightarrow> stream option \<Rightarrow> logger_t \<Rightarrow> logger_t" where
  "log_set_lock fn fp Lg =
     Lg\<lparr>lg_lock := fn, lg_handlers := (lg_handlers Lg)[0 := (lg_handlers Lg ! 0)\<lparr>h_fp := fp\<rparr>]\<rparr>"

definition lock_call :: "bool \<Rightarrow> logger_t \<Rightarrow> log_event list" where
  "lock_call b Lg = (case lg_lock Lg of None \<Rightarrow> [] | Some fn \<Rightarrow> [Lock_Call fn b (h_fp (lg_handlers Lg ! 0))])"

definition init_logger :: "string option \<Rightarrow> bool \<Rightarrow> logger_t \<Rightarrow> logger_t" where
  "init_logger date_fmt quiet Lg =
     Lg\<lparr>lg_handlers := (lg_handlers Lg)[0 := \<lparr>h_name = Some ROOT_HANDLER_NAME, h_dump_fn = Some Dump_Log,
           h_fmt_fn = Some Color_Fmt1, h_fp = Some Std_Err, h_level = LOG_TRACE, h_quiet = quiet,
           h_date_fmt = date_fmt\<rparr>], lg_count := 1\<rparr>"

definition log_add_handler :: "log_handler_t \<Rightarrow> logger_t \<Rightarrow> int \<times> logger_t \<times> log_event list" where
  "log_add_handler h Lg =
     (if lg_count Lg = MAX_HANDLERS
      then (-1, Lg, [Write_Text Std_Err
              (''[Logger C] Maximum number of handlers reached: '' @ decimal MAX_HANDLERS @ [CHR 0x0A])])
      else (0, Lg\<lparr>lg_handlers := (lg_handlers Lg)[lg_count Lg := h], lg_count := lg_count Lg + 1\<rparr>, []))"

text \<open>A failed \<open>assert\<close> aborts the process.\<close>

definition log_add_file_handler ::
  "log_env \<Rightarrow> string option \<Rightarrow> string option \<Rightarrow> nat \<Rightarrow> string option \<Rightarrow> logger_t
     \<Rightarrow> (int \<times> logger_t \<times> log_event list) cres" where
  "log_add_file_handler E filename filemode level name Lg =
     (if \<not> level \<le> LOG_FATAL \<or> name = None then Inl Exit_Failure
      else let filename = (case filename of None \<Rightarrow> DEFAULT_FILE_NAME | Some f \<Rightarrow> f);
               filemode = (case filemode of None \<Rightarrow> DEFAULT_FILE_MODE | Some f \<Rightarrow> f) in
        (case le_fopen E filename filemode of
           None \<Rightarrow> Inr (-1, Lg, [Write_Text Std_Err
             (''[Logger C] Unable to open log file: '' @ filename @ [CHR 0x0A])])
         | Some fp \<Rightarrow> Inr (log_add_handler \<lparr>h_name = name, h_dump_fn = Some Dump_Log, h_fmt_fn = Some No_Color_Fmt1,
             h_fp = Some fp, h_level = level, h_quiet = False, h_date_fmt = Some DEFAULT_DATE_FORMAT3\<rparr> Lg)))"

definition log_add_stream_handler ::
  "stream option \<Rightarrow> nat \<Rightarrow> string option \<Rightarrow> logger_t \<Rightarrow> (int \<times> logger_t \<times> log_event list) cres" where
  "log_add_stream_handler fp level name Lg =
     (if \<not> level \<le> LOG_FATAL \<or> name = None then Inl Exit_Failure
      else Inr (log_add_handler \<lparr>h_name = name, h_dump_fn = Some Dump_Log, h_fmt_fn = Some Color_Fmt1,
             h_fp = Some (case fp of None \<Rightarrow> Std_Err | Some fp \<Rightarrow> fp), h_level = level, h_quiet = False,
             h_date_fmt = Some DEFAULT_DATE_FORMAT1\<rparr> Lg))"

definition update_record :: "log_rec \<Rightarrow> log_handler_t \<Rightarrow> log_rec" where
  "update_record rec h = rec\<lparr>r_hd_name := h_name h, r_hd_fmt_fn := h_fmt_fn h, r_hd_fp := h_fp h,
     r_hd_date_fmt := h_date_fmt h\<rparr>"

definition call_dump :: "log_env \<Rightarrow> log_rec \<Rightarrow> log_handler_t \<Rightarrow> log_event list cres" where
  "call_dump E rec h =
     (case h_dump_fn h of None \<Rightarrow> Inl Null_Deref
      | Some Dump_Log \<Rightarrow> dump_log E (update_record rec h)
      | Some (User_Dump i) \<Rightarrow> Inr (le_dump E i (update_record rec h)))"

primrec log_loop :: "log_env \<Rightarrow> log_rec \<Rightarrow> log_handler_t list \<Rightarrow> log_event list cres" where
  "log_loop E rec [] = Inr []"
| "log_loop E rec (h # hds) =
     (if h_dump_fn h = None then Inr []
      else cbind (if \<not> h_quiet h \<and> r_level rec = h_level h then call_dump E rec h else Inr []) (\<lambda>evs.
           cbind (log_loop E rec hds) (\<lambda>evs'. Inr (evs @ evs'))))"

definition log_message ::
  "log_env \<Rightarrow> nat \<Rightarrow> string \<Rightarrow> nat \<Rightarrow> string \<Rightarrow> logger_t \<Rightarrow> log_event list cres" where
  "log_message E level file line msg Lg =
     (let rec = \<lparr>r_level = level, r_file = file, r_line = line, r_msg = msg, r_hd_name = None,
                 r_hd_fmt_fn = None, r_hd_fp = None, r_hd_date_fmt = None\<rparr>;
          rh = lg_handlers Lg ! 0 in
      cbind (if \<not> h_quiet rh \<and> h_level rh \<le> level then call_dump E rec rh else Inr []) (\<lambda>evs.
      cbind (log_loop E rec (drop 1 (take (lg_count Lg) (lg_handlers Lg)))) (\<lambda>evs'.
        Inr (lock_call True Lg @ evs @ evs' @ lock_call False Lg))))"

text \<open>A member of a handler and the value to be stored there.\<close>

datatype hd_member =
    M_name "string option" | M_dump_fn "dump_fn option" | M_fmt_fn "fmt_fn option" | M_fp "stream option"
  | M_level nat | M_quiet bool | M_date_fmt "string option"

fun member_name :: "hd_member \<Rightarrow> string" where
  "member_name (M_name _) = ''name''"
| "member_name (M_dump_fn _) = ''dump_fn''"
| "member_name (M_fmt_fn _) = ''fmt_fn''"
| "member_name (M_fp _) = ''fp''"
| "member_name (M_level _) = ''level''"
| "member_name (M_quiet _) = ''quiet''"
| "member_name (M_date_fmt _) = ''date_fmt''"

fun store_member :: "hd_member \<Rightarrow> log_handler_t \<Rightarrow> log_handler_t" where
  "store_member (M_name v) h = h\<lparr>h_name := v\<rparr>"
| "store_member (M_dump_fn v) h = h\<lparr>h_dump_fn := v\<rparr>"
| "store_member (M_fmt_fn v) h = h\<lparr>h_fmt_fn := v\<rparr>"
| "store_member (M_fp v) h = h\<lparr>h_fp := v\<rparr>"
| "store_member (M_level v) h = h\<lparr>h_level := v\<rparr>"
| "store_member (M_quiet v) h = h\<lparr>h_quiet := v\<rparr>"
| "store_member (M_date_fmt v) h = h\<lparr>h_date_fmt := v\<rparr>"

definition modifiable_members :: string where
  "modifiable_members = ''dump_fn fmt_fn level quiet date_fmt''"

text \<open>The loop over the handlers in use: \<open>None\<close> when no name matches.\<close>

fun set_first :: "string \<Rightarrow> hd_member \<Rightarrow> log_handler_t list \<Rightarrow> log_handler_t list option cres" where
  "set_first name v [] = Inr None"
| "set_first name v (h # hds) =
     cbind (str_of (h_name h)) (\<lambda>n.
       if n = name then Inr (Some (store_member v h # hds))
       else cbind (set_first name v hds) (\<lambda>r. Inr (map_option (Cons h) r)))"

definition log_set_attribute ::
  "string option \<Rightarrow> hd_member \<Rightarrow> logger_t \<Rightarrow> (logger_t \<times> log_event list) cres" where
  "log_set_attribute name v Lg =
     (let name = (case name of None \<Rightarrow> ROOT_HANDLER_NAME | Some n \<Rightarrow> n) in
      if \<not> sublist (member_name v) modifiable_members
      then Inr (Lg, [Write_Text Std_Err
             (''[Logger C] Handler'' @ [CHR 0x27] @ ''s member can'' @ [CHR 0x27] @ ''t be modified: ''
                @ member_name v @ [CHR 0x0A])])
      else cbind (set_first name v (take (lg_count Lg) (lg_handlers Lg))) (\<lambda>r.
        case r of
          Some hds \<Rightarrow> Inr (Lg\<lparr>lg_handlers := hds @ drop (lg_count Lg) (lg_handlers Lg)\<rparr>, [])
        | None \<Rightarrow> Inr (Lg, [Write_Text Std_Err
            (''[Logger C] Handler'' @ [CHR 0x27] @ ''s name not found: '' @ name @ [CHR 0x0A])])))"

section \<open>The macros\<close>

text \<open>One macro per level and per member of a handler.\<close>

definition log_trace :: "log_env \<Rightarrow> string \<Rightarrow> nat \<Rightarrow> string \<Rightarrow> logger_t \<Rightarrow> log_event list cres" where
  "log_trace E src line msg Lg = log_message E LOG_TRACE src line msg Lg"

definition log_debug :: "log_env \<Rightarrow> string \<Rightarrow> nat \<Rightarrow> string \<Rightarrow> logger_t \<Rightarrow> log_event list cres" where
  "log_debug E src line msg Lg = log_message E LOG_DEBUG src line msg Lg"

definition log_info :: "log_env \<Rightarrow> string \<Rightarrow> nat \<Rightarrow> string \<Rightarrow> logger_t \<Rightarrow> log_event list cres" where
  "log_info E src line msg Lg = log_message E LOG_INFO src line msg Lg"

definition log_warn :: "log_env \<Rightarrow> string \<Rightarrow> nat \<Rightarrow> string \<Rightarrow> logger_t \<Rightarrow> log_event list cres" where
  "log_warn E src line msg Lg = log_message E LOG_WARN src line msg Lg"

definition log_error :: "log_env \<Rightarrow> string \<Rightarrow> nat \<Rightarrow> string \<Rightarrow> logger_t \<Rightarrow> log_event list cres" where
  "log_error E src line msg Lg = log_message E LOG_ERROR src line msg Lg"

definition log_fatal :: "log_env \<Rightarrow> string \<Rightarrow> nat \<Rightarrow> string \<Rightarrow> logger_t \<Rightarrow> log_event list cres" where
  "log_fatal E src line msg Lg = log_message E LOG_FATAL src line msg Lg"

definition log_set_dump_fn :: "string option \<Rightarrow> dump_fn option \<Rightarrow> logger_t \<Rightarrow> (logger_t \<times> log_event list) cres" where
  "log_set_dump_fn name v Lg = log_set_attribute name (M_dump_fn v) Lg"

definition log_set_fmt_fn :: "string option \<Rightarrow> fmt_fn option \<Rightarrow> logger_t \<Rightarrow> (logger_t \<times> log_event list) cres" where
  "log_set_fmt_fn name v Lg = log_set_attribute name (M_fmt_fn v) Lg"

definition log_set_level :: "string option \<Rightarrow> nat \<Rightarrow> logger_t \<Rightarrow> (logger_t \<times> log_event list) cres" where
  "log_set_level name v Lg = log_set_attribute name (M_level v) Lg"

definition log_set_quiet :: "string option \<Rightarrow> bool \<Rightarrow> logger_t \<Rightarrow> (logger_t \<times> log_event list) cres" where
  "log_set_quiet name v Lg = log_set_attribute name (M_quiet v) Lg"

definition log_set_date_fmt :: "string option \<Rightarrow> string option \<Rightarrow> logger_t \<Rightarrow> (logger_t \<times> log_event list) cres" where
  "log_set_date_fmt name v Lg = log_set_attribute name (M_date_fmt v) Lg"

section \<open>Invariant\<close>

text \<open>
  A handler that can be dumped to with the library's function, and a logger that has been initialised.
\<close>

definition usable :: "log_handler_t \<Rightarrow> bool" where
  "usable h \<longleftrightarrow> h_name h \<noteq> None \<and> h_dump_fn h = Some Dump_Log \<and> h_fmt_fn h \<noteq> None
     \<and> h_fp h \<noteq> None \<and> h_date_fmt h \<noteq> None"

definition logger_ok :: "logger_t \<Rightarrow> bool" where
  "logger_ok Lg \<longleftrightarrow> length (lg_handlers Lg) = MAX_HANDLERS \<and> 1 \<le> lg_count Lg \<and> lg_count Lg \<le> MAX_HANDLERS
     \<and> (\<forall>h\<in>set (take (lg_count Lg) (lg_handlers Lg)). usable h)"

text \<open>Values a member may be given.\<close>

fun member_ok :: "hd_member \<Rightarrow> bool" where
  "member_ok (M_dump_fn v) \<longleftrightarrow> v = Some Dump_Log"
| "member_ok (M_fmt_fn v) \<longleftrightarrow> v \<noteq> None"
| "member_ok (M_date_fmt v) \<longleftrightarrow> v \<noteq> None"
| "member_ok _ \<longleftrightarrow> True"

text \<open>One call of the logger's interface; the events are collected.\<close>

datatype log_op =
    Op_Stream "stream option" nat "string option"
  | Op_File "string option" "string option" nat "string option"
  | Op_Set "string option" hd_member
  | Op_Lock "nat option" "stream option"
  | Op_Log nat string nat string

fun log_step :: "log_env \<Rightarrow> logger_t \<times> log_event list \<Rightarrow> log_op \<Rightarrow> (logger_t \<times> log_event list) cres" where
  "log_step E (Lg, out) (Op_Stream fp level name) =
     cbind (log_add_stream_handler fp level name Lg) (\<lambda>(_, Lg, evs). Inr (Lg, out @ evs))"
| "log_step E (Lg, out) (Op_File filename filemode level name) =
     cbind (log_add_file_handler E filename filemode level name Lg) (\<lambda>(_, Lg, evs). Inr (Lg, out @ evs))"
| "log_step E (Lg, out) (Op_Set name v) =
     cbind (log_set_attribute name v Lg) (\<lambda>(Lg, evs). Inr (Lg, out @ evs))"
| "log_step E (Lg, out) (Op_Lock fn fp) = Inr (log_set_lock fn fp Lg, out)"
| "log_step E (Lg, out) (Op_Log level file line msg) =
     cbind (log_message E level file line msg Lg) (\<lambda>evs. Inr (Lg, out @ evs))"

fun op_ok :: "log_op \<Rightarrow> bool" where
  "op_ok (Op_Set name v) \<longleftrightarrow> member_ok v"
| "op_ok (Op_Lock fn fp) \<longleftrightarrow> fp \<noteq> None"
| "op_ok _ \<longleftrightarrow> True"

lemma modifiable:
  "sublist (member_name v) modifiable_members \<longleftrightarrow> (case v of M_name _ \<Rightarrow> False | M_fp _ \<Rightarrow> False | _ \<Rightarrow> True)"
  by (cases v) (simp_all add: modifiable_members_def sublist_code)

lemma store_member_usable:
  "\<lbrakk> usable h; member_ok v; sublist (member_name v) modifiable_members \<rbrakk> \<Longrightarrow> usable (store_member v h)"
  using modifiable [of v] by (cases v) (auto simp: usable_def)

lemma set_first_usable:
  assumes "\<forall>h\<in>set hds. usable h" and "member_ok v" and "sublist (member_name v) modifiable_members"
  shows "\<exists>r. set_first name v hds = Inr r
           \<and> (\<forall>hds'. r = Some hds' \<longrightarrow> length hds' = length hds \<and> (\<forall>h\<in>set hds'. usable h))"
  using assms(1)
proof (induction hds)
  case Nil
  then show ?case by simp
next
  case (Cons h hds)
  then obtain n where n: "h_name h = Some n" by (auto simp: usable_def)
  show ?case
  proof (cases "n = name")
    case True
    then show ?thesis using n Cons.prems store_member_usable [OF _ assms(2,3), of h] by (auto simp: str_of_def)
  next
    case False
    then show ?thesis using n Cons by (auto simp: str_of_def)
  qed
qed

lemma take_update_snoc:
  "n < length xs \<Longrightarrow> take (Suc n) (xs[n := x]) = take n xs @ [x]"
  by (simp add: take_Suc_conv_app_nth)

lemma log_add_handler_ok:
  assumes "logger_ok Lg" and "usable h"
  shows "logger_ok (fst (snd (log_add_handler h Lg)))"
  using assms by (auto simp: logger_ok_def log_add_handler_def take_update_snoc)

lemma log_add_handler_result:
  "\<lbrakk> logger_ok Lg; usable h; log_add_handler h Lg = (r, Lg', evs) \<rbrakk> \<Longrightarrow> logger_ok Lg'"
  using log_add_handler_ok [of Lg h] by simp

lemma log_add_stream_handler_ok:
  assumes "logger_ok Lg" and "log_add_stream_handler fp level name Lg = Inr (r, Lg', evs)"
  shows "logger_ok Lg'"
  using assms(2)
  by (auto simp: log_add_stream_handler_def usable_def dest!: log_add_handler_result [OF assms(1), rotated] split: if_splits)

lemma log_add_file_handler_ok:
  assumes "logger_ok Lg" and "log_add_file_handler E filename filemode level name Lg = Inr (r, Lg', evs)"
  shows "logger_ok Lg'"
  using assms
  by (auto simp: log_add_file_handler_def usable_def Let_def dest!: log_add_handler_result [OF assms(1), rotated]
      split: if_splits option.splits)

lemma log_set_attribute_ok:
  assumes "logger_ok Lg" and "member_ok v"
  shows "\<exists>Lg' evs. log_set_attribute name v Lg = Inr (Lg', evs) \<and> logger_ok Lg'"
proof (cases "sublist (member_name v) modifiable_members")
  case False
  then show ?thesis using assms(1) by (simp add: log_set_attribute_def Let_def)
next
  case True
  let ?n = "case name of None \<Rightarrow> ROOT_HANDLER_NAME | Some n \<Rightarrow> n"
  have "\<forall>h\<in>set (take (lg_count Lg) (lg_handlers Lg)). usable h" using assms(1) by (simp add: logger_ok_def)
  from set_first_usable [OF this assms(2) True, of ?n] obtain r
    where r: "set_first ?n v (take (lg_count Lg) (lg_handlers Lg)) = Inr r"
      "\<forall>hds'. r = Some hds' \<longrightarrow> length hds' = length (take (lg_count Lg) (lg_handlers Lg)) \<and> (\<forall>h\<in>set hds'. usable h)"
    by blast
  show ?thesis
  proof (cases r)
    case None
    then show ?thesis using True r(1) assms(1) by (simp add: log_set_attribute_def Let_def)
  next
    case (Some hds)
    then have "logger_ok (Lg\<lparr>lg_handlers := hds @ drop (lg_count Lg) (lg_handlers Lg)\<rparr>)"
      using r(2) assms(1) by (auto simp: logger_ok_def)
    then show ?thesis using True r(1) Some by (simp add: log_set_attribute_def Let_def)
  qed
qed

lemma log_set_lock_ok:
  assumes "logger_ok Lg" and "fp \<noteq> None"
  shows "logger_ok (log_set_lock fn fp Lg)"
proof -
  obtain h hs where h: "lg_handlers Lg = h # hs" using assms(1) by (cases "lg_handlers Lg") (auto simp: logger_ok_def MAX_HANDLERS_def)
  obtain n where n: "lg_count Lg = Suc n" using assms(1) by (cases "lg_count Lg") (auto simp: logger_ok_def)
  show ?thesis using assms h n by (auto simp: logger_ok_def log_set_lock_def usable_def)
qed

interpretation logger: step_invariant "log_step E" "\<lambda>(Lg, out). logger_ok Lg" "\<lambda>_. op_ok" for E
proof unfold_locales
  fix s op s'
  assume inv: "case s of (Lg, out) \<Rightarrow> logger_ok Lg" and ok: "op_ok op" and step: "log_step E s op = Inr s'"
  obtain Lg out where s: "s = (Lg, out)" by (cases s)
  have Lg: "logger_ok Lg" using inv s by simp
  show "case s' of (Lg, out) \<Rightarrow> logger_ok Lg"
  proof (cases op)
    case (Op_Set name v)
    then show ?thesis using log_set_attribute_ok [OF Lg, of v name] ok step s by auto
  next
    case (Op_Stream fp level name)
    then show ?thesis using step s log_add_stream_handler_ok [OF Lg] by (auto simp: cbind_eq_Inr)
  next
    case (Op_File filename filemode level name)
    then show ?thesis using step s log_add_file_handler_ok [OF Lg] by (auto simp: cbind_eq_Inr)
  next
    case (Op_Lock fn fp)
    then show ?thesis using step s ok log_set_lock_ok [OF Lg, of fp fn] by auto
  next
    case (Op_Log level src line msg)
    then show ?thesis using step s Lg by (auto simp: cbind_eq_Inr)
  qed
qed

section \<open>Where a message goes\<close>

text \<open>The handlers a message reaches, in order, and the line one of them writes.\<close>

definition recipients :: "nat \<Rightarrow> logger_t \<Rightarrow> log_handler_t list" where
  "recipients level Lg =
     filter (\<lambda>h. \<not> h_quiet h \<and> h_level h \<le> level) (take 1 (lg_handlers Lg)) @
     filter (\<lambda>h. \<not> h_quiet h \<and> h_level h = level) (drop 1 (take (lg_count Lg) (lg_handlers Lg)))"

definition log_line :: "log_env \<Rightarrow> log_rec \<Rightarrow> log_handler_t \<Rightarrow> log_event" where
  "log_line E rec h =
     Write_Text (the (h_fp h))
       ((case call_fmt E (the (h_fmt_fn h)) (update_record rec h) (le_time E (the (h_date_fmt h))) of
           Inl _ \<Rightarrow> [] | Inr head \<Rightarrow> head) @ r_msg rec @ [CHR 0x0A])"

definition new_rec :: "nat \<Rightarrow> string \<Rightarrow> nat \<Rightarrow> string \<Rightarrow> log_rec" where
  "new_rec level file line msg = \<lparr>r_level = level, r_file = file, r_line = line, r_msg = msg,
     r_hd_name = None, r_hd_fmt_fn = None, r_hd_fp = None, r_hd_date_fmt = None\<rparr>"

lemma call_fmt_ok:
  assumes "usable h" and "r_level rec \<le> LOG_FATAL"
  shows "is_ok (call_fmt E f (update_record rec h) time_buf)"
  using assms
  by (cases f) (auto simp: color_fmt1_def color_fmt2_def no_color_fmt1_def no_color_fmt2_def by_level_def
      level_colors_def level_strings_def LOG_FATAL_def update_record_def str_of_def usable_def)

lemma call_dump_line:
  assumes "usable h" and "r_level rec \<le> LOG_FATAL" and "\<And>f. length (le_time E f) < 32"
  shows "call_dump E rec h = Inr [log_line E rec h]"
proof -
  obtain f fp d where h: "h_fmt_fn h = Some f" "h_fp h = Some fp" "h_date_fmt h = Some d" "h_dump_fn h = Some Dump_Log"
    using assms(1) by (auto simp: usable_def)
  obtain head where "call_fmt E f (update_record rec h) (le_time E d) = Inr head"
    using call_fmt_ok [OF assms(1,2), of E f "le_time E d"] by (auto simp: is_ok_iff)
  moreover have "r_hd_date_fmt (update_record rec h) = Some d" "r_hd_fmt_fn (update_record rec h) = Some f"
      "r_hd_fp (update_record rec h) = Some fp" "r_msg (update_record rec h) = r_msg rec"
    using h by (simp_all add: update_record_def)
  ultimately show ?thesis
    using h assms(3) [of d] by (simp add: call_dump_def dump_log_def str_of_def log_line_def)
qed

lemma log_loop_lines:
  assumes "\<forall>h\<in>set hs. usable h" and "r_level rec \<le> LOG_FATAL" and "\<And>f. length (le_time E f) < 32"
  shows "log_loop E rec hs = Inr (map (log_line E rec) (filter (\<lambda>h. \<not> h_quiet h \<and> h_level h = r_level rec) hs))"
  using assms(1)
proof (induction hs)
  case (Cons h hs)
  then have "h_dump_fn h \<noteq> None" by (simp add: usable_def)
  moreover have "call_dump E rec h = Inr [log_line E rec h]" using Cons.prems assms by (intro call_dump_line) auto
  ultimately show ?case using Cons by auto
qed simp


text \<open>A log line as the program's macros produce it.\<close>

fun is_message :: "log_op \<Rightarrow> bool" where
  "is_message (Op_Log level file line msg) \<longleftrightarrow> True"
| "is_message _ \<longleftrightarrow> False"

text \<open>
  With the root handler quiet, as it is unless the program was started with the debug flag, no
  sequence of log calls writes anything, whatever their level.
\<close>

lemma quiet_logger_is_silent:
  assumes "\<forall>op\<in>set ops. is_message op"
  shows "run_steps (log_step E) (init_logger d True static_logger, []) ops
       = Inr (init_logger d True static_logger, [])"
proof -
  have "log_message E level src line msg (init_logger d True static_logger) = Inr []" for level src line msg
    by (simp add: log_message_def init_logger_def static_logger_def lock_call_def MAX_HANDLERS_def Let_def numeral_eq_Suc)
  then have "log_step E (init_logger d True static_logger, []) op = Inr (init_logger d True static_logger, [])"
    if "is_message op" for op
    using that by (cases op) auto
  then show ?thesis using assms by (induction ops) auto
qed

text \<open>
  The root handler can be silenced, and its level raised, while the program runs: then messages below
  that level write nothing.
\<close>

lemma set_quiet_silences:
  "log_set_quiet None True (init_logger d q static_logger) = Inr (init_logger d True static_logger, [])"
  by (simp add: log_set_quiet_def log_set_attribute_def init_logger_def static_logger_def modifiable_members_def
      ROOT_HANDLER_NAME_def str_of_def MAX_HANDLERS_def Let_def numeral_eq_Suc sublist_code)

lemma raised_level_filters:
  assumes "log_set_level None LOG_WARN (init_logger d False static_logger) = Inr (Lg, evs)"
  shows "log_trace E src line msg Lg = Inr []" "log_debug E src line msg Lg = Inr []" "log_info E src line msg Lg = Inr []"
  using assms
  by (auto simp: log_set_level_def log_set_attribute_def init_logger_def static_logger_def modifiable_members_def
      ROOT_HANDLER_NAME_def str_of_def MAX_HANDLERS_def Let_def numeral_eq_Suc sublist_code log_trace_def log_debug_def
      log_info_def log_message_def LOG_TRACE_def LOG_DEBUG_def LOG_INFO_def LOG_WARN_def lock_call_def)

text \<open>
  Before \<open>init_logger\<close> has been called, every log call calls through a null pointer.
\<close>

lemma log_before_init_crashes: "log_message E level file line msg static_logger = Inl Null_Deref"
  by (simp add: log_message_def static_logger_def zero_handler_def call_dump_def MAX_HANDLERS_def Let_def numeral_eq_Suc)

section \<open>Inputs\<close>

definition clock_env :: log_env where
  "clock_env = \<lparr>le_time = (\<lambda>f. ''12:00:00''), le_fopen = (\<lambda>f m. Some (File_Stream 0)),
     le_fmt = (\<lambda>i rec s. s), le_dump = (\<lambda>i rec. [])\<rparr>"


end
