(* ===== verification/Sm3t_Cli.thy ===== *)
theory Sm3t_Cli
  imports Sm3t_Args Sm3t_Main Sm3t_Logger
begin

text \<open>
  The program from its command line on (\<open>src/core/sm3tproxy.c\<close>): the options \<open>main\<close> defines, the help
  text, and the whole of \<open>main\<close> on a vector of arguments.
\<close>

section \<open>The options\<close>

definition SM3T_VERSION :: string where "SM3T_VERSION = ''v1.0.0''"

definition define_options :: "args_env \<Rightarrow> Args cres" where
  "define_options E =
     cbind (option_help E zero_args) (\<lambda>a.
     cbind (option_version E a (''sm3tproxy-'' @ SM3T_VERSION)) (\<lambda>a.
     cbind (option_long E a (Some ''port'') (Some ''Specify a local port to run proxy'')
              [oa_short_name_update (\<lambda>_. CHR ''p''), oa_default_update (\<lambda>_. SM3T_DEFAULT_PORT)]) (\<lambda>a.
     cbind (option_flag E a (Some ''debug'') (Some ''Show debug info'') [oa_short_name_update (\<lambda>_. CHR ''d'')]) (\<lambda>a.
       option_enum E a (Some ''mode'') (Some ''Specify proxy server mode'') [''TTCP'', ''TCP'', ''SOCKS5'']
         [oa_short_name_update (\<lambda>_. CHR ''m'')]))))"

definition print_help :: "args_env \<Rightarrow> Args \<Rightarrow> string \<Rightarrow> string cres" where
  "print_help E a program =
     cbind (print_options_text E a) (\<lambda>options.
       Inr (unlines [program @ '' - Is an experimental programmable tcp proxy server'', [], ''Usage:'',
                     ''  '' @ program @ '' [options]'', []]
            @ options
            @ unlines [''   Mode:'', ''        TTCP   - Transparent proxy mode'',
                       ''        TCP    - Forward proxy mode'', ''        SOCKS5 - SOCKS5 proxy mode'']))"

text \<open>The variables \<open>port\<close>, \<open>debug\<close> and \<open>mode\<close> point into the options defined third to fifth.\<close>

definition option_values :: "Args \<Rightarrow> cmd_options cres" where
  "option_values a =
     (case map opt_as (a_options a) of
        [_, _, V_long port, V_bool debug _ _ _, V_enum_index _ mode] \<Rightarrow>
          Inr \<lparr>o_port = port, o_debug = debug, o_mode = mode\<rparr>
      | _ \<Rightarrow> Inl Use_After_Free)"

section \<open>The program\<close>

text \<open>How \<open>main\<close> ends: the parser exits after printing something, or \<open>main\<close> returns; the logger is as \<open>main\<close> left it.\<close>

datatype main_end = Printed string | Main_Returned int logger_t

definition main :: "'l plat \<Rightarrow> (cdouble \<Rightarrow> cdouble) \<Rightarrow> args_env \<Rightarrow> string list \<Rightarrow> main_end cres option" where
  "main P flt E argv =
     obind (Some (define_options E)) (\<lambda>cmd_arg.
     obind (Some (parse_args E (print_help E) cmd_arg argv)) (\<lambda>r.
       case r of Exit_Success s \<Rightarrow> Some (Inr (Printed s))
       | Returned _ _ cmd_arg \<Rightarrow>
         obind (Some (option_values cmd_arg)) (\<lambda>opts.
           let lg = init_logger (Some DEFAULT_DATE_FORMAT3) (\<not> o_debug opts) static_logger in
           obind (sm3t_main P flt opts) (\<lambda>rc.
             if rc \<noteq> 0 then Some (Inr (Main_Returned rc lg))
             else obind (Some (free_args cmd_arg)) (\<lambda>_. Some (Inr (Main_Returned rc lg)))))))"

section \<open>Facts\<close>

definition cli_args :: Args where
  "cli_args = \<lparr>a_options =
     [\<lparr>opt_long_name = ''help'', opt_description = Some ''Show help'', opt_short_name = CHR ''h'', opt_is_required = False,
       opt_is_set = False, opt_is_matching = False, opt_is_hidden = False, opt_type = ARGS__TYPE_BOOL,
       opt_default = D_none, opt_as = V_bool False False True False\<rparr>,
      \<lparr>opt_long_name = ''version'', opt_description = Some ''Print version'', opt_short_name = CHR ''v'',
       opt_is_required = False, opt_is_set = False, opt_is_matching = False, opt_is_hidden = False,
       opt_type = ARGS__TYPE_BOOL, opt_default = D_none, opt_as = V_bool False False False True\<rparr>,
      \<lparr>opt_long_name = ''port'', opt_description = Some ''Specify a local port to run proxy'', opt_short_name = CHR ''p'',
       opt_is_required = False, opt_is_set = False, opt_is_matching = False, opt_is_hidden = False,
       opt_type = ARGS__TYPE_LONG, opt_default = D_long 8080, opt_as = V_long 8080\<rparr>,
      \<lparr>opt_long_name = ''debug'', opt_description = Some ''Show debug info'', opt_short_name = CHR ''d'',
       opt_is_required = False, opt_is_set = False, opt_is_matching = False, opt_is_hidden = False,
       opt_type = ARGS__TYPE_BOOL, opt_default = D_none, opt_as = V_bool False False False False\<rparr>,
      \<lparr>opt_long_name = ''mode'', opt_description = Some ''Specify proxy server mode'', opt_short_name = CHR ''m'',
       opt_is_required = False, opt_is_set = False, opt_is_matching = False, opt_is_hidden = False,
       opt_type = ARGS__TYPE_ENUM_INDEX, opt_default = D_enum ''TTCP'',
       opt_as = V_enum_index [''TTCP'', ''TCP'', ''SOCKS5''] 0\<rparr>],
     a_positional = None, a_are_parsed = False, a_have_short = True, a_max_name_length = 7, a_has_help = True,
     a_version = Ver_Live ''sm3tproxy-v1.0.0''\<rparr>"

text \<open>The checks on names, descriptions and values pass; with enough memory the options are defined.\<close>

lemma cli_names_ok:
  "long_name_chars True ''help''" "long_name_chars True ''version''" "long_name_chars True ''port''"
  "long_name_chars True ''debug''" "long_name_chars True ''mode''"
  "c_isalnum CHR ''h''" "c_isalnum CHR ''v''" "c_isalnum CHR ''p''" "c_isalnum CHR ''d''" "c_isalnum CHR ''m''"
  "list_all description_char ''Show help''" "list_all description_char ''Print version''"
  "list_all description_char ''Specify a local port to run proxy''" "list_all description_char ''Show debug info''"
  "list_all description_char ''Specify proxy server mode''"
  "list_all c_isprint ''TTCP''" "list_all c_isprint ''TCP''" "list_all c_isprint ''SOCKS5''"
  by code_simp+

lemmas define_simps = define_options_def option_long_def option_flag_def option_enum_def zero_or_designated_def option_help_def option_version_def args__option_long_def
  args__option_flag_def args__option_enum_def args__new_option_def args__set_enum_values_def args__strdup_def
  set_last_def NUL_def zero_args_def

lemma define_options_Inr: "define_options E = Inr a \<Longrightarrow> a = cli_args"
  by (auto simp: define_simps cli_names_ok cbind_eq_Inr Let_def cli_args_def SM3T_VERSION_def SM3T_DEFAULT_PORT_def
      split: if_splits)

lemma define_options_mem:
  assumes "\<And>n. ae_mem E n"
  shows "define_options E = Inr cli_args"
  by (simp add: assms define_simps Let_def cli_args_def SM3T_VERSION_def SM3T_DEFAULT_PORT_def
      c_isalnum_def c_isdigit_def c_isalpha_def c_isprint_def description_char_def c_code_def)

lemma cli_args_ok: "list_all value_ok (a_options cli_args)"
  by (simp add: cli_args_def value_ok_def int_range)

text \<open>Five options with the types of the program's: the values can be read, and are in range.\<close>

lemma option_values_ok:
  assumes "list_all2 same_option (a_options cli_args) (a_options a)" and "list_all value_ok (a_options a)"
  shows "\<exists>opts. option_values a = Inr opts \<and> in_i64 (o_port opts) \<and> o_mode opts < 3"
proof -
  obtain o1 o2 o3 o4 o5 where a: "a_options a = [o1, o2, o3, o4, o5]"
    and t: "opt_type o3 = ARGS__TYPE_LONG" "opt_type o4 = ARGS__TYPE_BOOL" "opt_type o5 = ARGS__TYPE_ENUM_INDEX"
      "enum_values o5 = [''TTCP'', ''TCP'', ''SOCKS5'']"
    using assms(1)
    by (auto simp: cli_args_def list_all2_Cons1 same_option_def enum_values_def)
  have v: "value_ok o3" "value_ok o4" "value_ok o5" using assms(2) a by simp_all
  obtain n where "opt_as o3 = V_long n" "in_i64 n" using v(1) t by (auto simp: value_ok_def split: opt_value.splits)
  moreover obtain b x y z where "opt_as o4 = V_bool b x y z"
    using v(2) t by (auto simp: value_ok_def split: opt_value.splits)
  moreover obtain vs k where "opt_as o5 = V_enum_index vs k" "k < 3"
    using v(3) t by (auto simp: value_ok_def enum_values_def split: opt_value.splits)
  ultimately show ?thesis using a by (simp add: option_values_def)
qed

lemma parsed_options_ok:
  assumes "define_options E = Inr a" and "parse_args E (print_help E) a argv = Inr (Returned n positional a')"
  shows "\<exists>opts. option_values a' = Inr opts \<and> in_i64 (o_port opts) \<and> o_mode opts < 3"
  using parse_args_kept [OF assms(2)] define_options_Inr [OF assms(1)] cli_args_ok option_values_ok by blast

text \<open>
  C18. Whatever the command line is, when parsing comes back the three values \<open>main\<close> reads are there
  and in range: the port is a \<open>long\<close>, the mode one of the three modes. So \<open>main\<close> only has to check the
  port.
\<close>

theorem command_line_in_range:
  assumes "define_options E = Inr a" and "parse_args E (print_help E) a argv = Inr (Returned n positional a')"
  shows "\<exists>opts. option_values a' = Inr opts \<and> in_i64 (o_port opts) \<and> o_mode opts < 3"
  by (rule parsed_options_ok [OF assms])

text \<open>What \<open>main\<close> does once the arguments are parsed and the configuration is loaded.\<close>

lemma sm3t_main_effect:
  assumes "sm3t__init_conf (p_lua P) flt ''examples/conf.lua'' = Inr (Some L)" and "conf_ready (p_lua P) (p_mem P) L"
    and "0 < o_port opts" and "o_port opts \<le> UINT16_MAX" and "o_mode opts < 3"
  shows "\<exists>L'. sm3t_main P flt opts = obind (sm3t__run_server P (Some L') \<lparr>m_heap = Map.empty, m_trace = [], m_lua = L'\<rparr>)
                 (\<lambda>_. Some (Inr 0))
         \<and> conf_lookup (p_lua P) L' ''tcp.listen.port'' SM3T_CINT = Inr (Some (As_int (o_port opts)))
         \<and> conf_lookup (p_lua P) L' ''tcp.telemetry.enable'' SM3T_CBOOL = Inr (Some (As_bool (o_debug opts)))
         \<and> conf_lookup (p_lua P) L' ''tcp.listen.mode'' SM3T_CINT = Inr (Some (As_int (int (o_mode opts))))"
proof -
  from apply_options_effect [OF assms(2-5)] obtain L'
    where L': "apply_options (p_lua P) (p_mem P) opts L = Inr L'"
      "conf_lookup (p_lua P) L' ''tcp.listen.port'' SM3T_CINT = Inr (Some (As_int (o_port opts)))"
      "conf_lookup (p_lua P) L' ''tcp.telemetry.enable'' SM3T_CBOOL = Inr (Some (As_bool (o_debug opts)))"
      "conf_lookup (p_lua P) L' ''tcp.listen.mode'' SM3T_CINT = Inr (Some (As_int (int (o_mode opts))))"
    by (elim exE conjE) (rule that)
  then show ?thesis using assms(1,3,4) by (intro exI [of _ L']) (simp add: sm3t_main_def)
qed

text \<open>Parsing \<open>-p\<close> and a number.\<close>

definition cli_parsed :: "int \<Rightarrow> Args" where
  "cli_parsed n = cli_args\<lparr>a_are_parsed := True, a_positional := Some [],
     a_options := (a_options cli_args)[2 := (a_options cli_args ! 2)\<lparr>opt_is_set := True, opt_as := V_long n\<rparr>]\<rparr>"

lemma option_values_parsed: "option_values (cli_parsed n) = Inr \<lparr>o_port = n, o_debug = False, o_mode = 0\<rparr>"
  by (simp add: option_values_def cli_parsed_def cli_args_def)

lemma free_parsed: "\<exists>a. free_args (cli_parsed n) = Inr a"
  by (simp add: free_args_def cli_parsed_def cli_args_def)

lemma parse_port:
  assumes mem: "\<And>n. ae_mem E n" and n: "int n \<le> INT64_MAX"
  shows "parse_args E help cli_args [prog, ''-p'', decimal n] = Inr (Returned 0 [] (cli_parsed (int n)))"
proof -
  have "needs_value (a_options cli_args) CHR ''p''" by (simp add: needs_value_def cli_args_def)
  then have pass: "first_pass (a_options cli_args) [''-p'', decimal n] = ([], [short_option CHR ''p'' ''-p'' (Some (decimal n))])"
    by (simp add: dashed_pass_def)
  have dup: "\<not> duplicate_options (a_options cli_args)" by (simp add: cli_args_def)
  show ?thesis
    using n by (simp add: parse_args_pass [OF mem _ _ _ pass] dup finish_args_def)
      (simp add: cli_args_def cli_parsed_def args__find_option_def option_matches_def short_option_def set_option_def
         args__parse_value_def strtol_decimal)
qed

text \<open>
  C4. From the command line to the server: started as \<open>sm3tproxy -p n\<close> with a port number in decimal,
  the program loads its configuration, and the server runs on a configuration whose port is \<open>n\<close>, whose
  mode is the default one and whose telemetry is off; the value of the file's own settings does not
  matter. When the server ends, so does the program, with status 0 and a silent logger. With a number
  that is no port the program fails.
\<close>

theorem main_serves_on_port:
  assumes "\<forall>k. ae_mem E k" and "sm3t__init_conf (p_lua P) flt ''examples/conf.lua'' = Inr (Some L)"
    and "conf_ready (p_lua P) (p_mem P) L" and "int n \<le> INT64_MAX"
  shows "if 0 < int n \<and> int n \<le> UINT16_MAX
         then (\<exists>L'. main P flt E [prog, ''-p'', decimal n]
                 = obind (sm3t__run_server P (Some L') \<lparr>m_heap = Map.empty, m_trace = [], m_lua = L'\<rparr>)
                     (\<lambda>_. Some (Inr (Main_Returned 0 (init_logger (Some DEFAULT_DATE_FORMAT3) True static_logger))))
             \<and> conf_lookup (p_lua P) L' ''tcp.listen.port'' SM3T_CINT = Inr (Some (As_int (int n)))
             \<and> conf_lookup (p_lua P) L' ''tcp.telemetry.enable'' SM3T_CBOOL = Inr (Some (As_bool False))
             \<and> conf_lookup (p_lua P) L' ''tcp.listen.mode'' SM3T_CINT = Inr (Some (As_int 0)))
         else main P flt E [prog, ''-p'', decimal n] = Some (Inl Exit_Failure)"
proof -
  let ?opts = "\<lparr>o_port = int n, o_debug = False, o_mode = 0\<rparr>"
  let ?lg = "init_logger (Some DEFAULT_DATE_FORMAT3) True static_logger"
  obtain a where free: "free_args (cli_parsed (int n)) = Inr a" using free_parsed by blast
  have main: "main P flt E [prog, ''-p'', decimal n]
      = obind (sm3t_main P flt ?opts) (\<lambda>rc. Some (Inr (Main_Returned rc ?lg)))"
    using assms(1,4) by (simp add: main_def define_options_mem parse_port option_values_parsed free cong: if_cong)
  show ?thesis
  proof (cases "0 < int n \<and> int n \<le> UINT16_MAX")
    case True
    with sm3t_main_effect [OF assms(2,3), of ?opts] obtain L'
      where "sm3t_main P flt ?opts = obind (sm3t__run_server P (Some L') \<lparr>m_heap = Map.empty, m_trace = [], m_lua = L'\<rparr>)
                 (\<lambda>_. Some (Inr 0))"
        "conf_lookup (p_lua P) L' ''tcp.listen.port'' SM3T_CINT = Inr (Some (As_int (int n)))"
        "conf_lookup (p_lua P) L' ''tcp.telemetry.enable'' SM3T_CBOOL = Inr (Some (As_bool False))"
        "conf_lookup (p_lua P) L' ''tcp.listen.mode'' SM3T_CINT = Inr (Some (As_int 0))" by auto
    then show ?thesis using True main by (auto simp: obind_def split: option.splits sum.splits)
  next
    case False
    then show ?thesis using main assms(2) by (auto simp: sm3t_main_def)
  qed
qed

end
