(* ===== verification/Sm3t_Streams.thy ===== *)
theory Sm3t_Streams
  imports Sm3t_Loop
begin

unbundle bit_operations_syntax

text \<open>
  Stream fidelity of the whole server. Many connections are up at once, clients come and go while
  others are served, and descriptors and memory are used again: in every state the event loop
  reaches, each connection that is up has been relayed faithfully in both directions since it was
  set up.
\<close>

lemma opost_any: "opost (\<lambda>_. True) x (\<lambda>_. True)"
  by (cases x) (simp_all add: post_any)

section \<open>Calls that move no bytes\<close>

fun moves :: "syscall \<times> sysret \<Rightarrow> int set" where
  "moves (Sys_Send fd _, _) = {fd}"
| "moves (Sys_Recv fd _, _) = {fd}"
| "moves _ = {}"

lemma moves_none:
  assumes "fd \<notin> moves u"
  shows "sent_by fd u = []" and "recvd_by fd u = []"
  using assms by (cases "(fd, u)" rule: sent_by.cases, auto) (cases "(fd, u)" rule: recvd_by.cases, auto)

lemma no_bytes:
  assumes "ext (\<lambda>u. fd \<notin> moves u) tr tr'" and "t \<le> length tr"
  shows "sent fd (drop t tr') = sent fd (drop t tr)" and "recvd fd (drop t tr') = recvd fd (drop t tr)"
  using assms by (auto simp: ext_def sent_def recvd_def moves_none)

lemma idle_moves: "idle_call F u \<Longrightarrow> moves u = {}"
  by (cases "(F, u)" rule: idle_call.cases) auto

lemma relay_moves: "relay_call e K u \<Longrightarrow> moves u \<subseteq> fst ` K"
  by (cases "(e, K, u)" rule: relay_call.cases) auto

lemma relay_open: "ext (relay_call e K) tr tr' \<Longrightarrow> open_fds tr' = open_fds tr"
proof -
  have "\<forall>u\<in>set us. relay_call e K u \<Longrightarrow> fold open_step us fds = fds" for us fds
  proof (induction us arbitrary: fds)
    case (Cons u us)
    have "open_step u fds = fds" using Cons.prems by (cases "(e, K, u)" rule: relay_call.cases) auto
    then show ?case using Cons by simp
  qed simp
  then show "ext (relay_call e K) tr tr' \<Longrightarrow> open_fds tr' = open_fds tr" by (auto simp: ext_def)
qed

section \<open>Connections that are up\<close>

text \<open>A stretch of the trace and the contexts that leave a connection alone.\<close>

lemma core_same:
  assumes "core c' = core c"
  shows "c_fd c' = c_fd c" and "pending c' = pending c" and "ctx_ok c' = ctx_ok c" and "c_wpartial c' = c_wpartial c"
  using assms by (simp_all add: core_def pending_def ctx_ok_def)

lemma linked_frame:
  assumes l: "linked Q t a b m" and v: "\<And>x. x \<in> {a, b} \<Longrightarrow> vmap m' x = vmap m x \<and> pmap m' x = pmap m x"
    and Q: "Q (m_lua m')" and tr: "\<And>x fd. x \<in> {a, b} \<Longrightarrow> fdmap m x = Some fd \<Longrightarrow> ext (\<lambda>u. fd \<notin> moves u) (m_trace m) (m_trace m')"
  shows "linked Q t a b m'"
proof -
  obtain ca cb where h: "m_heap m a = Some ca" "m_heap m b = Some cb" and p: "peered a b ca cb" and t: "t \<le> length (m_trace m)"
    and r: "relayed (drop t (m_trace m)) ca cb" "relayed (drop t (m_trace m)) cb ca"
    using l by (auto simp: linked_def)
  obtain ca' cb' where h': "m_heap m' a = Some ca'" "m_heap m' b = Some cb'"
    and c: "core ca' = core ca" "core cb' = core cb" "c_peer ca' = c_peer ca" "c_peer cb' = c_peer cb"
    using v [of a] v [of b] h by (auto simp: vmap_def pmap_def)
  have e: "ext (\<lambda>u. c_fd ca \<notin> moves u) (m_trace m) (m_trace m')" "ext (\<lambda>u. c_fd cb \<notin> moves u) (m_trace m) (m_trace m')"
    using tr [of a "c_fd ca"] tr [of b "c_fd cb"] h by (simp_all add: fdmap_def)
  show ?thesis
  proof (rule linkedI [where Q = Q, OF _ Q h'])
    show "t \<le> length (m_trace m')" using t e(1) by (auto simp: ext_def)
    show "peered a b ca' cb'" using p c core_same [OF c(1)] core_same [OF c(2)] by (simp add: peered_def)
    show "relayed (drop t (m_trace m')) ca' cb'" "relayed (drop t (m_trace m')) cb' ca'"
      using r core_same [OF c(1)] core_same [OF c(2)] no_bytes [OF e(1) t] no_bytes [OF e(2) t] by (simp_all add: relayed_def)
  qed
qed

text \<open>The connection was set up by the registration right before position \<open>t\<close>, and is faithful since.\<close>

definition set_up :: "int \<Rightarrow> nat \<Rightarrow> addr \<Rightarrow> addr \<Rightarrow> trace \<Rightarrow> bool" where
  "set_up e t a b tr \<longleftrightarrow> 0 < t \<and> t \<le> length tr \<and>
     (\<exists>fd ev r. tr ! (t - 1) = (Sys_Epoll_Ctl EPOLL_CTL_ADD e fd (Some ev), r) \<and> ev_data ev \<in> {a, b})"

lemma set_up_later: "set_up e t a b tr \<Longrightarrow> ext p tr tr' \<Longrightarrow> set_up e t a b tr'"
  by (auto simp: set_up_def ext_def nth_append)

definition up :: "('l \<Rightarrow> bool) \<Rightarrow> int \<Rightarrow> addr \<Rightarrow> addr \<Rightarrow> 'l mach \<Rightarrow> bool" where
  "up Q e a b m \<longleftrightarrow> (\<exists>t. set_up e t a b (m_trace m) \<and> linked Q t a b m)"

lemma up_sym: "up Q e a b m \<Longrightarrow> up Q e b a m"
  using linked_sym by (fastforce simp: up_def set_up_def insert_commute)

lemma up_peers: "up Q e a b m \<Longrightarrow> pmap m a = Some (Some b) \<and> pmap m b = Some (Some a)"
  by (auto simp: up_def linked_def peered_def pmap_def)

lemma up_frame:
  assumes "up Q e a b m" and "\<And>x. x \<in> {a, b} \<Longrightarrow> vmap m' x = vmap m x \<and> pmap m' x = pmap m x"
    and "Q (m_lua m')" and "\<And>x fd. x \<in> {a, b} \<Longrightarrow> fdmap m x = Some fd \<Longrightarrow> ext (\<lambda>u. fd \<notin> moves u) (m_trace m) (m_trace m')"
  shows "up Q e a b m'"
proof -
  obtain t where t: "set_up e t a b (m_trace m)" "linked Q t a b m" using assms(1) by (auto simp: up_def)
  obtain fd where "fdmap m a = Some fd" using t(2) by (auto simp: linked_def fdmap_def)
  then have "set_up e t a b (m_trace m')" using set_up_later [OF t(1) assms(4) [of a]] by simp
  then show ?thesis using linked_frame [where Q = Q, OF t(2) assms(2-4)] by (auto simp: up_def)
qed

text \<open>The contexts \<open>R\<close> have different open descriptors, and every pair of them is up.\<close>

definition fds_ok :: "addr set \<Rightarrow> 'l mach \<Rightarrow> bool" where
  "fds_ok R m \<longleftrightarrow> (\<forall>a\<in>R. \<exists>fd\<in>open_fds (m_trace m). fdmap m a = Some fd) \<and> inj_on (fdmap m) R"

definition streams :: "('l \<Rightarrow> bool) \<Rightarrow> int \<Rightarrow> addr set \<Rightarrow> 'l mach \<Rightarrow> bool" where
  "streams Q e R m \<longleftrightarrow> Q (m_lua m) \<and> fds_ok R m \<and> (\<forall>a\<in>R. \<forall>b. pmap m a = Some (Some b) \<longrightarrow> up Q e a b m)"

lemma streamsD: "streams Q e R m \<Longrightarrow> Q (m_lua m)" "streams Q e R m \<Longrightarrow> fds_ok R m"
  "streams Q e R m \<Longrightarrow> a \<in> R \<Longrightarrow> pmap m a = Some (Some b) \<Longrightarrow> up Q e a b m"
  unfolding streams_def by blast+

definition fds_of :: "addr set \<Rightarrow> 'l mach \<Rightarrow> int set" where
  "fds_of R m = {fd. \<exists>a\<in>R. fdmap m a = Some fd}"

lemma fds_of_open: "fds_ok R m \<Longrightarrow> fds_of R m \<subseteq> open_fds (m_trace m)"
  by (auto simp: fds_ok_def fds_of_def)

text \<open>Steps that move no bytes of the contexts \<open>R'\<close>, a set of whole pairs, and close none of their descriptors.\<close>

lemma streams_frame:
  assumes s: "streams Q e R m" and R': "R' \<subseteq> R" "\<And>a b. a \<in> R' \<Longrightarrow> pmap m a = Some (Some b) \<Longrightarrow> b \<in> R'"
    and v: "\<And>x. x \<in> R' \<Longrightarrow> vmap m' x = vmap m x \<and> pmap m' x = pmap m x" and Q: "Q (m_lua m')"
    and "fds_of R' m \<subseteq> open_fds (m_trace m')" and tr: "ext (\<lambda>u. moves u \<inter> fds_of R' m = {}) (m_trace m) (m_trace m')"
  shows "streams Q e R' m'"
proof -
  have f: "fdmap m' x = fdmap m x" if "x \<in> R'" for x using v [OF that] vmap_fdmap [of m' x m] by blast
  have o: "fds_ok R m" by (rule streamsD(2) [OF s])
  have "inj_on (fdmap m) R'" using o R'(1) by (auto simp: fds_ok_def intro: inj_on_subset)
  then have "inj_on (fdmap m') R'" using f by (simp cong: inj_on_cong)
  moreover have "\<exists>fd\<in>open_fds (m_trace m'). fdmap m' a = Some fd" if "a \<in> R'" for a
    using o R'(1) f [OF that] assms(6) that by (fastforce simp: fds_ok_def fds_of_def)
  ultimately have "fds_ok R' m'" by (simp add: fds_ok_def)
  moreover have "up Q e a b m'" if a: "a \<in> R'" "pmap m' a = Some (Some b)" for a b
  proof -
    have p: "pmap m a = Some (Some b)" using v [OF a(1)] a(2) by simp
    have b: "b \<in> R'" by (rule R'(2) [OF a(1) p])
    have "up Q e a b m" using streamsD(3) [OF s _ p] a(1) R'(1) by blast
    then show ?thesis
      by (rule up_frame) (use v a(1) b Q in \<open>auto simp: fds_of_def disjoint_iff intro!: ext_mono [OF tr]\<close>)
  qed
  ultimately show ?thesis using Q by (simp add: streams_def)
qed

lemma streams_sys:
  assumes "streams Q e R m" and "paired R m" and "ext (idle_call UNIV) (m_trace m) tr"
  shows "streams Q e R (m\<lparr>m_trace := tr\<rparr>)"
proof (rule streams_frame [OF assms(1)])
  have "ext (idle_call (fds_of R m)) (m_trace m) tr" using assms(3) by (rule ext_mono) (rule idle_call_mono, auto)
  then show "fds_of R m \<subseteq> open_fds (m_trace (m\<lparr>m_trace := tr\<rparr>))"
    using idle_open fds_of_open [OF streamsD(2) [OF assms(1)]] by simp
  show "ext (\<lambda>u. moves u \<inter> fds_of R m = {}) (m_trace m) (m_trace (m\<lparr>m_trace := tr\<rparr>))"
    using assms(3) by (auto elim!: ext_mono dest: idle_moves)
  show "b \<in> R" if "a \<in> R" "pmap m a = Some (Some b)" for a b using pairedD(2) [OF assms(2) that] by simp
qed (simp_all add: pmap_simps streamsD(1) [OF assms(1)])

section \<open>A handler call\<close>

text \<open>The handler changes the two contexts of its pair only.\<close>

definition agree :: "addr set \<Rightarrow> 'l mach \<Rightarrow> 'l mach \<Rightarrow> bool" where
  "agree S m m' \<longleftrightarrow> (\<forall>x. x \<notin> S \<longrightarrow> m_heap m' x = m_heap m x)"

lemma agree_simps [simp]:
  "agree S m m" "agree S m (m'\<lparr>m_trace := tr\<rparr>) = agree S m m'" "agree S m (m'\<lparr>m_lua := L\<rparr>) = agree S m m'"
  "a \<in> S \<Longrightarrow> agree S m (upd_ctx a f m') = agree S m m'" "agree S m (arm env e fd x evs m') = agree S m m'"
  "agree S m (snd (msys env c m')) = agree S m m'"
  by (auto simp: agree_def mach_simps)

lemma agree_close [simp]: "agree {a, b} m (detach a b m') = agree {a, b} m m'" "agree {a, b} m (half_close env a b peer m') = agree {a, b} m m'"
  by (simp_all add: detach_def half_close_def Let_def)

lemma flush_queued_agree: "post (\<lambda>_. True) (flush_queued env e a ca b cb m) (\<lambda>(_, m'). agree {a, b} m m')"
  by (auto simp: flush_queued_def msys_pair Let_def i32_def intro!: post_cbind [OF post_any])

lemma send_on_agree:
  "agree {a, b} m m1 \<Longrightarrow> post (\<lambda>_. True) (send_on env e a fd b fd_out buff n m1) (\<lambda>(_, m'). agree {a, b} m m')"
  by (auto simp: send_on_def queue_rest_def msys_pair Let_def intro!: post_cbind [OF post_any])

lemma read_and_forward_agree: "post (\<lambda>_. True) (read_and_forward A env e a ca b cb m) (\<lambda>(_, m'). agree {a, b} m m')"
  unfolding read_and_forward_def
  by (auto simp: msys_pair Let_def check_hup_def split: option.splits intro!: post_cbind [OF post_any] send_on_agree)

lemma tcp_ctx_handler_agree:
  assumes "m_heap m a = Some ca" and "c_peer ca = Some b"
  shows "post (\<lambda>_. True) (sm3t__tcp_ctx_handler A env (Some a) e m) (\<lambda>(_, m'). agree {a, b} m m')"
  using assms
  by (auto simp: sm3t__tcp_ctx_handler_def ctx_at_def check_hup_def
      intro!: post_cbind [OF post_any] flush_queued_agree read_and_forward_agree)

text \<open>Afterwards the pair is up or taken apart.\<close>

lemma handler_up:
  assumes env: "send_ok env" "recv_ok env" "hook_transparent A Q" and u: "up Q e a b m"
    and ca: "m_heap m a = Some ca" "c_wpartial ca \<Longrightarrow> has_ev (c_events ca) EPOLLOUT"
  shows "post (\<lambda>_. True) (sm3t__tcp_ctx_handler A env (Some a) e m) (\<lambda>(_, m'). Q (m_lua m') \<and>
     (\<forall>x\<in>{a, b}. \<forall>y. pmap m' x = Some (Some y) \<longrightarrow> up Q e x y m'))"
proof -
  obtain t where t: "set_up e t a b (m_trace m)" "linked Q t a b m" using u by (auto simp: up_def)
  obtain k m' where h: "sm3t__tcp_ctx_handler A env (Some a) e m = Inr (k, m')" "settled Q t a b k m'"
    using tcp_ctx_handler_linked [OF env t(2) ca, of e] by auto
  have "ext (relay_call e UNIV) (m_trace m) (m_trace m')"
    using tcp_ctx_handler_calls [OF ca(1), of UNIV A env e] h(1) by simp
  then have s: "set_up e t a b (m_trace m')" by (rule set_up_later [OF t(1)])
  show ?thesis
  proof (cases k)
    case True
    then have l: "linked Q t a b m'" using h(2) by (simp add: settled_def)
    then have "up Q e a b m'" using s by (auto simp: up_def)
    then show ?thesis
      using h(1) up_sym up_peers [of Q e a b m'] l by (auto simp: linked_def)
  next
    case False
    then show ?thesis using h by (auto simp: settled_def ends_def pmap_def)
  qed
qed

text \<open>The other connections are not affected.\<close>

lemma others_up:
  assumes s: "streams Q e R m" and R: "paired R m" "a \<in> R" and p: "pmap m a = Some (Some b)"
    and h: "m_heap m a = Some ca" "m_heap m b = Some cb"
    and Q: "Q (m_lua m')" and ag: "agree {a, b} m m'" and tr: "ext (relay_call e (end_regs a ca b cb)) (m_trace m) (m_trace m')"
    and x: "x \<in> R" "x \<notin> {a, b}" "pmap m' x = Some (Some y)"
  shows "up Q e x y m'"
proof (rule up_frame)
  have b: "b \<in> R" "pmap m b = Some (Some a)" using pairedD(2) [OF R p] by simp_all
  have px: "pmap m x = Some (Some y)" using x ag by (simp add: pmap_def agree_def)
  have y: "y \<in> R" "pmap m y = Some (Some x)" using pairedD(2) [OF R(1) x(1) px] by simp_all
  then have yab: "y \<notin> {a, b}" using x(2) p b(2) by auto
  show "up Q e x y m" by (rule streamsD(3) [OF s x(1) px])
  show "vmap m' z = vmap m z \<and> pmap m' z = pmap m z" if "z \<in> {x, y}" for z
    using ag that x(2) yab by (auto simp: agree_def vmap_def pmap_def)
  show "ext (\<lambda>u. fd \<notin> moves u) (m_trace m) (m_trace m')" if z: "z \<in> {x, y}" "fdmap m z = Some fd" for z fd
  proof -
    have "fdmap m z \<noteq> fdmap m a" "fdmap m z \<noteq> fdmap m b"
      using streamsD(2) [OF s] z(1) x yab y R(2) b(1) by (auto simp: fds_ok_def dest: inj_onD)
    then have "fd \<notin> fst ` end_regs a ca b cb" using z(2) h by (auto simp: fdmap_def)
    then show ?thesis using tr by (auto elim!: ext_mono dest!: relay_moves)
  qed
qed (rule Q)

lemma single_streams:
  assumes s: "streams Q e R m" and R: "paired R m" and f: "\<And>c. core (f c) = core c" "\<And>c. c_peer (f c) = c_peer c"
  shows "streams Q e R (upd_ctx a f m)"
proof (rule streams_frame [OF s])
  show "b \<in> R" if "a \<in> R" "pmap m a = Some (Some b)" for a b using pairedD(2) [OF R that] by simp
  show "fds_of R m \<subseteq> open_fds (m_trace (upd_ctx a f m))" using fds_of_open [OF streamsD(2) [OF s]] by (simp add: tr_simps)
qed (simp_all add: f pmap_upd tr_simps mach_simps streamsD(1) [OF s])

lemma handler_streams:
  assumes env: "send_ok env" "recv_ok env" "hook_transparent A Q" and s: "streams Q e R m" and R: "paired R m" "a \<in> R"
    and ca: "m_heap m a = Some ca" "c_wpartial ca \<Longrightarrow> has_ev (c_events ca) EPOLLOUT"
  shows "post (\<lambda>_. True) (sm3t__tcp_ctx_handler A env (Some a) e m) (\<lambda>(_, m'). streams Q e R m')"
proof (cases "c_peer ca")
  case None
  have "streams Q e R (upd_ctx a (\<lambda>c. c\<lparr>c_write_eof := True, c_read_eof := True\<rparr>) m)"
    by (rule single_streams [OF s R(1)]) (simp_all add: core_def)
  then show ?thesis using None ca(1) by (simp add: sm3t__tcp_ctx_handler_def ctx_at_def)
next
  case (Some b)
  have p: "pmap m a = Some (Some b)" using Some ca(1) by (simp add: pmap_def)
  obtain cb where cb: "m_heap m b = Some cb" using pairedD(2) [OF R p] by (auto simp: pmap_def)
  let ?K = "end_regs a ca b cb"
  have "streams Q e R m'" if Q: "Q (m_lua m')" and u: "\<forall>x\<in>{a, b}. \<forall>y. pmap m' x = Some (Some y) \<longrightarrow> up Q e x y m'"
    and ag: "agree {a, b} m m'" and fd: "fdmap m' = fdmap m" and tr: "ext (relay_call e ?K) (m_trace m) (m_trace m')" for m'
  proof -
    have "fds_ok R m'" using streamsD(2) [OF s] relay_open [OF tr] by (simp add: fds_ok_def fd)
    then show ?thesis using Q u others_up [where Q = Q, OF s R p ca(1) cb Q ag tr] unfolding streams_def by blast
  qed
  moreover have "post (\<lambda>_. True) (sm3t__tcp_ctx_handler A env (Some a) e m) (\<lambda>(_, m'). ext (relay_call e ?K) (m_trace m) (m_trace m'))"
    using Some cb by (intro tcp_ctx_handler_calls [OF ca(1)]) auto
  ultimately show ?thesis
    using handler_up [OF env streamsD(3) [OF s R(2) p] ca] tcp_ctx_handler_agree [OF ca(1) Some, of A env e] tcp_ctx_handler_fds [of A env a e m]
    by (cases "sm3t__tcp_ctx_handler A env (Some a) e m") auto
qed

section \<open>Releasing a context\<close>

lemma released_ctx:
  assumes "m_heap m x = Some c"
  shows "post (\<lambda>_. True) (sm3t__cleanup_ctx A env m (Some x)) (\<lambda>m'. m_heap m' = (m_heap m)(x := None)
     \<and> (m_lua m' = m_lua m \<or> sm3t__hook_on_disconnect A (Some (m_lua m)) x = Some (m_lua m'))
     \<and> (m_trace m' = m_trace m \<or> (\<exists>r. m_trace m' = m_trace m @ [(Sys_Close (c_fd c), r)])))"
  using assms by (auto simp: sm3t__cleanup_ctx_def ctx_at_def Let_def msys_pair split: option.splits)

lemma cleanup_streams:
  assumes s: "streams Q e R m" and R: "paired R m" and x: "x \<in> R" "pmap m x = Some None"
    and Q: "\<And>L. sm3t__hook_on_disconnect A (Some (m_lua m)) x = Some L \<Longrightarrow> Q L"
  shows "post (\<lambda>_. True) (sm3t__cleanup_ctx A env m (Some x)) (streams Q e (R - {x}))"
proof -
  obtain c where c: "m_heap m x = Some c" using x(2) by (auto simp: pmap_def)
  have "streams Q e (R - {x}) m'" if h: "m_heap m' = (m_heap m)(x := None)" and L: "Q (m_lua m')"
    and tr: "m_trace m' = m_trace m \<or> (\<exists>r. m_trace m' = m_trace m @ [(Sys_Close (c_fd c), r)])" for m'
  proof (rule streams_frame [OF s])
    show "b \<in> R - {x}" if "a \<in> R - {x}" "pmap m a = Some (Some b)" for a b
      using pairedD(2) [OF R, of a b] that x(2) by auto
    have o: "fds_of (R - {x}) m \<subseteq> open_fds (m_trace m)" using fds_of_open [OF streamsD(2) [OF s]] by (auto simp: fds_of_def)
    have "c_fd c \<notin> fds_of (R - {x}) m"
    proof
      assume "c_fd c \<in> fds_of (R - {x}) m"
      then obtain y where "y \<in> R" "y \<noteq> x" "fdmap m y = fdmap m x" using c by (auto simp: fds_of_def fdmap_def)
      then show False using streamsD(2) [OF s] x(1) by (auto simp: fds_ok_def dest: inj_onD)
    qed
    then show "fds_of (R - {x}) m \<subseteq> open_fds (m_trace m')" using o tr by auto
    show "ext (\<lambda>u. moves u \<inter> fds_of (R - {x}) m = {}) (m_trace m) (m_trace m')" using tr by auto
  qed (use h L in \<open>simp_all add: vmap_def pmap_def\<close>)
  then show ?thesis
    using Q streamsD(1) [OF s] by (intro post_weaken [OF released_ctx [OF c]]) auto
qed

section \<open>Accepting a client\<close>

text \<open>
  Memory for a context comes with the flag of queued bytes and the descriptor cleared and with its
  buffer in place. \<open>malloc\<close> does not promise the first two: what goes wrong without them is shown in
  \<open>Sm3t_Service\<close>.
\<close>

definition zeroed :: "'l plat \<Rightarrow> bool" where
  "zeroed P \<longleftrightarrow> (\<forall>m a j. p_ctx P m = Some (a, j) \<longrightarrow> \<not> c_wpartial j \<and> c_fd j \<le> 0 \<and> length (c_buffer j) = SM3T_BUFFER_SIZE)"

lemma fresh_no_clash:
  assumes "fd_fresh (p_env P)" and "zeroed P" and "F \<subseteq> open_fds tr"
  shows "no_clash P F tr"
  unfolding no_clash_def
proof (intro conjI allI impI)
  show "c_fd j \<notin> F" if "p_ctx P m = Some (a, j)" "0 < c_fd j" for m a j
    using assms(2) that by (fastforce simp: zeroed_def)
  fix tr' c assume i: "ext (idle_call F) tr tr'" and c: "\<exists>x. c = Sys_Accept x \<or> c = Sys_Socket x"
  show "sr_ret (p_env P tr' c) = SM3T__ERR \<or> sr_ret (p_env P tr' c) \<notin> F"
    using c fd_freshD [OF assms(1), of c _ tr'] idle_open [OF i assms(3)] by auto
qed

lemma joined_up:
  assumes "joined P F e a b m" and "fd_fresh (p_env P)" and "zeroed P" and "Q (m_lua m)"
  shows "up Q e a b m"
    and "\<exists>fa fb. fdmap m a = Some fa \<and> fdmap m b = Some fb \<and> fa \<noteq> fb \<and> {fa, fb} \<inter> F = {} \<and> {fa, fb} \<subseteq> open_fds (m_trace m)"
proof -
  obtain fa fb tr ev r where j: "a \<noteq> b" "pmap m a = Some (Some b)" "pmap m b = Some (Some a)"
    and c: "has_core P a fa m" "has_core P b fb m" and f: "fa \<noteq> fb" "fa \<notin> F" "fb \<notin> F" "fa \<in> open_fds (m_trace m)" "fb \<in> open_fds (m_trace m)"
    and tr: "m_trace m = tr @ [(Sys_Epoll_Ctl EPOLL_CTL_ADD e fa (Some ev), r)]" "ev_data ev = a"
    using assms(1,2) unfolding joined_def by blast
  show "\<exists>fa fb. fdmap m a = Some fa \<and> fdmap m b = Some fb \<and> fa \<noteq> fb \<and> {fa, fb} \<inter> F = {} \<and> {fa, fb} \<subseteq> open_fds (m_trace m)"
    using has_core_fd [OF c(1)] has_core_fd [OF c(2)] f by blast
  have core: "\<exists>c. m_heap m x = Some c \<and> c_fd c = fx \<and> \<not> c_wpartial c \<and> length (c_buffer c) = SM3T_BUFFER_SIZE \<and> pmap m x = Some (c_peer c)"
    if x: "has_core P x fx m" for x fx
    using x assms(3) by (auto simp: has_core_def zeroed_def vmap_def core_def pmap_def)
  obtain ca cb where h: "m_heap m a = Some ca" "m_heap m b = Some cb" and w: "c_fd ca = fa" "c_fd cb = fb" "\<not> c_wpartial ca" "\<not> c_wpartial cb"
    "length (c_buffer ca) = SM3T_BUFFER_SIZE" "length (c_buffer cb) = SM3T_BUFFER_SIZE" "c_peer ca = Some b" "c_peer cb = Some a"
    using core [OF c(1)] core [OF c(2)] j(2,3) by auto
  have "linked Q (length (m_trace m)) a b m"
    using h w f(1) j(1) assms(4) by (auto simp: linked_def peered_def ctx_ok_def relayed_def pending_def)
  moreover have "set_up e (length (m_trace m)) a b (m_trace m)" using tr by (simp add: set_up_def)
  ultimately show "up Q e a b m" by (auto simp: up_def)
qed

lemma grown_streams:
  assumes g: "grown P (fds_of R m) e sock mode R m m'" and s: "streams Q e R m" and R: "paired R m"
    and P: "fd_fresh (p_env P)" "zeroed P" and Q: "Q (m_lua m')"
  obtains R' where "R \<subseteq> R'" "R' = R \<or> tcp_mode mode" "paired R' m'" "owned e sock R' m'" "streams Q e R' m'"
proof -
  let ?F = "fds_of R m"
  have v: "vmap m' x = vmap m x \<and> pmap m' x = pmap m x" if "x \<in> R" for x using g that by (auto simp: grown_def kept_def)
  have tr: "ext (idle_call ?F) (m_trace m) (m_trace m')" using g by (simp add: grown_def)
  have old: "streams Q e R m'"
  proof (rule streams_frame [OF s _ _ v Q])
    show "b \<in> R" if "a \<in> R" "pmap m a = Some (Some b)" for a b using pairedD(2) [OF R that] by simp
    show "?F \<subseteq> open_fds (m_trace m')" by (rule idle_open [OF tr fds_of_open [OF streamsD(2) [OF s]]])
    show "ext (\<lambda>u. moves u \<inter> ?F = {}) (m_trace m) (m_trace m')" using tr by (auto elim!: ext_mono dest: idle_moves)
  qed simp
  have F: "fds_of R m' = ?F" using v vmap_fdmap [of m' _ m] by (auto simp: fds_of_def)
  consider (same) "paired R m'" "owned e sock R m'"
    | (new) a b where "tcp_mode mode" "a \<notin> R" "b \<notin> R" "joined P ?F e a b m'" "paired (R \<union> {a, b}) m'" "owned e sock (R \<union> {a, b}) m'"
    using g unfolding grown_def by blast
  then show ?thesis
  proof cases
    case same
    then show ?thesis using that [of R] old by simp
  next
    case new
    note j = joined_up [where Q = Q, OF new(4) P Q]
    obtain fa fb where f: "fdmap m' a = Some fa" "fdmap m' b = Some fb" "fa \<noteq> fb" "fa \<notin> ?F" "fb \<notin> ?F" "fa \<in> open_fds (m_trace m')" "fb \<in> open_fds (m_trace m')"
      using j(2) by auto
    have "fdmap m' x \<noteq> Some fa \<and> fdmap m' x \<noteq> Some fb" if "x \<in> R" for x
      using f(4,5) that unfolding F [symmetric] by (auto simp: fds_of_def)
    then have "fds_ok (R \<union> {a, b}) m'"
      using streamsD(2) [OF old] f by (auto simp: fds_ok_def inj_on_def)
    then have "streams Q e (R \<union> {a, b}) m'"
      using old j(1) up_sym [OF j(1)] up_peers [OF j(1)] by (auto simp: streams_def)
    then show ?thesis using that [of "R \<union> {a, b}"] new by blast
  qed
qed

section \<open>Lua\<close>

text \<open>
  The contract between the server and Lua: in a class \<open>Q\<close> of Lua states, which neither a hook nor a
  read of the configuration leaves, the data hook lets the bytes pass unchanged.
\<close>

locale quiet_lua =
  fixes P :: "'l plat" and Q :: "'l \<Rightarrow> bool"
  assumes data: "hook_transparent (p_lua P) Q"
    and connect: "Q L \<Longrightarrow> sm3t__hook_on_connect (p_lua P) (Some L) a = (st, Some L') \<Longrightarrow> Q L'"
    and disconnect: "Q L \<Longrightarrow> sm3t__hook_on_disconnect (p_lua P) (Some L) a = Some L' \<Longrightarrow> Q L'"
    and conf: "Q L \<Longrightarrow> post (\<lambda>_. True) (sm3t__get_conf_value (p_lua P) (p_mem P) L path ty out) (\<lambda>(_, L', _). Q L')"
begin

lemma set_peer_meta_quiet: "Q (m_lua m) \<Longrightarrow> post (\<lambda>_. True) (sm3t__set_peer_meta P a addr m) (\<lambda>m'. Q (m_lua m'))"
  unfolding sm3t__set_peer_meta_def
  by (rule post_cbind [OF post_any], rule post_cbind [OF conf])
    (auto simp: Let_def mach_simps split: option.splits intro!: post_cbind [OF post_any])

lemma cleanup_quiet: "Q (m_lua m) \<Longrightarrow> post (\<lambda>_. True) (sm3t__cleanup_ctx (p_lua P) (p_env P) m (Some a)) (\<lambda>m'. Q (m_lua m'))"
  using disconnect [of "m_lua m" a]
  by (auto simp: sm3t__cleanup_ctx_def Let_def mach_simps split: option.splits intro!: post_cbind [OF post_any])

lemma drop_both_quiet: "Q (m_lua m) \<Longrightarrow> post (\<lambda>_. True) (drop_both P a b m) (\<lambda>m'. Q (m_lua m'))"
  unfolding drop_both_def by (rule post_cbind [OF cleanup_quiet cleanup_quiet])

lemma pick_upstream_quiet: "Q (m_lua m) \<Longrightarrow> post (\<lambda>_. True) (pick_upstream P mode fd q m) (\<lambda>(_, _, m'). Q (m_lua m'))"
  by (auto simp: pick_upstream_def msys_pair Let_def intro!: post_cbind [OF post_any])

lemma connect_client_quiet: "Q (m_lua m) \<Longrightarrow> post (\<lambda>_. True) (connect_client P e mode a fa q m) (\<lambda>(_, m'). Q (m_lua m'))"
proof -
  have new: "post (\<lambda>_. True) (sm3t__new_ctx x m) (\<lambda>(_, m'). m_lua m' = m_lua m)" for x
    by (auto simp: sm3t__new_ctx_def split: option.splits)
  have up: "m_lua m2 = m_lua m1" if "sm3t__connect_upstream (p_env P) addr m1 = (fd, m2)" for addr and m1 m2 :: "'l mach" and fd
    using that by (auto simp: sm3t__connect_upstream_def msys_pair Let_def split: if_splits)
  have link: "m_lua (link_ctxs (p_env P) e a fa b fb m1) = m_lua m1" for b fb and m1 :: "'l mach"
    by (simp add: link_ctxs_def Let_def mach_simps)
  show "Q (m_lua m) \<Longrightarrow> ?thesis"
    unfolding connect_client_def
    by (auto simp: Let_def link mach_simps split: option.splits prod.splits dest!: up
        intro!: post_cbind [OF new] post_cbind [OF pick_upstream_quiet] post_cbind [OF set_peer_meta_quiet] post_cbind [OF drop_both_quiet])
qed

lemma accept_client_quiet: "Q (m_lua m) \<Longrightarrow> post (\<lambda>_. True) (accept_client P e l mode q m) (\<lambda>(_, m'). Q (m_lua m'))"
proof -
  have greet: "post (\<lambda>_. True) (greet_client P e mode a fa addr q m) (\<lambda>(_, m'). Q (m_lua m'))" if "Q (m_lua m)" for a fa addr and m :: "'l mach"
    unfolding greet_client_def
    by (rule post_cbind [OF set_peer_meta_quiet [OF that]])
      (auto split: prod.splits option.splits dest: connect intro!: connect_client_quiet post_cbind [OF cleanup_quiet])
  show "Q (m_lua m) \<Longrightarrow> ?thesis"
    unfolding accept_client_def sm3t__new_ctx_def
    by (auto simp: msys_pair Let_def mach_simps split: option.splits intro!: greet post_cbind [OF cleanup_quiet])
qed

lemma read_quiet:
  "Q L \<Longrightarrow> opost (\<lambda>_. True) (Some (sm3t__get_conf_value (p_lua P) (p_mem P) L path ty out)) (\<lambda>(_, L', _). Q L')"
  by (simp add: conf)

lemma init_server_quiet: "Q (m_lua m) \<Longrightarrow> opost (\<lambda>_. True) (sm3t__init_server P m) (\<lambda>(_, m'). Q (m_lua m'))"
proof -
  have bound: "post (\<lambda>_. True) (try_bind P t m) (\<lambda>(r, m'). Q (m_lua m'))" if "Q (m_lua m)" for t m
    using that unfolding try_bind_def
    by (auto simp: msys_pair Let_def intro!: post_cbind [OF conf] post_cbind [OF post_any [of "as_int _"]])
  have search: "opost (\<lambda>_. True) (bind_loop P host host m) (\<lambda>(_, m'). Q (m_lua m'))" if "Q (m_lua m)" for host m
    by (rule bind_loop_post [where I = "\<lambda>m. Q (m_lua m)"], rule post_weaken [OF bound])
      (use that in \<open>auto split: bind_result.splits\<close>)
  have listen: "m_lua (snd (listen_on env srv m)) = m_lua m" for env srv and m :: "'l mach"
    by (auto simp: listen_on_def sm3t__close_server_def msys_pair Let_def split: prod.splits)
  show "Q (m_lua m) \<Longrightarrow> ?thesis"
    unfolding sm3t__init_server_def
    by (auto simp: msys_pair Let_def listen case_prod_unfold split: option.splits
        intro!: opost_obind [OF read_quiet] opost_obind [OF opost_any [of "Some (as_int _)"]] opost_obind [OF search])
qed

lemma start_server_quiet:
  assumes "Q (m_lua m)"
  shows "opost (\<lambda>_. True) (start_server P m) (\<lambda>r. \<forall>server e mode s. r = Started server e mode s \<longrightarrow> Q (m_lua (ls_mach s)))"
  unfolding start_server_def
  by (auto simp: msys_pair Let_def sm3t__append_poll_def sys_def split: option.splits
      intro!: opost_obind [OF init_server_quiet [OF assms]] opost_obind [OF read_quiet] opost_obind [OF opost_any [of "Some (as_int _)"]]
        opost_obind [OF opost_any [of "if _ then Some (sm3t__enqueue _ _ _) else _"]])

end

section \<open>The invariant of the loop\<close>

text \<open>
  What is asked of the kernel and the allocator: \<open>send\<close> and \<open>recv\<close> report what they did, a new
  descriptor is not one that is open, and memory is fresh and cleared.
\<close>

definition platform_ok :: "'l plat \<Rightarrow> bool" where
  "platform_ok P \<longleftrightarrow> send_ok (p_env P) \<and> recv_ok (p_env P) \<and> fd_ok (p_env P) \<and> fd_fresh (p_env P) \<and> alloc_fresh P \<and> zeroed P"

definition stream_inv :: "'l plat \<Rightarrow> ('l \<Rightarrow> bool) \<Rightarrow> int \<Rightarrow> int \<Rightarrow> int \<Rightarrow> addr set \<Rightarrow> 'l loop_state \<Rightarrow> bool" where
  "stream_inv P Q e sock mode R s \<longleftrightarrow> platform_ok P \<and> loop_inv e sock mode R s \<and> streams Q e R (ls_mach s)"

lemma stream_invD:
  assumes "stream_inv P Q e sock mode R s"
  shows "send_ok (p_env P)" "recv_ok (p_env P)" "fd_ok (p_env P)" "fd_fresh (p_env P)" "alloc_fresh P" "zeroed P"
    and "loop_inv e sock mode R s" "streams Q e R (ls_mach s)" "paired R (ls_mach s)" "owned e sock R (ls_mach s)"
  using assms by (auto simp: stream_inv_def platform_ok_def loop_inv_def)

text \<open>A context with queued bytes is reported with \<open>EPOLLOUT\<close>.\<close>

definition queued_writable :: "addr \<Rightarrow> 32 word \<Rightarrow> 'l loop_state \<Rightarrow> bool" where
  "queued_writable a evs s \<longleftrightarrow>
     (case m_heap (ls_mach s) a of None \<Rightarrow> True | Some c \<Rightarrow> c_wpartial c \<longrightarrow> has_ev evs EPOLLOUT)"

context quiet_lua
begin

lemma accept_streams:
  assumes i: "stream_inv P Q e sock mode R s"
  shows "post not_uaf (accept_client P e l mode (ls_ups s) (ls_mach s))
      (\<lambda>(q, m). \<exists>R'. R \<subseteq> R' \<and> stream_inv P Q e sock mode R' (s\<lparr>ls_mach := m, ls_ups := q\<rparr>))"
proof -
  note P = stream_invD [OF i]
  have "no_clash P (fds_of R (ls_mach s)) (m_trace (ls_mach s))"
    by (rule fresh_no_clash [OF P(4,6) fds_of_open [OF streamsD(2) [OF P(8)]]])
  note g = post_conj [OF accept_client_grown [OF P(5,3) this P(9,10)] accept_client_quiet [OF streamsD(1) [OF P(8)]]]
  have "\<exists>R'. R \<subseteq> R' \<and> stream_inv P Q e sock mode R' (s\<lparr>ls_mach := m, ls_ups := q\<rparr>)"
    if g: "grown P (fds_of R (ls_mach s)) e sock mode R (ls_mach s) m" "Q (m_lua m)" for q m
  proof -
    obtain R' where R': "R \<subseteq> R'" "R' = R \<or> tcp_mode mode" "paired R' m" "owned e sock R' m" "streams Q e R' m"
      using grown_streams [where Q = Q, OF g(1) P(8,9,4,6) g(2)] .
    from grown_inv [OF P(7) g(1) R'(1-4), of q] show ?thesis
      using i R'(1,5) by (auto simp: stream_inv_def)
  qed
  then show ?thesis by (intro post_weaken [OF g]) auto
qed

lemma dispatch_streams:
  assumes i: "stream_inv P Q e sock mode R s" and a: "a \<in> R" and w: "queued_writable a evs s"
  shows "opost (\<lambda>_. True) (dispatch_ctx P e mode a evs s) (\<lambda>s'. streams Q e R (ls_mach s'))"
proof -
  note P = stream_invD [OF i]
  let ?m = "upd_ctx a (\<lambda>c. c\<lparr>c_events := evs\<rparr>) (ls_mach s)"
  have mode: "vtable P mode a e ?m = Some (sm3t__tcp_ctx_handler (p_lua P) (p_env P) (Some a) e ?m)"
    using P(7) a by (auto simp: vtable_def loop_inv_def tcp_mode_def)
  obtain c where c: "m_heap (ls_mach s) a = Some c" using pairedD(1) [OF P(9) a] by (auto simp: pmap_def)
  have p: "pmap ?m = pmap (ls_mach s)" by (simp add: pmap_simps)
  have R: "paired R ?m" using P(9) paired_cong [OF p] by blast
  have s: "streams Q e R ?m" by (rule single_streams [OF P(8,9)]) simp_all
  have "post not_uaf (sm3t__tcp_ctx_handler (p_lua P) (p_env P) (Some a) e ?m) (\<lambda>(_, m'). streams Q e R m' \<and> paired R m')"
    using c w by (intro post_weaken [OF post_conj [OF tcp_ctx_handler_served [OF R a] handler_streams [OF P(1,2) data s R a]]])
      (auto simp: mach_simps queued_writable_def served_def)
  then have h: "opost (\<lambda>_. True) (vtable P mode a e ?m) (\<lambda>(_, m'). streams Q e R m' \<and> paired R m')"
    unfolding mode by (cases "sm3t__tcp_ctx_handler (p_lua P) (p_env P) (Some a) e ?m") auto
  have "ext (idle_call UNIV) tr (snd (sm3t__remove_poll (p_env P) e fd tr))" for fd tr
    by (simp add: sm3t__remove_poll_def sys_def Let_def)
  note gone = streams_sys [OF _ _ this]
  show ?thesis
    unfolding dispatch_ctx_def
    by (auto simp: Let_def gone intro!: opost_obind [OF opost_any] opost_obind [OF h])
qed

lemma release_streams:
  assumes i: "stream_inv P Q e sock mode R s"
  shows "post not_uaf (release_dead P s) (\<lambda>s'. (\<exists>R'. stream_inv P Q e sock mode R' s') \<and> vec_elems (ls_dead s') = [])"
proof -
  note P = stream_invD [OF i]
  let ?I = "\<lambda>R m. owned e sock R m \<and> streams Q e R m"
  have step: "post (\<lambda>_. True) (sm3t__cleanup_ctx (p_lua P) (p_env P) m (Some x)) (?I (R - {x}))"
    if "?I R m" "paired R m" "x \<in> R" "pmap m x = Some None" for R m x
  proof (rule post_conj [OF cleanup_owned cleanup_streams])
    have "Q (m_lua m)" using that(1) streamsD(1) by blast
    then show "Q L" if "sm3t__hook_on_disconnect (p_lua P) (Some (m_lua m)) x = Some L" for L using disconnect that by blast
  qed (use that in simp_all)
  have "?I R (ls_mach s)" using P(8,10) by simp
  note rel = release_dead_post [where I = ?I, OF step this P(7)]
  show ?thesis
    by (rule post_weaken [OF rel]) (use i P(7) in \<open>auto simp: stream_inv_def loop_inv_def\<close>)
qed

end

sublocale quiet_lua \<subseteq> relaying: loop_invariant P e sock mode "stream_inv P Q e sock mode" queued_writable for e sock mode
proof unfold_locales
  fix R and s :: "'l loop_state" and n a evs
  assume i: "stream_inv P Q e sock mode R s"
  note P = stream_invD [OF i]
  show "loop_inv e sock mode R s" by (rule P(7))
  show "stream_inv P Q e sock mode R (s\<lparr>ls_mach := snd (msys (p_env P) (Sys_Epoll_Wait e n) (ls_mach s))\<rparr>)"
    using i wait_loop_inv [OF P(7)] streams_sys [OF P(8,9)] by (simp add: stream_inv_def msys_pair)
  show "post not_uaf (accept_client P e sock mode (ls_ups s) (ls_mach s))
      (\<lambda>(q, m). \<exists>R'. R \<subseteq> R' \<and> stream_inv P Q e sock mode R' (s\<lparr>ls_mach := m, ls_ups := q\<rparr>))"
    by (rule accept_streams [OF i])
  show "post not_uaf (release_dead P s) (\<lambda>s'. (\<exists>R'. stream_inv P Q e sock mode R' s') \<and> vec_elems (ls_dead s') = [])"
    by (rule release_streams [OF i])
  assume a: "a \<in> R" "a \<notin> set (vec_elems (ls_dead s))" "0 < vec_free (ls_dead s)" "queued_writable a evs s"
  show "opost not_uaf (dispatch_ctx P e mode a evs s) (\<lambda>s'. stream_inv P Q e sock mode R s'
        \<and> set (vec_elems (ls_dead s')) \<subseteq> insert a (set (vec_elems (ls_dead s)))
        \<and> length (vec_elems (ls_dead s')) \<le> Suc (length (vec_elems (ls_dead s))))"
    by (rule opost_weaken [OF opost_conj [OF dispatch_ctx_safe [OF P(7) a(1-3)] dispatch_streams [OF i a(1,4)]]])
      (use i in \<open>auto simp: stream_inv_def\<close>)
qed

section \<open>Configurations without hooks\<close>

definition no_hooks :: "'l plat \<Rightarrow> 'l \<Rightarrow> bool" where
  "no_hooks P L \<longleftrightarrow> lua_ok (p_lua P) \<and> (\<forall>n. p_mem P n) \<and> hook_absent (p_lua P) ''on_connect'' L
     \<and> hook_absent (p_lua P) ''on_data'' L \<and> hook_absent (p_lua P) ''on_disconnect'' L"

lemma no_hooks_cong:
  assumes "no_hooks P L" and "l_stack (p_lua P) L' = l_stack (p_lua P) L" and "l_field (p_lua P) L' = l_field (p_lua P) L"
  shows "no_hooks P L'"
  using assms(1) hook_absent_cong [OF assms(2,3)] by (simp add: no_hooks_def)

lemma no_hooks_transparent: "hook_transparent (p_lua P) (no_hooks P)"
proof (cases "lua_ok (p_lua P)")
  case True
  show ?thesis by (rule hook_absent_transparent [OF True _ no_hooks_cong]) (simp_all add: no_hooks_def)
qed (simp add: hook_transparent_def no_hooks_def)

interpretation hookless: quiet_lua P "no_hooks P" for P :: "'l plat"
proof unfold_locales
  show "hook_transparent (p_lua P) (no_hooks P)" by (rule no_hooks_transparent)
  fix L L' a st path ty out
  assume Q: "no_hooks P L"
  have A: "lua_ok (p_lua P)" "\<And>n. p_mem P n" using Q by (simp_all add: no_hooks_def)
  have hook: "\<exists>M. push_hook (p_lua P) name L = (False, M) \<and> no_hooks P M" if "hook_absent (p_lua P) name L" for name
    using push_hook_absent [OF A(1) that] no_hooks_cong [OF Q] by auto
  have absent: "hook_absent (p_lua P) ''on_connect'' L" "hook_absent (p_lua P) ''on_disconnect'' L"
    using Q by (simp_all add: no_hooks_def)
  show "no_hooks P L'" if "sm3t__hook_on_connect (p_lua P) (Some L) a = (st, Some L')"
    using that hook [OF absent(1)] by (auto simp: sm3t__hook_on_connect_def)
  show "no_hooks P L'" if "sm3t__hook_on_disconnect (p_lua P) (Some L) a = Some L'"
    using that hook [OF absent(2)] by (auto simp: sm3t__hook_on_disconnect_def)
  show "post (\<lambda>_. True) (sm3t__get_conf_value (p_lua P) (p_mem P) L path ty out) (\<lambda>(_, L', _). no_hooks P L')"
    using get_conf_value_lookup [where mem = "p_mem P" and L = L and path = path and type = ty and out = out, OF A] no_hooks_cong [OF Q]
    by (auto simp: same_but_def split: sum.splits option.splits)
qed

section \<open>The server from its start\<close>

lemma started_inv:
  assumes "start_server P m = Some (Inr (Started server e mode s0))" and "no_hooks P (m_lua m)"
    and P: "platform_ok P" "epoll_ok (p_env P)" and "serving P e (srv_sock server) mode queued_writable s0 s"
  shows "idle (stream_inv P (no_hooks P) e (srv_sock server) mode) s"
proof (rule hookless.relaying.reached [OF assms(5) P(2)])
  have "fd_ok (p_env P)" using P(1) by (simp add: platform_ok_def)
  from start_server_fresh [OF this, of m] have f: "fresh_loop e (srv_sock server) s0" using assms(1) by simp
  have "no_hooks P (m_lua (ls_mach s0))" using hookless.start_server_quiet [OF assms(2)] assms(1) by simp
  then have "streams (no_hooks P) e {} (ls_mach s0)" by (simp add: streams_def fds_ok_def)
  then show "idle (stream_inv P (no_hooks P) e (srv_sock server) mode) s0"
    using P(1) fresh_loop_inv [OF f] f by (auto simp: idle_def stream_inv_def fresh_loop_def)
qed


end
