(* ===== verification/Sm3t_Ref.thy ===== *)
theory Sm3t_Ref
  imports Sm3t_Streams Sm3t_Cli
begin

text \<open>
  A small Lua machine and simple kernels that satisfy what the development asks of Lua and of the
  operating system. They show that the hypotheses of the statements can hold, and give concrete
  inputs to apply them to; no statement about the program depends on them.
\<close>

section \<open>A Lua machine\<close>

record ref_lua =
  rl_stack :: "lval list"
  rl_field :: "nat \<Rightarrow> string \<Rightarrow> lval"
  rl_global :: "string \<Rightarrow> lval"

text \<open>
  \<open>call f args\<close> says whether a call succeeds and what it returns; \<open>init\<close> is the state in which a
  file's chunk is the function number 0.
\<close>

definition fit :: "nat option \<Rightarrow> lval list \<Rightarrow> lval list" where
  "fit nres rs = (case nres of None \<Rightarrow> rs | Some n \<Rightarrow> take n (rs @ replicate n LNil))"

definition ref_pcall ::
  "(lval \<Rightarrow> lval list \<Rightarrow> bool \<times> lval list) \<Rightarrow> nat \<Rightarrow> nat option \<Rightarrow> ref_lua \<Rightarrow> bool \<times> ref_lua" where
  "ref_pcall call nargs nres L =
     (let st = rl_stack L; k = length st - nargs;
          (ok, rs) = call (st ! (k - 1)) (drop k st); base = take (k - 1) st in
      (ok, L\<lparr>rl_stack := base @ (if ok then fit nres rs else [LStr ''error''])\<rparr>))"

definition ref_api ::
  "(lval \<Rightarrow> lval list \<Rightarrow> bool \<times> lval list) \<Rightarrow> ref_lua \<Rightarrow> ref_lua lua_api" where
  "ref_api call init = \<lparr>
     l_stack = rl_stack, l_field = rl_field, l_global = rl_global,
     l_push = (\<lambda>v L. L\<lparr>rl_stack := rl_stack L @ [v]\<rparr>),
     l_pop = (\<lambda>n L. L\<lparr>rl_stack := take (length (rl_stack L) - n) (rl_stack L)\<rparr>),
     l_remove = (\<lambda>i L. let p = stack_pos (rl_stack L) i in
       L\<lparr>rl_stack := take p (rl_stack L) @ drop (Suc p) (rl_stack L)\<rparr>),
     l_getfield = (\<lambda>i k L. L\<lparr>rl_stack := rl_stack L @
       [case top_table (rl_stack L) i of None \<Rightarrow> LNil | Some t \<Rightarrow> rl_field L t k]\<rparr>),
     l_setfield = (\<lambda>i k L. case top_table (rl_stack L) i of None \<Rightarrow> L
       | Some t \<Rightarrow> L\<lparr>rl_stack := butlast (rl_stack L),
           rl_field := (rl_field L)(t := (rl_field L t)(k := last (rl_stack L)))\<rparr>),
     l_getglobal = (\<lambda>k L. L\<lparr>rl_stack := rl_stack L @ [rl_global L k]\<rparr>),
     l_setglobal = (\<lambda>k L. L\<lparr>rl_stack := butlast (rl_stack L),
       rl_global := (rl_global L)(k := last (rl_stack L))\<rparr>),
     l_pcall = ref_pcall call,
     l_str2num = (\<lambda>s. None), l_num2str = (\<lambda>v. ''0''),
     l_newstate = Some init,
     l_loadfile = (\<lambda>path L. (True, L\<lparr>rl_stack := rl_stack L @ [LFun 0]\<rparr>)),
     l_newlib = (\<lambda>names L. L\<lparr>rl_stack := rl_stack L @ [LTable 1000],
       rl_field := (rl_field L)(1000 := (\<lambda>k. if k \<in> set names then LFun 1 else LNil))\<rparr>)\<rparr>"

lemma ref_api_simps [simp]:
  "l_stack (ref_api call init) = rl_stack" "l_field (ref_api call init) = rl_field"
  "l_global (ref_api call init) = rl_global" "l_pcall (ref_api call init) = ref_pcall call"
  by (simp_all add: ref_api_def)

lemma ref_pcall_ok: "lua_pcall_ok (ref_api call init)"
  by (auto simp: lua_pcall_ok_def ref_api_def ref_pcall_def Let_def fit_def nth_append split: prod.splits)

lemma ref_lua_ok: "lua_ok (ref_api call init)"
  unfolding lua_ok_def using ref_pcall_ok [of call init]
  by (auto simp: lua_push_ok_def lua_pop_ok_def lua_remove_ok_def lua_getfield_ok_def lua_setfield_ok_def
      lua_global_ok_def ref_api_def Let_def)

lemma ref_load_ok: "rl_stack init = [] \<Longrightarrow> lua_load_ok (ref_api call init)"
  by (auto simp: lua_load_ok_def ref_api_def)

section \<open>Kernels\<close>

definition ret :: "int \<Rightarrow> sysret" where
  "ret n = \<lparr>sr_ret = n, sr_errno = EAGAIN, sr_bytes = [],
            sr_addr = \<lparr>sa_family = AF_INET, sa_host = [], sa_port = 0\<rparr>, sr_events = [], sr_hosts = []\<rparr>"

text \<open>Every receive brings \<open>bs\<close>, every send accepts at most \<open>n\<close> bytes, nothing else fails.\<close>

definition net :: "byte list \<Rightarrow> nat \<Rightarrow> env" where
  "net bs n tr c =
     (case c of
        Sys_Recv fd k \<Rightarrow> (ret (int (min k (length bs))))\<lparr>sr_bytes := take k bs\<rparr>
      | Sys_Send fd xs \<Rightarrow> ret (int (min n (length xs)))
      | Sys_Socket f \<Rightarrow> ret 7
      | Sys_Accept fd \<Rightarrow> ret 6
      | _ \<Rightarrow> ret 0)"

lemma net_ok: "send_ok (net bs n)" "recv_ok (net bs n)"
  by (auto simp: send_ok_def recv_ok_def net_def ret_def Let_def)

text \<open>
  A network whose \<open>n\<close>-th \<open>epoll_wait\<close> reports those of the descriptors \<open>sched n\<close> that are watched, and
  fails when there are none in the schedule.
\<close>

definition waits :: "trace \<Rightarrow> nat" where
  "waits tr = length (filter (\<lambda>u. case fst u of Sys_Epoll_Wait _ _ \<Rightarrow> True | _ \<Rightarrow> False) tr)"

definition ready_fds :: "(nat \<Rightarrow> int list) \<Rightarrow> int \<Rightarrow> trace \<Rightarrow> int \<Rightarrow> int list" where
  "ready_fds sched e tr n = take (nat n) (filter (\<lambda>fd. epoll_set e tr fd \<noteq> None) (remdups (sched (waits tr))))"

definition polled :: "(nat \<Rightarrow> int list) \<Rightarrow> byte list \<Rightarrow> nat \<Rightarrow> env" where
  "polled sched bs k tr c =
     (case c of
        Sys_Epoll_Wait e n \<Rightarrow>
          if sched (waits tr) = [] then ret (-1)
          else (ret (int (length (ready_fds sched e tr n))))\<lparr>sr_events :=
                 map (\<lambda>fd. \<lparr>ev_events = EPOLLIN, ev_data = the (epoll_set e tr fd)\<rparr>) (ready_fds sched e tr n)\<rparr>
      | Sys_Epoll_Create n \<Rightarrow> ret 3
      | Sys_Getaddrinfo p \<Rightarrow> (ret 0)\<lparr>sr_hosts := [sr_addr (ret 0)]\<rparr>
      | _ \<Rightarrow> net bs k tr c)"

lemma ready_fds_ok:
  "distinct (ready_fds sched e tr n)" "0 < n \<Longrightarrow> int (length (ready_fds sched e tr n)) \<le> n"
  "list_all2 (\<lambda>ev fd. epoll_set e tr fd = Some (ev_data ev))
     (map (\<lambda>fd. \<lparr>ev_events = EPOLLIN, ev_data = the (epoll_set e tr fd)\<rparr>) (ready_fds sched e tr n)) (ready_fds sched e tr n)"
  unfolding ready_fds_def list_all2_map1 by (auto intro!: list.rel_refl_strong dest!: in_set_takeD simp: min_def)

lemma polled_ok: "fd_ok (polled sched bs k)" "epoll_ok (polled sched bs k)"
proof -
  show "fd_ok (polled sched bs k)" by (auto simp: fd_ok_def polled_def net_def ret_def)
  show "epoll_ok (polled sched bs k)"
    using ready_fds_ok unfolding epoll_ok_def Let_def polled_def ret_def
    by (simp del: list_all2_map1) blast
qed

text \<open>The descriptors 6 to 8, four times.\<close>

definition four_rounds :: "nat \<Rightarrow> int list" where
  "four_rounds n = (if n < 4 then [6, 7, 8] else [])"

text \<open>The same with a descriptor larger than every earlier result for every new one.\<close>

definition fresh_fd :: "trace \<Rightarrow> int" where
  "fresh_fd tr = fold (\<lambda>u n. max n (sr_ret (snd u) + 1)) tr 7"

definition numbered :: "env \<Rightarrow> env" where
  "numbered env tr c =
     (case c of
        Sys_Accept fd \<Rightarrow> ret (if fresh_fd tr < 2 ^ 31 then fresh_fd tr else -1)
      | Sys_Socket f \<Rightarrow> ret (if fresh_fd tr < 2 ^ 31 then fresh_fd tr else -1)
      | _ \<Rightarrow> env tr c)"

lemma fresh_fd_above: "7 \<le> fresh_fd tr" "fd \<in> open_fds tr \<Longrightarrow> fd < fresh_fd tr"
proof -
  have "n \<le> fold (\<lambda>u n. max n (sr_ret (snd u) + 1)) tr n" for n :: int
    by (induction tr arbitrary: n) (auto intro: order_trans [OF max.cobounded1])
  then show "7 \<le> fresh_fd tr" by (simp add: fresh_fd_def)
  have "(\<forall>fd\<in>fold open_step tr fds. fd < fold (\<lambda>u n. max n (sr_ret (snd u) + 1)) tr n)" if "\<forall>fd\<in>fds. fd < n" for fds and n :: int
    using that
  proof (induction tr arbitrary: fds n)
    case (Cons u tr)
    have "\<forall>fd\<in>open_step u fds. fd < max n (sr_ret (snd u) + 1)"
      using Cons.prems by (cases "(u, fds)" rule: open_step.cases) (auto simp: less_max_iff_disj)
    then show ?case using Cons.IH by simp
  qed simp
  from this [of "{}" 7] show "fd \<in> open_fds tr \<Longrightarrow> fd < fresh_fd tr" by (simp add: open_fds_def fresh_fd_def)
qed

lemma numbered_ok:
  "fd_ok (numbered env)" "fd_fresh (numbered env)" "send_ok (numbered env) = send_ok env" "recv_ok (numbered env) = recv_ok env"
  "epoll_ok (numbered env) = epoll_ok env"
  using fresh_fd_above
  by (auto simp: fd_ok_def fd_fresh_def numbered_def ret_def send_ok_def recv_ok_def epoll_ok_def)
    (metis less_irrefl less_le_trans zero_less_numeral)+

definition no_sockets :: env where
  "no_sockets tr c = ret (-1)"

section \<open>Contexts\<close>

definition ref_ctx :: "int \<Rightarrow> addr option \<Rightarrow> sm3t_context_t" where
  "ref_ctx fd peer = \<lparr>c_fd = fd, c_events = 0, c_peer = peer, c_meta = \<lparr>md_port = 0, md_addr = []\<rparr>,
     c_read_eof = False, c_write_eof = False, c_wlen = 0, c_wstart = 0, c_wpartial = False,
     c_buffer = replicate SM3T_BUFFER_SIZE CHR 0x00\<rparr>"

text \<open>A client with descriptor 4 and its upstream with descriptor 5.\<close>

definition ref_mach :: "'l \<Rightarrow> 'l mach" where
  "ref_mach L = \<lparr>m_heap = [16 \<mapsto> ref_ctx 4 (Some 32), 32 \<mapsto> ref_ctx 5 (Some 16)], m_trace = [], m_lua = L\<rparr>"

lemma ref_ctx_simps [simp]:
  "c_fd (ref_ctx fd p) = fd" "c_peer (ref_ctx fd p) = p" "\<not> c_wpartial (ref_ctx fd p)"
  "c_buffer (ref_ctx fd p) = replicate SM3T_BUFFER_SIZE CHR 0x00"
  by (simp_all add: ref_ctx_def)

lemma ref_mach_simps [simp]:
  "m_heap (ref_mach L) 16 = Some (ref_ctx 4 (Some 32))" "m_heap (ref_mach L) 32 = Some (ref_ctx 5 (Some 16))"
  "m_trace (ref_mach L) = []" "m_lua (ref_mach L) = L"
  by (simp_all add: ref_mach_def)

lemma ref_peered: "peered 16 32 (ref_ctx 4 (Some 32)) (ref_ctx 5 (Some 16))"
  by (simp add: peered_def ctx_ok_def)

text \<open>A state whose stack is empty; no hook can be found in it.\<close>

definition bare :: ref_lua where
  "bare = \<lparr>rl_stack = [], rl_field = (\<lambda>t k. LNil), rl_global = (\<lambda>k. LNil)\<rparr>"

lemma bare_absent: "hook_absent (ref_api call init) name bare"
  by (simp add: hook_absent_def ref_api_def bare_def stack_at_def)

definition ref_plat :: "env \<Rightarrow> (lval \<Rightarrow> lval list \<Rightarrow> bool \<times> lval list) \<Rightarrow> ref_lua \<Rightarrow> ref_lua plat" where
  "ref_plat env call init = \<lparr>p_lua = ref_api call init, p_env = env, p_mem = (\<lambda>n. True), 
     p_ctx = (\<lambda>m. if m_heap m 48 = None then Some (48, ref_ctx 0 None)
              else if m_heap m 64 = None then Some (64, ref_ctx 0 None) else None),
     p_ntop = (\<lambda>f h. h), p_pton = (\<lambda>f s. Some s)\<rparr>"

lemma ref_alloc_fresh: "alloc_fresh (ref_plat env call init)"
  by (simp add: alloc_fresh_def ref_plat_def)

section \<open>Inputs\<close>

text \<open>Calls that return nothing; a client that hung up while a byte is queued for its upstream; a client with queued bytes that is readable.\<close>

definition nop_call :: "lval \<Rightarrow> lval list \<Rightarrow> bool \<times> lval list" where
  "nop_call f args = (True, [])"


definition queued_mach :: "ref_lua mach" where
  "queued_mach = \<lparr>m_heap = [16 \<mapsto> (ref_ctx 4 (Some 32))\<lparr>c_events := EPOLLRDHUP\<rparr>,
     32 \<mapsto> (ref_ctx 5 (Some 16))\<lparr>c_wpartial := True, c_wlen := 1\<rparr>], m_trace = [], m_lua = bare\<rparr>"


definition busy_ctx :: sm3t_context_t where
  "busy_ctx = (ref_ctx 4 (Some 32))\<lparr>c_events := EPOLLIN, c_wpartial := True, c_wlen := 2,
     c_buffer := CHR ''x'' # CHR ''y'' # replicate 1022 CHR 0x00\<rparr>"


definition busy_mach :: "ref_lua mach" where
  "busy_mach = \<lparr>m_heap = [16 \<mapsto> busy_ctx, 32 \<mapsto> ref_ctx 5 (Some 16)], m_trace = [], m_lua = bare\<rparr>"

section \<open>A configuration\<close>

text \<open>
  A complete configuration in table 1. The key alone decides what a field holds; the chunk of the file
  returns the table.
\<close>

definition conf_tables :: "string list" where
  "conf_tables = [''sys'', ''logging'', ''out'', ''tcp'', ''listen'', ''forward'', ''upstreams'', ''conn'', ''limit'', ''timeout'',
     ''retries'', ''transport'', ''keepalive'', ''telemetry'', ''metrics'', ''log'', ''hooks'']"

definition conf_flags :: "string list" where
  "conf_flags = [''file'', ''stdout'', ''syslog'', ''enable'', ''nodelay'', ''reset_on_violation'', ''per_src'', ''per_dst'',
     ''src_ip'', ''src_port'', ''dst_ip'', ''dst_port'', ''bytes_in'', ''bytes_out'', ''duration'', ''err'']"

definition conf_strings :: "string list" where
  "conf_strings = [''name'', ''user'', ''group'', ''chroot'', ''file_path'', ''address'']"

fun index_of :: "string \<Rightarrow> string list \<Rightarrow> nat \<Rightarrow> nat option" where
  "index_of k [] n = None"
| "index_of k (x # xs) n = (if k = x then Some n else index_of k xs (n + 1))"

definition conf_field :: "nat \<Rightarrow> string \<Rightarrow> lval" where
  "conf_field t k =
     (case index_of k conf_tables 2 of Some u \<Rightarrow> LTable u
      | None \<Rightarrow> if k \<in> set conf_flags then LBool False else if k \<in> set conf_strings then LStr ''a''
          else if k \<in> set [''on_connect'', ''on_data'', ''on_disconnect''] then LFun 2 else LInt 1)"

definition conf_lua :: ref_lua where
  "conf_lua = \<lparr>rl_stack = [], rl_field = conf_field, rl_global = (\<lambda>k. LNil)\<rparr>"

text \<open>The chunk returns the configuration, every other function a string.\<close>

definition conf_call :: "lval \<Rightarrow> lval list \<Rightarrow> bool \<times> lval list" where
  "conf_call f args = (True, [if f = LFun 0 then LTable 1 else LStr ''hi''])"

abbreviation conf_api :: "ref_lua lua_api" where "conf_api \<equiv> ref_api conf_call conf_lua"

lemma conf_field_tables:
  "conf_field t ''sys'' = LTable 2" "conf_field t ''logging'' = LTable 3" "conf_field t ''out'' = LTable 4"
  "conf_field t ''tcp'' = LTable 5" "conf_field t ''listen'' = LTable 6" "conf_field t ''forward'' = LTable 7"
  "conf_field t ''upstreams'' = LTable 8" "conf_field t ''conn'' = LTable 9" "conf_field t ''limit'' = LTable 10"
  "conf_field t ''timeout'' = LTable 11" "conf_field t ''retries'' = LTable 12" "conf_field t ''transport'' = LTable 13"
  "conf_field t ''keepalive'' = LTable 14" "conf_field t ''telemetry'' = LTable 15" "conf_field t ''metrics'' = LTable 16"
  "conf_field t ''log'' = LTable 17" "conf_field t ''hooks'' = LTable 18"
  by (simp_all add: conf_field_def conf_tables_def)

lemmas schema_defs = root_tab_def sys_tab_def logging_tab_def log_out_tab_def tcp_tab_def listen_tab_def forward_tab_def
  conn_tab_def limit_tab_def timeout_tab_def retries_tab_def transport_tab_def keepalive_tab_def telemetry_tab_def
  metrics_tab_def log_tab_def hooks_tab_def

lemma int64_one: "int64_of_double (double_of_int 1) = Inr 1"
  by (rule int64_double_round_trip) simp

lemma conf_checks: "check_tab conf_api (\<lambda>x. x) conf_field 1 root_tab = Inr (True, 0)"
  by (simp add: schema_defs conf_field_def conf_tables_def conf_flags_def conf_strings_def check_leaf_def num_value_def node_value_def int64_one
      verify_mode_def verify_port_def verify_failure_policy_def verify_dst_policy_def verify_backpressure_policy_def
      as_int_def SM3T__MODE_COUNT_def UINT16_MAX_def failure_policies_def orig_dst_policies_def backpressure_policies_def)

lemma conf_api_ok: "lua_ok conf_api" "lua_load_ok conf_api"
  using ref_lua_ok ref_load_ok [of conf_lua] by (simp_all add: conf_lua_def)

text \<open>The stack and the fields after the steps of loading.\<close>

lemma conf_chunk:
  obtains L0 L1 where "sm3t__load_conf conf_api ''examples/conf.lua'' = Some L0"
    and "l_pcall conf_api 0 None (sm3t__sandbox conf_api L0) = (True, L1)"
    and "l_stack conf_api L1 = [LTable 1]" and "l_field conf_api L1 = conf_field"
proof -
  let ?L0 = "conf_lua\<lparr>rl_stack := [LFun 0]\<rparr>" and ?S = "sm3t__sandbox conf_api (conf_lua\<lparr>rl_stack := [LFun 0]\<rparr>)"
  have load: "sm3t__load_conf conf_api ''examples/conf.lua'' = Some ?L0"
    by (simp add: sm3t__load_conf_def ref_api_def conf_lua_def)
  have st: "rl_stack ?S = [LFun 0]"
    using sandbox_effect(1) [OF conf_api_ok(1), of ?L0] by simp
  have fd: "rl_field ?S = conf_field"
  proof (intro ext)
    fix t k
    show "rl_field ?S t k = conf_field t k"
    proof (rule ccontr)
      assume "rl_field ?S t k \<noteq> conf_field t k"
      with sandbox_effect(5) [OF conf_api_ok(1), of ?L0 t k] show False by (simp add: conf_lua_def)
    qed
  qed
  have "l_pcall conf_api 0 None ?S = (True, ?S\<lparr>rl_stack := [LTable 1]\<rparr>)"
    using st by (simp add: ref_pcall_def conf_call_def fit_def Let_def)
  with load show ?thesis by (rule that) (simp_all add: fd)
qed

lemma conf_loaded:
  obtains L where "sm3t__init_conf conf_api (\<lambda>x. x) ''examples/conf.lua'' = Inr (Some L)"
    and "l_stack conf_api L = [LTable 1]" and "conf_ready conf_api (\<lambda>n. True) L"
proof -
  obtain L0 L1 where L: "sm3t__load_conf conf_api ''examples/conf.lua'' = Some L0"
    "l_pcall conf_api 0 None (sm3t__sandbox conf_api L0) = (True, L1)"
    "l_stack conf_api L1 = [LTable 1]" "l_field conf_api L1 = conf_field" by (rule conf_chunk)
  have "checks conf_api L1 True (Inr (True, 0)) (sm3t__parse_conf conf_api (\<lambda>x. x) L1)"
    using parse_conf_check [OF conf_api_ok(1), of L1 "[]" 1 "\<lambda>x. x"] L(3,4) conf_checks by simp
  then obtain L2 where L2: "sm3t__parse_conf conf_api (\<lambda>x. x) L1 = Inr (True, L2)" "rl_stack L2 = [LTable 1]"
      "rl_field L2 = conf_field"
    using L(3,4) by (auto simp: checks_def leaves_def same_but_def)
  let ?L = "sm3t__register_api conf_api L2"
  have "sm3t__init_conf conf_api (\<lambda>x. x) ''examples/conf.lua'' = Inr (Some ?L)"
    using L(1,2) L2(1) by (simp add: sm3t__init_conf_def)
  moreover have st: "l_stack conf_api ?L = [LTable 1]" and fd: "t < 1000 \<Longrightarrow> l_field conf_api ?L t = conf_field t" for t
    using L2(2,3) by (auto simp: sm3t__register_api_def ref_api_def)
  moreover have "conf_ready conf_api (\<lambda>n. True) ?L"
    unfolding conf_ready_def using conf_api_ok(1) st fd by (auto simp: conf_field_tables)
  ultimately show ?thesis by (intro that) simp_all
qed

text \<open>A state with the configuration on its stack, and a library \<open>os\<close>.\<close>

definition hook_lua :: ref_lua where
  "hook_lua = conf_lua\<lparr>rl_stack := [LTable 1], rl_global := (\<lambda>k. LNil)(''os'' := LTable 30)\<rparr>"

lemma hook_lua_simps [simp]: "rl_stack hook_lua = [LTable 1]" "rl_field hook_lua = conf_field"
  "rl_global hook_lua = (\<lambda>k. LNil)(''os'' := LTable 30)"
  by (simp_all add: hook_lua_def conf_lua_def)

lemma hook_found:
  "push_hook conf_api ''on_data'' hook_lua = (True, hook_lua\<lparr>rl_stack := [LTable 1, LTable 18, LFun 2]\<rparr>)"
  by (simp add: push_hook_def lua_istable_def lua_isfunction_def lua_value_def stack_at_def top_table_def ref_api_def
      conf_field_def conf_tables_def conf_flags_def conf_strings_def)

lemma hook_called:
  "l_pcall conf_api 3 (Some 1) (l_push conf_api (LInt (direction_code dir))
     (l_push conf_api (LStr bs) (l_push conf_api (LLight 16) (hook_lua\<lparr>rl_stack := [LTable 1, LTable 18, LFun 2]\<rparr>))))
   = (True, hook_lua\<lparr>rl_stack := [LTable 1, LTable 18, LStr ''hi'']\<rparr>)"
  by (simp add: ref_api_def ref_pcall_def conf_call_def fit_def Let_def)

lemma hook_walk:
  "walk conf_field (LTable 1) [''tcp'', ''listen''] = Some (LTable 6)"
  "(6, ''port'') \<notin> set (walk_reads conf_field (LTable 1) [''tcp'', ''listen''])"
  by (simp_all add: conf_field_tables)

text \<open>What the server reads of this configuration.\<close>

lemma conf_reads:
  assumes L: "rl_stack L = [LTable 1]" "\<And>t k. k \<noteq> ''hooks'' \<Longrightarrow> rl_field L t k = conf_field t k"
  shows "sm3t__get_conf_value (ref_api call init) (\<lambda>n. True) L ''tcp.telemetry.enable'' SM3T_CBOOL out = Inr (True, L, As_bool False)"
    and "sm3t__get_conf_value (ref_api call init) (\<lambda>n. True) L ''tcp.listen.mode'' SM3T_CINT out = Inr (True, L, As_int 1)"
    and "conf_lookup (ref_api call init) L ''tcp.listen.port'' SM3T_CINT = Inr (Some (As_int 1))"
    and "sm3t__get_conf_value (ref_api call init) (\<lambda>n. True) L ''tcp.listen.port'' SM3T_CINT out = Inr (True, L, As_int 1)"
proof -
  have same: "L' = L" if "same_but (ref_api call init) L (rl_stack L) L'" for L'
    using that by (cases L'; cases L) (simp add: same_but_def)
  have rd: "sm3t__get_conf_value (ref_api call init) (\<lambda>n. True) L path ty out = Inr (True, L, x)"
    if "conf_lookup (ref_api call init) L path ty = Inr (Some x)" for path ty x out
    using get_conf_value_lookup [OF ref_lua_ok, where call1 = call and init1 = init and mem = "\<lambda>n. True" and L = L and path = path
        and type = ty and out = out] that same by auto
  note defs = L conf_lookup_def conf_field_def conf_tables_def conf_flags_def conf_strings_def typed_def num_value_def int64_one setting_tokens
  show "conf_lookup (ref_api call init) L ''tcp.listen.port'' SM3T_CINT = Inr (Some (As_int 1))"
    by (simp add: defs)
  then show "sm3t__get_conf_value (ref_api call init) (\<lambda>n. True) L ''tcp.listen.port'' SM3T_CINT out = Inr (True, L, As_int 1)"
    by (rule rd)
  show "sm3t__get_conf_value (ref_api call init) (\<lambda>n. True) L ''tcp.telemetry.enable'' SM3T_CBOOL out = Inr (True, L, As_bool False)"
    by (rule rd) (simp add: defs)
  show "sm3t__get_conf_value (ref_api call init) (\<lambda>n. True) L ''tcp.listen.mode'' SM3T_CINT out = Inr (True, L, As_int 1)"
    by (rule rd) (simp add: defs)
qed

lemmas hook_lua_reads = conf_reads [OF hook_lua_simps(1) hook_lua_simps(2) [THEN fun_cong, THEN fun_cong]]

text \<open>The same configuration without hooks.\<close>

definition plain_lua :: ref_lua where
  "plain_lua = hook_lua\<lparr>rl_field := fld_upd conf_field 1 ''hooks'' LNil\<rparr>"

lemma plain_lua_simps [simp]: "rl_stack plain_lua = [LTable 1]" "rl_field plain_lua = fld_upd conf_field 1 ''hooks'' LNil"
  by (simp_all add: plain_lua_def)

lemma plain_lua_reads:
  "sm3t__get_conf_value (ref_api call init) (\<lambda>n. True) plain_lua ''tcp.telemetry.enable'' SM3T_CBOOL out = Inr (True, plain_lua, As_bool False)"
  "sm3t__get_conf_value (ref_api call init) (\<lambda>n. True) plain_lua ''tcp.listen.mode'' SM3T_CINT out = Inr (True, plain_lua, As_int 1)"
  "sm3t__get_conf_value (ref_api call init) (\<lambda>n. True) plain_lua ''tcp.listen.port'' SM3T_CINT out = Inr (True, plain_lua, As_int 1)"
  by (rule conf_reads; simp add: fld_upd_def)+

lemma plain_lua_hooks:
  "push_hook (ref_api call init) name plain_lua = (False, plain_lua)" "hook_absent (ref_api call init) name plain_lua"
proof -
  have "plain_lua\<lparr>rl_stack := [LTable 1]\<rparr> = plain_lua" by (simp add: plain_lua_def hook_lua_def)
  then show "push_hook (ref_api call init) name plain_lua = (False, plain_lua)"
    by (simp add: push_hook_def lua_istable_def lua_value_def stack_at_def top_table_def ref_api_def fld_upd_def)
  show "hook_absent (ref_api call init) name plain_lua" by (simp add: hook_absent_def fld_upd_def)
qed

section \<open>Clients\<close>

text \<open>Every hook refuses; bytes received from the upstream are queued for the client.\<close>

definition refuse :: "lval \<Rightarrow> lval list \<Rightarrow> bool \<times> lval list" where
  "refuse f args = (True, [LBool False])"

definition drain_mach :: "ref_lua mach" where
  "drain_mach = \<lparr>m_heap = [16 \<mapsto> busy_ctx, 32 \<mapsto> ref_ctx 5 (Some 16)],
     m_trace = [(Sys_Recv 5 1023, (ret 2)\<lparr>sr_bytes := ''xy''\<rparr>)], m_lua = bare\<rparr>"

lemma busy_pending: "pending busy_ctx = ''xy''"
  by (simp add: busy_ctx_def pending_def ref_ctx_def numeral_eq_Suc)

lemma drain_linked: "linked (hook_absent (ref_api call init) ''on_data'') 0 16 32 drain_mach"
  by (rule linkedI [of _ _ _ _ busy_ctx _ "ref_ctx 5 (Some 16)"])
     (simp_all add: drain_mach_def bare_absent relayed_def busy_pending recvd_def sent_def ret_def pending_def peered_def
        ctx_ok_def busy_ctx_def ref_ctx_def SM3T_BUFFER_SIZE_def)

lemma net_progress: "0 < n \<Longrightarrow> send_progress (net bs n)"
  by (simp add: send_progress_def net_def ret_def)

text \<open>An allocator that hands out one object with the given contents.\<close>

definition one_ctx :: "sm3t_context_t \<Rightarrow> ref_lua plat \<Rightarrow> ref_lua plat" where
  "one_ctx junk P = P\<lparr>p_ctx := \<lambda>m. if m_heap m 48 = None then Some (48, junk) else None\<rparr>"

lemma one_ctx_fresh: "alloc_fresh (one_ctx junk P)"
  by (simp add: alloc_fresh_def one_ctx_def)

lemma refused_here: "fst (sm3t__hook_on_connect (ref_api refuse init) (Some hook_lua) 16) = SM3T_HOOK_DROP"
  by (simp add: sm3t__hook_on_connect_def push_hook_def lua_istable_def lua_isfunction_def lua_value_def stack_at_def
      top_table_def ref_api_def conf_field_def conf_tables_def conf_flags_def conf_strings_def ref_pcall_def refuse_def fit_def
      Let_def lua_toboolean_def)


section \<open>Two rounds of the event loop\<close>

text \<open>
  The server gets the descriptor 7. In the first round a client is accepted, in the second it sends
  three bytes, two of which go on.
\<close>

definition two_rounds :: "nat \<Rightarrow> int list" where
  "two_rounds n = (if n = 0 then [7] else if n = 1 then [8] else [])"

abbreviation relay_env :: env where "relay_env \<equiv> numbered (polled two_rounds ''abc'' 2)"

abbreviation relay_plat :: "ref_lua plat" where "relay_plat \<equiv> ref_plat relay_env nop_call bare"

abbreviation plain_mach :: "ref_lua mach" where "plain_mach \<equiv> \<lparr>m_heap = Map.empty, m_trace = [], m_lua = plain_lua\<rparr>"

lemma relay_plat_simps:
  "p_lua relay_plat = ref_api nop_call bare" "p_env relay_plat = relay_env" "p_mem relay_plat = (\<lambda>n. True)"
  "p_ctx relay_plat m = (if m_heap m 48 = None then Some (48, ref_ctx 0 None)
     else if m_heap m 64 = None then Some (64, ref_ctx 0 None) else None)"
  "p_pton relay_plat f h = Some h"
  by (simp_all add: ref_plat_def)

lemma relay_plat_ok: "platform_ok relay_plat" "epoll_ok (p_env relay_plat)" "no_hooks relay_plat (m_lua plain_mach)"
proof -
  have n: "send_ok (polled two_rounds ''abc'' 2)" "recv_ok (polled two_rounds ''abc'' 2)"
    using net_ok [of "''abc''" 2] by (auto simp: polled_def send_ok_def recv_ok_def)
  show "platform_ok relay_plat"
    using ref_alloc_fresh by (auto simp: platform_ok_def relay_plat_simps numbered_ok n zeroed_def)
  show "epoll_ok (p_env relay_plat)" by (simp add: relay_plat_simps numbered_ok polled_ok)
  show "no_hooks relay_plat (m_lua plain_mach)" by (simp add: no_hooks_def relay_plat_simps ref_lua_ok plain_lua_hooks)
qed

lemma kernel_simps [simp]:
  "waits (tr @ us) = waits tr + waits us" "waits [] = 0"
  "waits (u # us) = (case fst u of Sys_Epoll_Wait _ _ \<Rightarrow> 1 | _ \<Rightarrow> 0) + waits us"
  "fresh_fd (tr @ us) = fold (\<lambda>u n. max n (sr_ret (snd u) + 1)) us (fresh_fd tr)"
  by (simp_all add: waits_def fresh_fd_def split: syscall.splits)

lemmas kernel_calc = msys_pair sys_def numbered_def polled_def net_def ret_def two_rounds_def ready_fds_def SM3T_MAX_EVENT_def

lemmas start_calc = start_server_def sm3t__init_server_def plain_lua_reads as_int_def UINT16_MAX_def bind_loop.simps try_bind_def
  listen_on_def sm3t__set_nonblocking_def sm3t__append_poll_def SM3T__MODE_TRANSPARENT_def SM3T__MODE_FORWARD_def

text \<open>What the rounds need to know of the state before them.\<close>

definition before_accept :: "ref_lua loop_state \<Rightarrow> bool" where
  "before_accept s \<longleftrightarrow> m_heap (ls_mach s) = Map.empty \<and> m_lua (ls_mach s) = plain_lua \<and> ls_dead s = None
     \<and> epoll_set 3 (m_trace (ls_mach s)) 7 = Some 7 \<and> waits (m_trace (ls_mach s)) = 0 \<and> fresh_fd (m_trace (ls_mach s)) = 8
     \<and> (\<exists>q. sm3t__dequeue (ls_ups s) = Inr (Some (domains ! 0), q))"

definition before_data :: "ref_lua loop_state \<Rightarrow> bool" where
  "before_data s \<longleftrightarrow> m_heap (ls_mach s) 48 = Some (ref_ctx 8 (Some 64)) \<and> m_heap (ls_mach s) 64 = Some (ref_ctx 9 (Some 48))
     \<and> m_lua (ls_mach s) = plain_lua \<and> ls_dead s = None
     \<and> epoll_set 3 (m_trace (ls_mach s)) 8 = Some 48 \<and> waits (m_trace (ls_mach s)) = 1"

lemma first_upstream:
  "\<exists>q. sm3t__enqueue True None (Some x) = Inr (True, Some q) \<and> (\<exists>q'. sm3t__dequeue (Some q) = Inr (Some x, q'))"
  by (simp add: sm3t__enqueue_def sm3t__dequeue_def new_queue_def queue_store_def queue_grow_def sm3t__queue_full_def sm3t__queue_empty_def
      slot_put_def slot_get_def QUEUE_MAX_def i32_def int_range c_rem_def Let_def numeral_eq_Suc)

lemma server_starts:
  "\<exists>server s. start_server relay_plat plain_mach = Some (Inr (Started server 3 SM3T__MODE_FORWARD s)) \<and> srv_sock server = 7 \<and> before_accept s"
proof -
  obtain q q' where "sm3t__enqueue True None (Some (domains ! 0)) = Inr (True, Some q)"
    "sm3t__dequeue (Some q) = Inr (Some (domains ! 0), q')" using first_upstream [of "domains ! 0"] by auto
  then show ?thesis
    by (simp add: before_accept_def start_calc relay_plat_simps kernel_calc Let_def obind_def fresh_fd_def epoll_set_def)
qed

lemmas accept_calc = accept_client_def greet_client_def connect_client_def sm3t__new_ctx_def sm3t__set_peer_meta_def ctx_at_def
  plain_lua_reads as_bool_def sm3t__hook_on_connect_def plain_lua_hooks pick_upstream_def upstream_addr_def sm3t__connect_upstream_def
  link_ctxs_def sm3t__set_nonblocking_def sm3t__append_poll_def SM3T__MODE_TRANSPARENT_def SM3T__MODE_FORWARD_def

lemma round_one:
  assumes "before_accept s"
  shows "\<exists>evs s1 s2. wait_events relay_plat 3 s = (Some evs, s1) \<and> fair_events relay_plat 3 7 SM3T__MODE_FORWARD queued_writable evs s1
     \<and> serve_batch relay_plat 3 7 SM3T__MODE_FORWARD evs s1 = Some (Inr s2) \<and> before_data s2"
proof -
  obtain q where s: "m_heap (ls_mach s) = Map.empty" "m_lua (ls_mach s) = plain_lua" "ls_dead s = None"
    "epoll_set 3 (m_trace (ls_mach s)) 7 = Some 7" "waits (m_trace (ls_mach s)) = 0" "fresh_fd (m_trace (ls_mach s)) = 8"
    "sm3t__dequeue (ls_ups s) = Inr (Some (domains ! 0), q)"
    using assms by (auto simp: before_accept_def)
  have d: "domains ! 0 = \<lparr>up_name = ''localhost'', up_ver = SM3T__IPV4, up_address = ''127.0.0.1'', up_port = 6600, up_weight = 0\<rparr>"
    by (simp add: domains_def)
  show ?thesis
    by (simp add: s d before_data_def wait_events_def serve_batch_def handle_event_def ev_fd_def release_dead_def obind_def sm3t__cleanup_vec_def Let_def mach_simps
       relay_plat_simps kernel_calc accept_calc ref_ctx_def)
qed

lemma round_two:
  assumes "before_data s"
  shows "\<exists>evs s1 s2. wait_events relay_plat 3 s = (Some evs, s1) \<and> fair_events relay_plat 3 7 SM3T__MODE_FORWARD queued_writable evs s1
     \<and> serve_batch relay_plat 3 7 SM3T__MODE_FORWARD evs s1 = Some (Inr s2) \<and> epoll_set 3 (m_trace (ls_mach s2)) 8 = Some 48
     \<and> (\<exists>ca cb. m_heap (ls_mach s2) 48 = Some ca \<and> m_heap (ls_mach s2) 64 = Some cb \<and> c_peer ca = Some 64 \<and> pending cb = ''c'')"
proof -
  let ?ev = "\<lparr>ev_events = EPOLLIN, ev_data = 48\<rparr>"
  have s: "m_heap (ls_mach s) 48 = Some (ref_ctx 8 (Some 64))" "m_heap (ls_mach s) 64 = Some (ref_ctx 9 (Some 48))"
     "m_lua (ls_mach s) = plain_lua" "ls_dead s = None" "epoll_set 3 (m_trace (ls_mach s)) 8 = Some 48" "waits (m_trace (ls_mach s)) = 1"
    using assms by (auto simp: before_data_def)
  obtain s1 where w: "wait_events relay_plat 3 s = (Some [?ev], s1)" and s1: "m_heap (ls_mach s1) = m_heap (ls_mach s)"
    "m_lua (ls_mach s1) = plain_lua" "ls_dead s1 = None" "epoll_set 3 (m_trace (ls_mach s1)) 8 = Some 48"
    using s by (simp add: wait_events_def relay_plat_simps kernel_calc)
  have "\<exists>s2. handle_event relay_plat 3 7 SM3T__MODE_FORWARD ?ev s1 = Some (Inr s2) \<and> ls_dead s2 = None \<and> epoll_set 3 (m_trace (ls_mach s2)) 8 = Some 48
     \<and> (\<exists>ca cb. m_heap (ls_mach s2) 48 = Some ca \<and> m_heap (ls_mach s2) 64 = Some cb \<and> c_peer ca = Some 64 \<and> pending cb = ''c'')"
    using s(1,2) s1
    by (simp add: handle_event_def ev_fd_def dispatch_ctx_def obind_def ctx_at_def vtable_def sm3t__tcp_ctx_handler_def mach_simps has_ev_def
       EPOLLIN_def EPOLLOUT_def read_and_forward_def relay_plat_simps kernel_calc buf_copy_def SM3T_BUFFER_SIZE_def
       sm3t__hook_on_data_def plain_lua_hooks Let_def send_on_def buf_read_def queue_rest_def pending_def tr_simps)
  then obtain s2 where h: "handle_event relay_plat 3 7 SM3T__MODE_FORWARD ?ev s1 = Some (Inr s2)" "ls_dead s2 = None"
    "epoll_set 3 (m_trace (ls_mach s2)) 8 = Some 48"
    "\<exists>ca cb. m_heap (ls_mach s2) 48 = Some ca \<and> m_heap (ls_mach s2) 64 = Some cb \<and> c_peer ca = Some 64 \<and> pending cb = ''c''" by blast
  have "fair_events relay_plat 3 7 SM3T__MODE_FORWARD queued_writable [?ev] s1"
    using h(1) s(1) s1(1) by (simp add: queued_writable_def)
  moreover have "serve_batch relay_plat 3 7 SM3T__MODE_FORWARD [?ev] s1 = Some (Inr s2)"
    using h(1,2) by (simp add: serve_batch_def release_dead_def sm3t__cleanup_vec_def obind_def)
  ultimately show ?thesis using w h(3,4) by blast
qed

text \<open>After the second round one byte is queued for the upstream.\<close>

lemma two_rounds_served:
  obtains server s0 s ca cb where "start_server relay_plat plain_mach = Some (Inr (Started server 3 SM3T__MODE_FORWARD s0))" "srv_sock server = 7"
    "serving relay_plat 3 7 SM3T__MODE_FORWARD queued_writable s0 s" "epoll_set 3 (m_trace (ls_mach s)) 8 = Some 48"
    "m_heap (ls_mach s) 48 = Some ca" "m_heap (ls_mach s) 64 = Some cb" "c_peer ca = Some 64" "pending cb = ''c''"
proof -
  obtain server s0 where s0: "start_server relay_plat plain_mach = Some (Inr (Started server 3 SM3T__MODE_FORWARD s0))" "srv_sock server = 7"
    "before_accept s0" using server_starts by blast
  obtain s1 where s1: "serving relay_plat 3 7 SM3T__MODE_FORWARD queued_writable s0 s1" "before_data s1"
    using round_one [OF s0(3)] serving.round [OF serving.start] by meson
  then show ?thesis using round_two [OF s1(2)] serving.round [OF s1(1)] that [OF s0(1,2)] by meson
qed

end
