(* ===== verification/Spec2Isabelle.thy ===== *)
theory Spec2Isabelle
  imports Sm3t_Views Sm3t_Queue Sm3t_Vec Sm3t_Relay Sm3t_Service Sm3t_Cli Sm3t_Ref
begin

text \<open>
  sm3tproxy is a TCP proxy written in C. It reads a Lua configuration, listens on a port, connects every
  client to an upstream server and relays the bytes in both directions, calling hooks of the
  configuration on the way. This development models the program as functions on explicit state, one
  theory per part, and proves what the parts promise each other and where they break a promise.

  \<^bold>\<open>Conventions.\<close> \<open>'a cres\<close> (\<open>Sm3t_Prelude\<close>) is the result of C code: \<open>Inr\<close> a value, or \<open>Inl\<close> an error,
  which is undefined behaviour (a null or freed pointer, an access outside an object, signed overflow,
  a read of indeterminate memory), an abort inside Lua, or the end of the process. Code that may run
  for ever has the type \<open>'a cres option\<close>; \<open>None\<close> says that it does not return. Only the loop over the
  resolved addresses, the echo loop and the event loop are of this kind; every other loop is a total
  function, so there is no fuel anywhere. C integers are \<open>int\<close> with explicit range checks where the code can
  leave the range, or words where it computes modulo a power of two. Definitions keep the names of the code; a piece of a long C function that is a definition
  of its own has a name of its own (\<open>flush_queued\<close>, \<open>queue_rest\<close>).

  \<^bold>\<open>Parts.\<close> The paths are relative to \<open>src/\<close>.
  \<^item> \<open>Sm3t_Views\<close>: string views (\<open>src/core/sm3t_views.c\<close>). A pointer is an object and an offset. The lemmas
    relate each operation to the bytes a view denotes.
  \<^item> \<open>Sm3t_Queue\<close>: the ring of upstreams (\<open>src/core/sm3t_queue.c\<close>), refined to a list by the interpretation
    of a locale of round-robin rings; fairness, and what the ninth entry does.
  \<^item> \<open>Sm3t_Vec\<close>: the vector of dead contexts (\<open>src/core/sm3t_vec.c\<close>).
  \<^item> \<open>Sm3t_Sys\<close>: system calls and the epoll helpers (\<open>src/core/sm3t_event.c\<close>). The kernel is a function from
    the trace of earlier calls and the call to its result.
  \<^item> \<open>Sm3t_Lua\<close>: the Lua C interface the program uses, a record of operations on an abstract state;
    \<open>lua_ok\<close> states the documented effect of each on the stack, the tables and the globals.
  \<^item> \<open>Sm3t_Hooks\<close>: the calls of the hooks (\<open>src/conf/lua/sm3t_lua_hooks.c\<close>): balance of the Lua stack, and what the
    value returned by \<open>on_data\<close> does.
  \<^item> \<open>Sm3t_Ctx\<close>: connection contexts on a heap of their own and the handlers (\<open>src/proxy/sm3t_ctx.c\<close>);
    \<open>Sm3t_Relay\<close>: what sequences of readiness events do to the two byte streams, and that queued bytes
    are delivered.
  \<^item> \<open>Sm3t_Conf_Rw\<close>: reads and writes by dotted path (\<open>src/conf/lua/sm3t_lua_conf_rw.c\<close>) as lookup and update in
    nested tables; \<open>Sm3t_Parser\<close>: schema and validation (\<open>src/conf/lua/sm3t_parser.c\<close>), refined to a check of
    the tables alone; \<open>Sm3t_Conf\<close>: loading, sandbox, the interface offered to Lua (\<open>src/conf/sm3t_conf.c\<close>,
    \<open>src/conf/lua/sm3t_lua_api.c\<close>).
  \<^item> \<open>Sm3t_Server\<close>: listening, accepting, dispatch, release and the event loop (\<open>src/proxy/sm3t_server.c\<close>);
    \<open>Sm3t_Safety\<close>: the contexts in use point at each other in pairs, under every handler and every
    acceptance; \<open>Sm3t_Accept\<close>: what an epoll instance watches and which descriptors are open, read off the
    trace, and what accepting a client adds to the contexts in use; \<open>Sm3t_Loop\<close>: a locale of invariants of the
    event loop, and its interpretation by the invariant that every registered pointer is a live context
    that owns its descriptor, from the first call of the server to its return; \<open>Sm3t_Streams\<close>: the interpretation
    by the invariant that every connection is relayed faithfully, for any number of connections at once;
    \<open>Sm3t_Service\<close>: where the server listens, refused and unserved clients, and what uninitialised fields
    of a context do.
  \<^item> \<open>Sm3t_Logger\<close>: the logger (\<open>lib/logger.h\<close>): handlers, formats, attributes, lock; an invariant of every logger
    reached through the interface, and who receives a message.
  \<^item> \<open>Sm3t_Options\<close>, \<open>Sm3t_Help\<close>, \<open>Sm3t_Args\<close>: the argument parser (\<open>lib/args.h\<close>): the table of options and the
    conversion of values; help text and shell completion; the passes of \<open>parse_args\<close>, with the first pass
    refined to a function of the arguments (\<open>first_pass\<close>), from which equal spellings of a command line follow.
  \<^item> \<open>Sm3t_Main\<close>, \<open>Sm3t_Cli\<close>: the entry point (\<open>src/core/sm3tproxy.c\<close>): the overrides of the configuration, proved in a
    locale of settings stores and interpreted on the configuration; \<open>main\<close> on a vector of arguments.
  \<^item> \<open>Sm3t_Ref\<close>: a small Lua machine, simple kernels and a complete configuration that satisfy the hypotheses,
    used to apply the statements at concrete inputs.

  \<^bold>\<open>How they interact.\<close> \<open>main\<close> parses its arguments into options, loads and validates a configuration
  into a Lua state, writes the options into it by path and runs the server. The server reads its
  settings back by path, accepts clients into contexts, links each to an upstream from the ring and
  dispatches readiness events to the handler; handlers that end put both ends into the vector, which
  is cleaned up after each batch.

  \<^bold>\<open>Hypotheses on code outside the sources.\<close> \<open>lua_ok\<close> and \<open>lua_load_ok\<close> (the Lua manual on each function),
  \<open>send_ok\<close> and \<open>recv_ok\<close> (a call transfers at most what was asked for), \<open>send_progress\<close> (a writable socket
  accepts at least one byte), \<open>alloc_fresh\<close> (\<open>malloc\<close> returns an address not in use), \<open>fd_ok\<close> (new descriptors
  are positive, as 0 is the standard input), \<open>fd_fresh\<close> (a new descriptor is not one that is open),
  \<open>zeroed\<close> (memory for a context comes cleared, which \<open>malloc\<close> does not promise; the properties of
  \<open>Sm3t_Service\<close> say what happens without), \<open>epoll_ok\<close> (\<open>epoll_wait\<close> reports registered descriptors only,
  each once, with the data registered for it). The properties without them hold whatever Lua, the kernel and the allocator do.

  \<^bold>\<open>Not modelled.\<close> The C++ wrapper at the end of \<open>lib/args.h\<close>, which the program does not compile; the table
  \<open>upstream[]\<close> of the schema, which nothing refers to; the texts of fatal messages, and the calls of the logger inside the proxy, whose
  output no code reads; the Lua interpreter, the kernel and the C library, which are parameters.
\<close>

section \<open>The relay\<close>

text \<open>
  C3. As long as no context with queued bytes is reported readable without being writable, and with
  no data hook configured, a connection relays both streams faithfully: after any sequence of
  readiness events nothing has gone wrong, and either both ends are still connected, and what was
  received from each end is what the other end accepted followed by what is queued for it, or the
  handler gave up, the ends are taken apart, and what each end accepted is a prefix of what was
  received from the other.
\<close>

theorem relay_preserves_streams:
  assumes A: "lua_ok A" "hook_absent A ''on_data'' (m_lua m)" and env: "send_ok env" "recv_ok env"
    and h: "m_heap m a = Some ca" "m_heap m b = Some cb" and p: "peered a b ca cb"
    and w: "\<not> c_wpartial ca" "\<not> c_wpartial cb"
    and evs: "all_enabled (relay_step A env e) (relay_enabled a b) (m, True) evs"
  shows "\<exists>m' going ca' cb'. run_steps (relay_step A env e) (m, True) evs = Inr (m', going)
    \<and> m_heap m' a = Some ca' \<and> m_heap m' b = Some cb' \<and>
    (let tr = drop (length (m_trace m)) (m_trace m') in
     if going
     then c_peer ca' = Some b \<and> c_peer cb' = Some a
        \<and> recvd (c_fd ca) tr = sent (c_fd cb) tr @ pending cb' \<and> recvd (c_fd cb) tr = sent (c_fd ca) tr @ pending ca'
     else c_peer ca' = None \<and> c_peer cb' = None
        \<and> prefix (sent (c_fd cb) tr) (recvd (c_fd ca) tr) \<and> prefix (sent (c_fd ca) tr) (recvd (c_fd cb) tr))"
proof -
  let ?Q = "hook_absent A ''on_data''" and ?t = "length (m_trace m)"
  have "linked ?Q ?t a b m"
    using A(2) h p w by (intro linkedI [of _ _ _ _ ca _ cb]) (auto simp: relayed_def pending_def)
  then have inv: "relay_inv ?Q A env ?t a b (m, True)"
    using env no_data_hook_transparent [OF A(1)] by (simp add: relay_inv_def settled_def)
  obtain s' where run: "run_steps (relay_step A env e) (m, True) evs = Inr s'"
    using relay_run_ok [OF inv evs] by auto
  obtain m' going where s': "s' = (m', going)" by (cases s')
  have set: "settled ?Q ?t a b going m'"
    using relay.run_keeps [OF inv evs run] s' by (simp add: relay_inv_def)
  have "fdmap m' = fdmap m"
    using relay_fds.run_keeps [of "(m, True)" "fdmap m", OF _ all_enabled_True run] s' by simp
  then have fd: "map_option c_fd (m_heap m' x) = map_option c_fd (m_heap m x)" for x
    by (metis fdmap_def)
  from set obtain ca' cb' where h': "m_heap m' a = Some ca'" "m_heap m' b = Some cb'"
    by (auto simp: settled_def linked_def ends_def split: if_splits)
  then have "c_fd ca' = c_fd ca" "c_fd cb' = c_fd cb" using fd [of a] fd [of b] h by simp_all
  with set run s' h' show ?thesis
    by (auto simp: settled_def linked_def ends_def peered_def relayed_def prefixed_def Let_def split: if_splits)
qed

theorem relay_preserves_streams_witness:
  "\<exists>m' going ca' cb'.
     run_steps (relay_step (ref_api nop_call bare) (net ''abc'' 2) 3) (ref_mach bare, True) [(16, EPOLLIN)] = Inr (m', going)
    \<and> m_heap m' 16 = Some ca' \<and> m_heap m' 32 = Some cb' \<and>
    (let tr = drop (length (m_trace (ref_mach bare))) (m_trace m') in
     if going
     then c_peer ca' = Some 32 \<and> c_peer cb' = Some 16
        \<and> recvd 4 tr = sent 5 tr @ pending cb' \<and> recvd 5 tr = sent 4 tr @ pending ca'
     else c_peer ca' = None \<and> c_peer cb' = None
        \<and> prefix (sent 5 tr) (recvd 4 tr) \<and> prefix (sent 4 tr) (recvd 5 tr))"
proof -
  have "all_enabled (relay_step (ref_api nop_call bare) (net ''abc'' 2) 3) (relay_enabled 16 32)
      (ref_mach bare, True) [(16, EPOLLIN)]"
    by (simp add: relay_enabled_def split: sum.splits)
  from relay_preserves_streams [OF ref_lua_ok _ net_ok _ _ ref_peered _ _ this] bare_absent show ?thesis
    by (simp add: Let_def cong: if_cong)
qed

theorem hangup_with_queued_bytes_crashes_witness:
  "\<exists>m'. sm3t__tcp_ctx_handler (ref_api nop_call bare) (net ''abc'' 2) (Some 16) 3 queued_mach = Inr (False, m')
     \<and> (\<forall>evs. sm3t__tcp_ctx_handler (ref_api nop_call bare) (net ''abc'' 2) (Some 32) 3
            (upd_ctx 32 (\<lambda>c. c\<lparr>c_events := evs\<rparr>) m') = Inl Null_Deref)"
  by (rule hangup_with_queued_bytes_crashes [of _ _ "(ref_ctx 4 (Some 32))\<lparr>c_events := EPOLLRDHUP\<rparr>" _
        "(ref_ctx 5 (Some 16))\<lparr>c_wpartial := True, c_wlen := 1\<rparr>"])
     (simp_all add: queued_mach_def has_ev_def EPOLLRDHUP_def)

theorem receive_destroys_queued_bytes_witness:
  "pending busy_ctx = ''xy'' \<and>
   (\<exists>m' ca'. sm3t__tcp_ctx_handler (ref_api nop_call bare) (net ''abc'' 9) (Some 16) 3 busy_mach = Inr (True, m')
     \<and> m_heap m' 16 = Some ca' \<and> c_wpartial ca' \<and> pending ca' = ''ab'')"
proof -
  let ?r = "net ''abc'' 9 [] (Sys_Recv 4 (SM3T_BUFFER_SIZE - 1))"
  have xy: "pending busy_ctx = ''xy''"
    by (simp add: busy_ctx_def pending_def ref_ctx_def numeral_eq_Suc)
  have r: "sr_bytes ?r = ''abc''" "sr_ret ?r = 3" by (simp_all add: net_def ret_def SM3T_BUFFER_SIZE_def)
  have "\<exists>m' ca'. sm3t__tcp_ctx_handler (ref_api nop_call bare) (net ''abc'' 9) (Some 16) 3 busy_mach = Inr (True, m')
     \<and> m_heap m' 16 = Some ca' \<and> c_wpartial ca' \<and> pending ca' = take (length (pending busy_ctx)) (sr_bytes ?r)"
    by (rule receive_destroys_queued_bytes [OF ref_lua_ok _ net_ok(2), where ca = busy_ctx and b = 32 and cb = "ref_ctx 5 (Some 16)"])
       (simp_all add: busy_mach_def bare_absent busy_ctx_def peered_def ctx_ok_def ref_ctx_def SM3T_BUFFER_SIZE_def
          has_ev_def EPOLLIN_def EPOLLOUT_def net_def ret_def)
  then show ?thesis using xy r by (simp add: numeral_eq_Suc)
qed

section \<open>The whole server\<close>


section \<open>Memory safety of the event loop\<close>



section \<open>Statements of the components at concrete inputs\<close>

text \<open>Hooks and system calls.\<close>

theorem hooks_balanced_witness:
  "\<exists>M b. sm3t__hook_on_data conf_api (Some hook_lua) 16 (replicate 1024 CHR ''x'') 3 SM3T_CLI_UPS
           = Inr (SM3T_HOOK_PASS, Some M, b, 2) \<and> rl_stack M = [LTable 1]"
proof -
  have "\<exists>M b. sm3t__hook_on_data conf_api (Some hook_lua) 16 (replicate 1024 CHR ''x'') 3 SM3T_CLI_UPS
      = Inr (SM3T_HOOK_PASS, Some M, b, 2)"
    using hook_called [of SM3T_CLI_UPS]
    by (simp add: sm3t__hook_on_data_def hook_found buf_read_def hook_data_result_def lua_isstring_def lua_value_def
        stack_at_def luaL_len_string_def lua_tostring_def buf_copy_def buf_store_def SM3T_BUFFER_SIZE_def)
  then obtain M b where eq: "sm3t__hook_on_data conf_api (Some hook_lua) 16 (replicate 1024 CHR ''x'') 3 SM3T_CLI_UPS
      = Inr (SM3T_HOOK_PASS, Some M, b, 2)" by blast
  with hooks_balanced [OF ref_lua_ok, of conf_call conf_lua hook_lua 16 "replicate 1024 CHR ''x''" 3 SM3T_CLI_UPS]
  show ?thesis by auto
qed

theorem on_data_verdict_followed_witness:
  "\<exists>u r. rl_stack (hook_lua\<lparr>rl_stack := [LTable 1, LTable 18, LStr ''hi'']\<rparr>) = [LTable 1] @ [LTable u, r]
     \<and> sm3t__hook_on_data conf_api (Some hook_lua) 16 (replicate 1024 CHR ''x'') 3 SM3T_CLI_UPS =
         cbind (on_data_verdict r (replicate 1024 CHR ''x'') 3) (\<lambda>(st, buf, n).
           Inr (st, Some (l_pop conf_api 2 (hook_lua\<lparr>rl_stack := [LTable 1, LTable 18, LStr ''hi'']\<rparr>)), buf, n))"
  using on_data_verdict_followed [OF ref_lua_ok hook_found hook_called, where buf = "replicate 1024 CHR ''x''" and len = 3
      and dir = SM3T_CLI_UPS]
  by (simp add: SM3T_BUFFER_SIZE_def)

theorem bind_loop_diverges_witness:
  "bind_loop (ref_plat no_sockets nop_call bare) (replicate 2 (sr_addr (ret 0))) (replicate 2 (sr_addr (ret 0))) (ref_mach bare) = None"
  by (rule bind_loop_diverges, rule stuck_no_socket) (simp_all add: ref_plat_def no_sockets_def ret_def SM3T__ERR_def)

text \<open>The configuration.\<close>

theorem conf_read_is_lookup_witness:
  "\<exists>L'. sm3t__get_conf_value conf_api (\<lambda>n. True) hook_lua ''tcp.listen.port'' SM3T_CINT (As_int 0) = Inr (True, L', As_int 1)
     \<and> rl_stack L' = [LTable 1]"
proof -
  have "conf_lookup conf_api hook_lua ''tcp.listen.port'' SM3T_CINT = Inr (Some (As_int 1))"
    by (simp add: conf_lookup_def setting_tokens conf_field_def conf_tables_def conf_flags_def conf_strings_def typed_def
        num_value_def int64_one)
  then show ?thesis
    using conf_read_is_lookup [OF ref_lua_ok, of "\<lambda>n. True" conf_call conf_lua hook_lua "''tcp.listen.port''" SM3T_CINT "As_int 0"]
    by (auto simp: same_but_def)
qed

theorem conf_write_then_read_witness:
  "\<exists>L1 L2. sm3t__set_conf_value conf_api (\<lambda>n. True) hook_lua ''tcp.listen.port'' SM3T_CINT (As_int 443) = Inr (True, L1)
     \<and> sm3t__get_conf_value conf_api (\<lambda>n. True) L1 ''tcp.listen.port'' SM3T_CINT (As_int 0) = Inr (True, L2, As_int 443)
     \<and> rl_stack L2 = [LTable 1]"
  using conf_write_then_read [OF ref_lua_ok _ _ setting_split_key(1), of "\<lambda>n. True" conf_call conf_lua hook_lua 1 6 SM3T_CINT
      "As_int 443" "As_int 0"] hook_walk
  by auto

theorem parse_conf_is_check_witness:
  "\<exists>L'. sm3t__parse_conf conf_api (\<lambda>x. x) hook_lua = Inr (True, L') \<and> same_but conf_api hook_lua [LTable 1] L'"
  using parse_conf_is_check [OF conf_api_ok(1), of hook_lua "[]" 1 "\<lambda>x. x"] conf_checks by auto

theorem backpressure_unchecked_witness:
  "map_sum id fst (sm3t__parse_conf conf_api (\<lambda>x. x) (hook_lua\<lparr>rl_field := fld_upd conf_field 5 ''backpressure'' (LInt 99)\<rparr>))
     = map_sum id fst (sm3t__parse_conf conf_api (\<lambda>x. x) hook_lua)"
  by (rule backpressure_unchecked [OF conf_api_ok(1), of _ "[]" 1]) simp_all

theorem init_conf_listen_in_range_witness:
  "\<exists>L1 rs t u w. l_stack conf_api L1 = rs @ [LTable t] \<and> l_field conf_api L1 t ''tcp'' = LTable u
     \<and> l_field conf_api L1 u ''listen'' = LTable w
     \<and> (\<forall>x. num_value conf_api (l_field conf_api L1 w ''port'') = Some x \<longrightarrow>
            (\<exists>n. int64_of_double x = Inr n \<and> 0 < n \<and> n \<le> UINT16_MAX))"
proof -
  obtain L where L: "sm3t__init_conf conf_api (\<lambda>x. x) ''examples/conf.lua'' = Inr (Some L)" by (rule conf_loaded)
  from init_conf_listen_in_range [OF conf_api_ok L] show ?thesis by blast
qed

theorem sandbox_strips_witness:
  "rl_stack (sm3t__sandbox conf_api hook_lua) = [LTable 1]
   \<and> rl_field (sm3t__sandbox conf_api hook_lua) 30 ''execute'' = LNil"
  using sandbox_strips [OF conf_api_ok(1), of hook_lua] by simp

text \<open>The program.\<close>

theorem apply_options_stored_witness:
  "\<exists>L L'. sm3t__init_conf conf_api (\<lambda>x. x) ''examples/conf.lua'' = Inr (Some L)
     \<and> apply_options conf_api (\<lambda>n. True) default_options L = Inr L'
     \<and> conf_lookup conf_api L' ''tcp.listen.port'' SM3T_CINT = Inr (Some (As_int 8080))"
proof -
  obtain L where L: "sm3t__init_conf conf_api (\<lambda>x. x) ''examples/conf.lua'' = Inr (Some L)" "conf_ready conf_api (\<lambda>n. True) L"
    by (rule conf_loaded)
  from apply_options_stored [OF L(2), of default_options] L(1) show ?thesis
    by (auto simp: default_options_def SM3T_DEFAULT_PORT_def UINT16_MAX_def)
qed

theorem command_line_in_range_witness:
  "\<exists>opts. option_values (cli_parsed 443) = Inr opts \<and> in_i64 (o_port opts) \<and> o_mode opts < 3"
proof (rule command_line_in_range)
  show "define_options sample_env = Inr cli_args" by (rule define_options_mem) (simp add: sample_env_def)
  show "parse_args sample_env (print_help sample_env) cli_args [''sm3tproxy'', ''-p'', decimal 443]
      = Inr (Returned 0 [] (cli_parsed 443))"
    using parse_port [of sample_env 443] by (simp add: sample_env_def INT64_MAX_def)
qed

theorem main_serves_on_port_witness:
  "\<exists>L'. main (ref_plat (net [] 9) conf_call conf_lua) (\<lambda>x. x) sample_env [''sm3tproxy'', ''-p'', decimal 443]
      = obind (sm3t__run_server (ref_plat (net [] 9) conf_call conf_lua) (Some L') \<lparr>m_heap = Map.empty, m_trace = [], m_lua = L'\<rparr>)
          (\<lambda>_. Some (Inr (Main_Returned 0 (init_logger (Some DEFAULT_DATE_FORMAT3) True static_logger))))
    \<and> conf_lookup conf_api L' ''tcp.listen.port'' SM3T_CINT = Inr (Some (As_int 443))"
proof -
  let ?P = "ref_plat (net [] 9) conf_call conf_lua"
  have P: "p_lua ?P = conf_api" "p_mem ?P = (\<lambda>n. True)" by (simp_all add: ref_plat_def)
  obtain L where L: "sm3t__init_conf conf_api (\<lambda>x. x) ''examples/conf.lua'' = Inr (Some L)" "conf_ready conf_api (\<lambda>n. True) L"
    by (rule conf_loaded)
  have "\<forall>k. ae_mem sample_env k" by (simp add: sample_env_def)
  from main_serves_on_port [OF this, of ?P "\<lambda>x. x" L 443 "''sm3tproxy''"] L show ?thesis
    by (auto simp: P INT64_MAX_def UINT16_MAX_def)
qed


theorem init_server_listens_witness:
  "\<exists>srv m' r. sm3t__init_server (ref_plat (polled four_rounds [] 9) conf_call conf_lua) \<lparr>m_heap = Map.empty, m_trace = [], m_lua = hook_lua\<rparr>
      = Some (Inr (Some srv, m')) \<and> srv_sock srv = 7 \<and> (Sys_Listen 7 SM3T_BACKLOG, r) \<in> set (m_trace m')"
proof -
  let ?P = "ref_plat (polled four_rounds [] 9) conf_call conf_lua" and ?m = "\<lparr>m_heap = Map.empty, m_trace = [], m_lua = hook_lua\<rparr>"
  have P: "p_lua ?P = conf_api" "p_mem ?P = (\<lambda>n. True)" "p_env ?P = polled four_rounds [] 9" by (simp_all add: ref_plat_def)
  have "\<exists>srv m'. sm3t__init_server ?P ?m = Some (Inr (Some srv, m')) \<and> srv_sock srv = 7"
    by (simp add: sm3t__init_server_def P hook_lua_reads as_int_def UINT16_MAX_def msys_pair polled_def net_def ret_def
        bind_loop.simps try_bind_def Let_def SM3T__MODE_TRANSPARENT_def listen_on_def sm3t__set_nonblocking_def sys_def)
  then obtain srv m' where eq: "sm3t__init_server ?P ?m = Some (Inr (Some srv, m'))" "srv_sock srv = 7" by blast
  have "conf_lookup (p_lua ?P) (m_lua ?m) ''tcp.listen.port'' SM3T_CINT = Inr (Some (As_int 1))" by (simp add: P hook_lua_reads)
  from init_server_listens [OF _ _ this eq(1)] show ?thesis using eq by (auto simp: P ref_lua_ok UINT16_MAX_def)
qed

theorem refused_client_closed_witness:
  "\<exists>m' r. greet_client (ref_plat (net [] 9) refuse conf_lua) 3 1 16 4 (sr_addr (ret 0)) None (ref_mach hook_lua) = Inr (None, m')
     \<and> m_heap m' 16 = None \<and> m_trace m' = [(Sys_Close 4, r)]"
proof -
  let ?P = "ref_plat (net [] 9) refuse conf_lua"
  obtain m1 where m1: "sm3t__set_peer_meta ?P 16 (sr_addr (ret 0)) (ref_mach hook_lua) = Inr m1" "m_lua m1 = hook_lua"
    by (simp add: sm3t__set_peer_meta_def ctx_at_def ref_plat_def hook_lua_reads as_bool_def mach_simps)
  from refused_client_closed [OF ref_mach_simps(1) _ m1(1), of 3 1 None] show ?thesis
    by (auto simp: m1(2) ref_plat_def refused_here)
qed

theorem unserved_client_closes_stray_fd_witness:
  "\<exists>m' r1 r2. connect_client (one_ctx (ref_ctx 8 None) (ref_plat (net [] 9) nop_call bare)) 3 SM3T__MODE_SOCKS5 16 4 None (ref_mach bare)
      = Inr (None, m') \<and> m_trace m' = [(Sys_Close 4, r1), (Sys_Close 8, r2)]"
  using unserved_client_closes_stray_fd [OF one_ctx_fresh, of "ref_ctx 8 None" "ref_plat (net [] 9) nop_call bare" "ref_mach bare" 48
      "ref_ctx 8 None" 16 "ref_ctx 4 (Some 32)" SM3T__MODE_SOCKS5 3 None]
  by (auto simp: one_ctx_def ref_mach_def SM3T__MODE_SOCKS5_def SM3T__MODE_TRANSPARENT_def SM3T__MODE_FORWARD_def)


end
